(* ===== verification/Orion_Prelude.thy ===== *)
theory Orion_Prelude
  imports Main "HOL-Library.Word" "HOL-Library.Monad_Syntax"
begin

text \<open>
  The vocabulary the component theories share.

  \<^item> the machine integers of the sources by their Rust names, with the checked and
    saturating additions the standard library gives them (the release profile of the
    workspace turns overflow checks off, so plain operators wrap: they are the
    operators of the word types);
  \<^item> \<open>outcome\<close>: the value of an expression that may panic (slice out of range,
    division by zero).  Rust's \<open>Result\<close> is the sum type with the error on the left;
  \<^item> the iterator adaptors of the standard library the sources use and HOL does not
    have under the same evaluation order (\<open>any\<close>, \<open>all\<close>, \<open>reduce\<close>, \<open>max_by_key\<close>);
  \<^item> byte strings: a Rust \<open>str\<close> is its list of UTF-8 bytes, one \<^typ>\<open>char\<close> per byte,
    so that \<open>len\<close> is \<^const>\<open>length\<close> and the slices are byte slices.
\<close>

named_theorems panic_simps \<open>when a possibly panicking expression returns\<close>
named_theorems inv_intros \<open>invariants kept by the operations\<close>

section \<open>Machine integers\<close>

type_synonym u8 = "8 word"
type_synonym u16 = "16 word"
type_synonym u32 = "32 word"
type_synonym u64 = "64 word"
type_synonym i32 = int

abbreviation u32_max :: nat where
  "u32_max \<equiv> 4294967295"

abbreviation i32_max :: int where
  "i32_max \<equiv> 2147483647"

abbreviation i32_min :: int where
  "i32_min \<equiv> - 2147483648"

definition checked_add_u32 :: "u32 \<Rightarrow> u32 \<Rightarrow> u32 option" where
  "checked_add_u32 a b = (if unat a + unat b \<le> u32_max then Some (a + b) else None)"

definition saturating_add_i32 :: "i32 \<Rightarrow> i32 \<Rightarrow> i32" where
  "saturating_add_i32 a b = max i32_min (min i32_max (a + b))"

text \<open>\<open>i32::try_from(u).unwrap_or(i32::MAX)\<close>.\<close>
definition i32_of_u32_or_max :: "u32 \<Rightarrow> i32" where
  "i32_of_u32_or_max w = (if uint w \<le> i32_max then uint w else i32_max)"

lemma unat_u32_le [simp]: "unat (w :: u32) \<le> u32_max"
proof -
  have "unat w < 2 ^ LENGTH(32)"
    by (rule unsigned_less)
  then show ?thesis by simp
qed

lemma uint_u32_le [simp]: "uint (w :: u32) \<le> int u32_max"
proof -
  have "uint w < 2 ^ LENGTH(32)"
    by (rule unsigned_less)
  then show ?thesis by simp
qed

section \<open>Expressions that may panic\<close>

datatype 'a outcome = Ret 'a | Panic

primrec bindP :: "'a outcome \<Rightarrow> ('a \<Rightarrow> 'b outcome) \<Rightarrow> 'b outcome" where
  "bindP (Ret x) f = f x"
| "bindP Panic f = Panic"

abbreviation mapP :: "('a \<Rightarrow> 'b) \<Rightarrow> 'a outcome \<Rightarrow> 'b outcome" where
  "mapP f m \<equiv> bindP m (\<lambda>x. Ret (f x))"

text \<open>\<open>a && b\<close> and \<open>a || b\<close>: the right operand is evaluated only when the left one
  does not decide.\<close>
definition andP :: "bool outcome \<Rightarrow> bool outcome \<Rightarrow> bool outcome" where
  "andP a b = bindP a (\<lambda>x. if x then b else Ret False)"

definition orP :: "bool outcome \<Rightarrow> bool outcome \<Rightarrow> bool outcome" where
  "orP a b = bindP a (\<lambda>x. if x then Ret True else b)"

text \<open>\<open>Iterator::any\<close> and \<open>Iterator::all\<close> stop at the first deciding element.\<close>
primrec anyP :: "('a \<Rightarrow> bool outcome) \<Rightarrow> 'a list \<Rightarrow> bool outcome" where
  "anyP p [] = Ret False"
| "anyP p (x # xs) = orP (p x) (anyP p xs)"

primrec allP :: "('a \<Rightarrow> bool outcome) \<Rightarrow> 'a list \<Rightarrow> bool outcome" where
  "allP p [] = Ret True"
| "allP p (x # xs) = andP (p x) (allP p xs)"

primrec mapListP :: "('a \<Rightarrow> 'b outcome) \<Rightarrow> 'a list \<Rightarrow> 'b list outcome" where
  "mapListP f [] = Ret []"
| "mapListP f (x # xs) = bindP (f x) (\<lambda>y. mapP ((#) y) (mapListP f xs))"

text \<open>\<open>Iterator::find\<close> with a predicate that may panic.\<close>
primrec findP :: "('a \<Rightarrow> bool outcome) \<Rightarrow> 'a list \<Rightarrow> 'a option outcome" where
  "findP p [] = Ret None"
| "findP p (x # xs) = bindP (p x) (\<lambda>b. if b then Ret (Some x) else findP p xs)"

lemma bindP_eq_Ret [panic_simps]:
  "bindP m f = Ret y \<longleftrightarrow> (\<exists>x. m = Ret x \<and> f x = Ret y)"
  by (cases m) auto

lemma bindP_eq_Panic [panic_simps]:
  "bindP m f = Panic \<longleftrightarrow> m = Panic \<or> (\<exists>x. m = Ret x \<and> f x = Panic)"
  by (cases m) auto

lemma bindP_assoc [simp]: "bindP (bindP m f) g = bindP m (\<lambda>x. bindP (f x) g)"
  by (cases m) auto

lemma andP_Ret [simp]: "andP (Ret a) (Ret b) = Ret (a \<and> b)"
  by (simp add: andP_def)

lemma orP_Ret [simp]: "orP (Ret a) (Ret b) = Ret (a \<or> b)"
  by (simp add: orP_def)

lemma anyP_Ret [simp]: "anyP (\<lambda>x. Ret (p x)) xs = Ret (\<exists>x \<in> set xs. p x)"
  by (induction xs) auto

lemma allP_Ret [simp]: "allP (\<lambda>x. Ret (p x)) xs = Ret (\<forall>x \<in> set xs. p x)"
  by (induction xs) auto

lemma anyP_cong_Ret:
  "(\<And>x. x \<in> set xs \<Longrightarrow> f x = Ret (p x)) \<Longrightarrow> anyP f xs = Ret (\<exists>x \<in> set xs. p x)"
  by (induction xs) auto

lemma allP_cong_Ret:
  "(\<And>x. x \<in> set xs \<Longrightarrow> f x = Ret (p x)) \<Longrightarrow> allP f xs = Ret (\<forall>x \<in> set xs. p x)"
  by (induction xs) auto

lemma findP_cong_Ret:
  "(\<And>x. x \<in> set xs \<Longrightarrow> f x = Ret (p x)) \<Longrightarrow> findP f xs = Ret (List.find p xs)"
  by (induction xs) auto

section \<open>Iterator adaptors\<close>

text \<open>\<open>iter_mut().reduce(|best, item| if better(item, best) { item } else { best })\<close>:
  the result is a reference, modelled as the index it points to.\<close>
fun reduce_idx_from :: "('a \<Rightarrow> 'a \<Rightarrow> bool) \<Rightarrow> 'a \<Rightarrow> nat \<Rightarrow> nat \<Rightarrow> 'a list \<Rightarrow> nat" where
  "reduce_idx_from better b bi i [] = bi"
| "reduce_idx_from better b bi i (x # xs) =
     (if better x b then reduce_idx_from better x i (Suc i) xs
      else reduce_idx_from better b bi (Suc i) xs)"

fun reduce_idx :: "('a \<Rightarrow> 'a \<Rightarrow> bool) \<Rightarrow> 'a list \<Rightarrow> nat option" where
  "reduce_idx better [] = None"
| "reduce_idx better (x # xs) = Some (reduce_idx_from better x 0 1 xs)"

text \<open>\<open>Iterator::max_by_key\<close>: the last of the elements whose key is maximal.\<close>
fun max_by_key :: "('a \<Rightarrow> 'k::linorder) \<Rightarrow> 'a list \<Rightarrow> 'a option" where
  "max_by_key f [] = None"
| "max_by_key f (x # xs) = Some (fold (\<lambda>y b. if f b \<le> f y then y else b) xs x)"

text \<open>\<open>Iterator::max\<close>.\<close>
fun iter_max :: "'a::linorder list \<Rightarrow> 'a option" where
  "iter_max [] = None"
| "iter_max (x # xs) = Some (foldl max x xs)"

text \<open>\<open>iter_mut().find(p)\<close>, as the index of the element found.\<close>
fun find_index :: "('a \<Rightarrow> bool) \<Rightarrow> 'a list \<Rightarrow> nat option" where
  "find_index p [] = None"
| "find_index p (x # xs) = (if p x then Some 0 else map_option Suc (find_index p xs))"

lemma mapListP_Ret: "(\<And>x. x \<in> set xs \<Longrightarrow> \<exists>y. f x = Ret y) \<Longrightarrow> \<exists>ys. mapListP f xs = Ret ys"
  by (induction xs) fastforce+

lemma mapListP_map: "(\<And>x. x \<in> set xs \<Longrightarrow> f x = Ret (g x)) \<Longrightarrow> mapListP f xs = Ret (map g xs)"
  by (induction xs) auto

lemma find_index_Some:
  "find_index p xs = Some i \<Longrightarrow> i < length xs \<and> p (xs ! i) \<and> (\<forall>j < i. \<not> p (xs ! j))"
proof (induction xs arbitrary: i)
  case (Cons x xs)
  show ?case
  proof (cases "p x")
    case False
    with Cons.prems obtain j where j: "find_index p xs = Some j" "i = Suc j"
      by auto
    from Cons.IH [OF j(1)] False j(2) show ?thesis
      by (auto simp: nth_Cons split: nat.splits)
  qed (use Cons.prems in auto)
qed simp

lemma find_index_None [simp]: "find_index p xs = None \<longleftrightarrow> (\<forall>x \<in> set xs. \<not> p x)"
  by (induction xs) auto

lemma reduce_idx_from_max:
  fixes f :: "'a \<Rightarrow> 'k::linorder"
  assumes "bi < length pre" "pre ! bi = b" "\<forall>x \<in> set pre. f x \<le> f b" "\<forall>j < bi. f (pre ! j) < f b"
    and "r = reduce_idx_from (\<lambda>x b. f x > f b) b bi (length pre) xs"
  shows "r < length (pre @ xs) \<and> (\<forall>x \<in> set (pre @ xs). f x \<le> f ((pre @ xs) ! r))
    \<and> (\<forall>j < r. f ((pre @ xs) ! j) < f ((pre @ xs) ! r))"
  using assms
proof (induction xs arbitrary: pre b bi)
  case Nil
  then show ?case by auto
next
  case (Cons x xs)
  show ?case
  proof (cases "f x > f b")
    case True
    have "\<forall>j < length pre. f ((pre @ [x]) ! j) < f x"
      using True Cons.prems(3) by (auto simp: nth_append) (meson le_less_trans nth_mem)
    moreover have "\<forall>y \<in> set (pre @ [x]). f y \<le> f x"
      using True Cons.prems(3) by fastforce
    ultimately show ?thesis
      using Cons.IH [of "length pre" "pre @ [x]" x] True Cons.prems(5) by simp
  next
    case False
    have "\<forall>j < bi. f ((pre @ [x]) ! j) < f b" "(pre @ [x]) ! bi = b"
      using Cons.prems by (auto simp: nth_append)
    moreover have "\<forall>y \<in> set (pre @ [x]). f y \<le> f b"
      using False Cons.prems(3) by auto
    ultimately show ?thesis
      using Cons.IH [of bi "pre @ [x]" b] False Cons.prems(1,5) by simp
  qed
qed

lemma reduce_idx_first_max:
  fixes f :: "'a \<Rightarrow> 'k::linorder"
  assumes "reduce_idx (\<lambda>x b. f x > f b) xs = Some i"
  shows "i < length xs" "\<And>x. x \<in> set xs \<Longrightarrow> f x \<le> f (xs ! i)" "\<And>j. j < i \<Longrightarrow> f (xs ! j) < f (xs ! i)"
proof -
  from assms obtain y ys where xs: "xs = y # ys"
    by (cases xs) auto
  have "i < length ([y] @ ys) \<and> (\<forall>x \<in> set ([y] @ ys). f x \<le> f (([y] @ ys) ! i))
    \<and> (\<forall>j < i. f (([y] @ ys) ! j) < f (([y] @ ys) ! i))"
    using reduce_idx_from_max [of 0 "[y]" y f i ys] assms xs by simp
  then show "i < length xs" "\<And>x. x \<in> set xs \<Longrightarrow> f x \<le> f (xs ! i)" "\<And>j. j < i \<Longrightarrow> f (xs ! j) < f (xs ! i)"
    by (auto simp: xs)
qed

lemma reduce_idx_None [simp]: "reduce_idx better xs = None \<longleftrightarrow> xs = []"
  by (cases xs) auto

lemma fold_max_by_key:
  fixes f :: "'a \<Rightarrow> 'k::linorder"
  defines "step \<equiv> \<lambda>y b. if f b \<le> f y then y else b"
  shows "fold step xs x \<in> set (x # xs) \<and> (\<forall>y \<in> set (x # xs). f y \<le> f (fold step xs x))"
  by (induction xs arbitrary: x) (auto simp: step_def, (meson order_trans linear)+)

lemma max_by_key_Some:
  fixes f :: "'a \<Rightarrow> 'k::linorder"
  assumes "max_by_key f xs = Some x"
  shows "x \<in> set xs" "\<And>y. y \<in> set xs \<Longrightarrow> f y \<le> f x"
  using assms fold_max_by_key [of f] by (cases xs; force)+

lemma foldl_max_max:
  fixes x :: "'a::linorder"
  shows "foldl max x xs \<in> set (x # xs) \<and> (\<forall>y \<in> set (x # xs). y \<le> foldl max x xs)"
proof (induction xs arbitrary: x)
  case (Cons a xs)
  have "max x a = x \<or> max x a = a"
    by (simp add: max_def)
  then have "foldl max (max x a) xs \<in> set (x # a # xs)"
    using Cons [of "max x a"] by auto
  moreover have "max x a \<le> foldl max (max x a) xs"
    using Cons [of "max x a"] by simp
  ultimately show ?case
    using Cons [of "max x a"] by auto
qed simp

lemma iter_max_Some:
  fixes xs :: "'a::linorder list"
  assumes "iter_max xs = Some m"
  shows "m \<in> set xs" "\<And>y. y \<in> set xs \<Longrightarrow> y \<le> m"
  using assms foldl_max_max by (cases xs; fastforce)+

lemma iter_max_None [simp]: "iter_max xs = None \<longleftrightarrow> xs = []"
  by (cases xs) auto

lemma max_by_key_None [simp]: "max_by_key f xs = None \<longleftrightarrow> xs = []"
  by (cases xs) auto

section \<open>Byte strings\<close>

type_synonym str = string

definition is_ascii_byte :: "char \<Rightarrow> bool" where
  "is_ascii_byte c \<longleftrightarrow> (of_char c :: nat) < 128"

definition is_ascii :: "str \<Rightarrow> bool" where
  "is_ascii s = list_all is_ascii_byte s"

text \<open>\<open>u8::to_ascii_lowercase\<close>.\<close>
definition to_ascii_lowercase_byte :: "char \<Rightarrow> char" where
  "to_ascii_lowercase_byte c =
     (if 65 \<le> (of_char c :: nat) \<and> (of_char c :: nat) \<le> 90 then char_of ((of_char c :: nat) + 32) else c)"

definition to_ascii_lowercase :: "str \<Rightarrow> str" where
  "to_ascii_lowercase s = map to_ascii_lowercase_byte s"

definition eq_ignore_ascii_case :: "str \<Rightarrow> str \<Rightarrow> bool" where
  "eq_ignore_ascii_case a b \<longleftrightarrow> to_ascii_lowercase a = to_ascii_lowercase b"

text \<open>\<open>str::is_char_boundary\<close>: the start, the end, or a byte that does not continue
  a code point (continuation bytes are \<open>0x80 ..= 0xBF\<close>).\<close>
definition is_char_boundary :: "str \<Rightarrow> nat \<Rightarrow> bool" where
  "is_char_boundary s i \<longleftrightarrow> i = 0 \<or> i = length s \<or>
     (i < length s \<and> \<not> (128 \<le> (of_char (s ! i) :: nat) \<and> (of_char (s ! i) :: nat) < 192))"

text \<open>\<open>&s[a..b]\<close> panics unless \<open>a <= b\<close> and both ends are character boundaries.\<close>
definition slice :: "str \<Rightarrow> nat \<Rightarrow> nat \<Rightarrow> str outcome" where
  "slice s a b = (if a \<le> b \<and> is_char_boundary s a \<and> is_char_boundary s b
                  then Ret (take (b - a) (drop a s)) else Panic)"

fun starts_with :: "str \<Rightarrow> str \<Rightarrow> bool" where
  "starts_with s [] = True"
| "starts_with [] (p # ps) = False"
| "starts_with (c # s) (p # ps) = (c = p \<and> starts_with s ps)"

definition ends_with :: "str \<Rightarrow> str \<Rightarrow> bool" where
  "ends_with s p = starts_with (rev s) (rev p)"

text \<open>\<open>str::find\<close>: the byte offset of the first occurrence.\<close>
fun str_find :: "str \<Rightarrow> str \<Rightarrow> nat option" where
  "str_find [] needle = (if needle = [] then Some 0 else None)"
| "str_find (c # s) needle =
     (if starts_with (c # s) needle then Some 0 else map_option Suc (str_find s needle))"

definition strip_prefix :: "str \<Rightarrow> str \<Rightarrow> str option" where
  "strip_prefix s p = (if starts_with s p then Some (drop (length p) s) else None)"

lemma starts_with_iff: "starts_with s p \<longleftrightarrow> (\<exists>r. s = p @ r)"
  by (induction s p rule: starts_with.induct) auto

lemma starts_with_take: "starts_with s p \<longleftrightarrow> take (length p) s = p"
  by (metis append_eq_conv_conj append_take_drop_id starts_with_iff)

lemma ends_with_iff: "ends_with s p \<longleftrightarrow> (\<exists>r. s = r @ p)"
proof
  assume "ends_with s p"
  then obtain r where "rev s = rev p @ r"
    by (auto simp: ends_with_def starts_with_iff)
  then have "s = rev r @ p"
    by (metis rev_append rev_rev_ident)
  then show "\<exists>r. s = r @ p" ..
qed (auto simp: ends_with_def starts_with_iff)

lemma str_find_Some_iff:
  "str_find s n = Some i \<longleftrightarrow>
     i \<le> length s \<and> starts_with (drop i s) n \<and> (\<forall>j < i. \<not> starts_with (drop j s) n)"
proof (induction s arbitrary: i)
  case Nil
  then show ?case by (cases n) auto
next
  case (Cons c s)
  show ?case
  proof (cases "starts_with (c # s) n")
    case True
    then show ?thesis by (cases i) (auto intro!: exI [of _ 0])
  next
    case False
    show ?thesis
    proof (cases i)
      case (Suc k)
      have "(\<forall>j < Suc k. \<not> starts_with (drop j (c # s)) n) \<longleftrightarrow> (\<forall>j < k. \<not> starts_with (drop j s) n)"
        using False by (auto simp: less_Suc_eq_0_disj)
      with Suc False Cons.IH [of k] show ?thesis by auto
    qed (use False in simp)
  qed
qed

lemma is_char_boundary_ascii: "is_ascii s \<Longrightarrow> i \<le> length s \<Longrightarrow> is_char_boundary s i"
  unfolding is_char_boundary_def is_ascii_def is_ascii_byte_def list_all_length
  by (metis le_neq_implies_less not_le)

lemma slice_ascii [panic_simps]:
  "is_ascii s \<Longrightarrow> a \<le> b \<Longrightarrow> b \<le> length s \<Longrightarrow> slice s a b = Ret (take (b - a) (drop a s))"
  by (simp add: slice_def is_char_boundary_ascii)

lemma to_ascii_lowercase_length [simp]: "length (to_ascii_lowercase s) = length s"
  by (simp add: to_ascii_lowercase_def)

lemma to_ascii_lowercase_byte_idem [simp]:
  "to_ascii_lowercase_byte (to_ascii_lowercase_byte c) = to_ascii_lowercase_byte c"
proof (cases "65 \<le> (of_char c :: nat) \<and> (of_char c :: nat) \<le> 90")
  case True
  then have "(of_char (char_of ((of_char c :: nat) + 32)) :: nat) = of_char c + 32"
    by (simp add: of_char_of)
  with True show ?thesis by (simp add: to_ascii_lowercase_byte_def)
qed (auto simp: to_ascii_lowercase_byte_def)

lemma to_ascii_lowercase_idem [simp]: "to_ascii_lowercase (to_ascii_lowercase s) = to_ascii_lowercase s"
  by (simp add: to_ascii_lowercase_def)

lemma to_ascii_lowercase_append [simp]:
  "to_ascii_lowercase (s @ t) = to_ascii_lowercase s @ to_ascii_lowercase t"
  by (simp add: to_ascii_lowercase_def)

lemma to_ascii_lowercase_take: "to_ascii_lowercase (take n s) = take n (to_ascii_lowercase s)"
  by (simp add: to_ascii_lowercase_def take_map)

lemma to_ascii_lowercase_drop: "to_ascii_lowercase (drop n s) = drop n (to_ascii_lowercase s)"
  by (simp add: to_ascii_lowercase_def drop_map)

lemma eq_ignore_ascii_case_refl [simp]: "eq_ignore_ascii_case s s"
  by (simp add: eq_ignore_ascii_case_def)

lemma eq_ignore_ascii_case_sym: "eq_ignore_ascii_case a b \<longleftrightarrow> eq_ignore_ascii_case b a"
  by (auto simp: eq_ignore_ascii_case_def)

lemma eq_ignore_ascii_case_trans:
  "eq_ignore_ascii_case a b \<Longrightarrow> eq_ignore_ascii_case b c \<Longrightarrow> eq_ignore_ascii_case a c"
  by (simp add: eq_ignore_ascii_case_def)

section \<open>Network addresses\<close>

text \<open>\<open>std::net::IpAddr\<close> and \<open>SocketAddr\<close>.\<close>
datatype ip_addr = V4 "32 word" | V6 "128 word"

record socket_addr =
  sa_ip :: ip_addr
  sa_port :: u16

section \<open>Lists\<close>

lemma list_update_nth: "j < length xs \<Longrightarrow> xs[k := v] ! j = (if k = j then v else xs ! j)"
  by (cases "k = j") auto

lemma sum_list_update_int:
  fixes xs :: "int list"
  assumes "i < length xs"
  shows "sum_list (xs[i := v]) = sum_list xs - xs ! i + v"
  using assms by (induction xs arbitrary: i) (auto split: nat.splits)

lemma sum_list_pointwise_eq:
  fixes xs ys :: "int list"
  assumes "length xs = length ys" "\<And>i. i < length xs \<Longrightarrow> xs ! i \<le> ys ! i" "sum_list xs = sum_list ys"
  shows "xs = ys"
  using assms
proof (induction xs ys rule: list_induct2)
  case (Cons x xs y ys)
  have le: "x \<le> y" "\<And>i. i < length xs \<Longrightarrow> xs ! i \<le> ys ! i"
    using Cons.prems(1) [of 0] Cons.prems(1) [of "Suc i" for i] by auto
  then have "sum_list xs \<le> sum_list ys"
    using Cons.hyps by (metis (no_types, lifting) sum_list_mono2)
  with le Cons.prems(2) have "x = y" "sum_list xs = sum_list ys"
    by auto
  with Cons.IH le show ?case by auto
qed simp

end
