(* ===== verification/Balancer.thy ===== *)
theory Balancer
  imports Orion_Prelude
begin

text \<open>
  The \<open>Balancer\<close> trait (\<open>orion-lib/src/clusters/balancers/mod.rs\<close>) and the smooth weighted
  round robin balancer (\<open>wrr.rs\<close>).

  A balancer is a state with \<open>next_item\<close>, which returns the item chosen and the next state,
  and \<open>from_iter\<close> (the \<open>FromIterator<Arc<E>>\<close> bound the clients use).  What the clients rely
  on is the locale \<open>balancer_laws\<close>: an item returned is one the balancer was built from,
  and choosing does not change the set of candidates.  \<open>ready_balancer_laws\<close> adds that
  a balancer built from at least one item never returns \<open>None\<close>.
\<close>

section \<open>The trait\<close>

text \<open>\<open>k\<close> successive calls of \<open>next_item\<close> with the same hash.\<close>
primrec next_items :: "(u64 option \<Rightarrow> 'b \<Rightarrow> 'e option \<times> 'b) \<Rightarrow> u64 option \<Rightarrow> nat \<Rightarrow> 'b \<Rightarrow> 'e option list \<times> 'b" where
  "next_items next h 0 b = ([], b)"
| "next_items next h (Suc k) b =
     (let (rs, b') = next_items next h k b; (r, b'') = next h b' in (rs @ [r], b''))"

locale balancer_laws =
  fixes from_iter :: "'e list \<Rightarrow> 'b"
    and next_item :: "u64 option \<Rightarrow> 'b \<Rightarrow> 'e option \<times> 'b"
    and members :: "'b \<Rightarrow> 'e set"
  assumes members_from_iter: "members (from_iter es) \<subseteq> set es"
    and next_item_member: "next_item h b = (Some e, b') \<Longrightarrow> e \<in> members b"
    and next_item_keeps: "next_item h b = (r, b') \<Longrightarrow> members b' = members b"
begin

lemma next_item_keeps_snd [simp]: "members (snd (next_item h b)) = members b"
  by (rule next_item_keeps [OF prod.collapse [symmetric]])

lemma next_items_keeps_snd [simp]: "members (snd (next_items next_item h k b)) = members b"
  by (induction k) (simp_all add: split_def Let_def)

lemma next_items_keeps: "next_items next_item h k b = (rs, b') \<Longrightarrow> members b' = members b"
  using next_items_keeps_snd [of h k b] by simp

lemma next_items_member:
  "next_items next_item h k (from_iter es) = (rs, b') \<Longrightarrow> Some e \<in> set rs \<Longrightarrow> e \<in> set es"
proof (induction k arbitrary: rs b')
  case (Suc k)
  obtain rs0 b0 where run: "next_items next_item h k (from_iter es) = (rs0, b0)"
    by fastforce
  obtain r b1 where step: "next_item h b0 = (r, b1)"
    by fastforce
  with Suc.prems run have "Some e \<in> set rs0 \<or> r = Some e"
    by auto
  then show ?case
    using Suc.IH [OF run] next_item_member step next_items_keeps [OF run] members_from_iter by blast
qed simp

end

locale ready_balancer_laws = balancer_laws +
  assumes ready: "members b \<noteq> {} \<Longrightarrow> fst (next_item h b) \<noteq> None"
    and from_iter_ready: "es \<noteq> [] \<Longrightarrow> members (from_iter es) \<noteq> {}"
begin

lemma next_items_ready:
  assumes "es \<noteq> []"
  shows "None \<notin> set (fst (next_items next_item h k (from_iter es)))"
proof (induction k)
  case (Suc k)
  obtain rs b where run: "next_items next_item h k (from_iter es) = (rs, b)"
    by fastforce
  have "fst (next_item h b) \<noteq> None"
    using ready next_items_keeps [OF run] from_iter_ready [OF assms] by auto
  with Suc run show ?case by (auto simp: split_def)
qed simp

end

section \<open>Smooth weighted round robin\<close>

record 'e wrr_lb_item =
  wrr_weight :: u32
  wrr_current_weight :: i32
  wrr_item :: 'e

definition wrr_lb_item_new :: "u32 \<Rightarrow> 'e \<Rightarrow> 'e wrr_lb_item" where
  "wrr_lb_item_new weight item = \<lparr>wrr_weight = weight, wrr_current_weight = 0, wrr_item = item\<rparr>"

definition adjust_current_weight :: "i32 \<Rightarrow> 'e wrr_lb_item \<Rightarrow> 'e wrr_lb_item" where
  "adjust_current_weight value it =
     it\<lparr>wrr_current_weight := saturating_add_i32 (wrr_current_weight it) value\<rparr>"

definition increase_curent_weight :: "'e wrr_lb_item \<Rightarrow> 'e wrr_lb_item" where
  "increase_curent_weight it = adjust_current_weight (i32_of_u32_or_max (wrr_weight it)) it"

record 'e wrr_balancer =
  wrr_items :: "'e wrr_lb_item list"

text \<open>\<open>take_while\<close> with the running total in the closure.\<close>
fun wrr_collect_checked :: "u32 \<Rightarrow> 'e wrr_lb_item list \<Rightarrow> 'e wrr_lb_item list" where
  "wrr_collect_checked tot [] = []"
| "wrr_collect_checked tot (it # items) =
     (case checked_add_u32 tot (wrr_weight it) of
        None \<Rightarrow> []
      | Some new_total \<Rightarrow> it # wrr_collect_checked new_total items)"

definition wrr_new :: "'e wrr_lb_item list \<Rightarrow> 'e wrr_balancer" where
  "wrr_new items = \<lparr>wrr_items = wrr_collect_checked 0 items\<rparr>"

definition wrr_from_iter :: "('e \<Rightarrow> u32) \<Rightarrow> 'e list \<Rightarrow> 'e wrr_balancer" where
  "wrr_from_iter weight es = wrr_new (map (\<lambda>e. wrr_lb_item_new (weight e) e) es)"

definition wrr_default :: "('e \<Rightarrow> u32) \<Rightarrow> 'e wrr_balancer" where
  "wrr_default weight = wrr_from_iter weight []"

definition wrr_next_item :: "u64 option \<Rightarrow> 'e wrr_balancer \<Rightarrow> 'e option \<times> 'e wrr_balancer" where
  "wrr_next_item hash b =
     (if length (wrr_items b) \<le> 1
      then (case wrr_items b of [] \<Rightarrow> None | it # _ \<Rightarrow> Some (wrr_item it), b)
      else let items = map increase_curent_weight (wrr_items b);
               tot = foldl saturating_add_i32 0 (map (\<lambda>it. i32_of_u32_or_max (wrr_weight it)) items);
               best_item = reduce_idx (\<lambda>it best. wrr_current_weight it > wrr_current_weight best) items
           in case best_item of
                None \<Rightarrow> (None, b\<lparr>wrr_items := items\<rparr>)
              | Some i \<Rightarrow> (Some (wrr_item (items ! i)),
                           b\<lparr>wrr_items := items[i := adjust_current_weight (- tot) (items ! i)]\<rparr>))"

definition wrr_members :: "'e wrr_balancer \<Rightarrow> 'e set" where
  "wrr_members b = wrr_item ` set (wrr_items b)"

subsection \<open>Ghost state of the fairness argument\<close>

definition wrr_total :: "'e wrr_lb_item list \<Rightarrow> int" where
  "wrr_total items = sum_list (map (\<lambda>it. uint (wrr_weight it)) items)"

abbreviation cws :: "'e wrr_lb_item list \<Rightarrow> int list" where
  "cws items \<equiv> map wrr_current_weight items"

abbreviation wts :: "'e wrr_lb_item list \<Rightarrow> int list" where
  "wts items \<equiv> map (\<lambda>it. uint (wrr_weight it)) items"

text \<open>The invariant of the algorithm after \<open>k\<close> calls: \<open>c ! j\<close> counts the choices of item
  \<open>j\<close>, and every current weight is what the weights and the choices made of it.\<close>
definition wrr_trace :: "int \<Rightarrow> int list \<Rightarrow> 'e wrr_lb_item list \<Rightarrow> bool" where
  "wrr_trace k c items \<longleftrightarrow> length c = length items \<and> sum_list c = k \<and>
     (\<forall>j < length items. cws items ! j = k * wts items ! j - wrr_total items * c ! j
        \<and> - wrr_total items < cws items ! j)"

subsection \<open>The trait's laws\<close>

lemma adjust_current_weight_simps [simp]:
  "wrr_item (adjust_current_weight v it) = wrr_item it"
  "wrr_weight (adjust_current_weight v it) = wrr_weight it"
  by (simp_all add: adjust_current_weight_def)

lemma increase_curent_weight_simps [simp]:
  "wrr_item (increase_curent_weight it) = wrr_item it"
  "wrr_weight (increase_curent_weight it) = wrr_weight it"
  by (simp_all add: increase_curent_weight_def)

lemma set_wrr_collect_checked: "set (wrr_collect_checked t items) \<subseteq> set items"
  by (induction items arbitrary: t) (auto split: option.splits)

lemma wrr_next_item_items:
  assumes "wrr_next_item h b = (r, b')"
  shows "map wrr_item (wrr_items b') = map wrr_item (wrr_items b)"
    and "map wrr_weight (wrr_items b') = map wrr_weight (wrr_items b)"
  using assms
  by (auto simp: wrr_next_item_def Let_def map_update o_def list_update_id split: if_splits option.splits
      intro!: nth_equalityI dest!: reduce_idx_first_max(1))
     (metis length_map list_update_id nth_map)+

interpretation wrr: ready_balancer_laws "wrr_from_iter weight" wrr_next_item wrr_members
  for weight :: "'e \<Rightarrow> u32"
proof unfold_locales
  fix es :: "'e list" and h and b b' :: "'e wrr_balancer" and e r
  show "wrr_members (wrr_from_iter weight es) \<subseteq> set es"
    using set_wrr_collect_checked [of 0 "map (\<lambda>e. wrr_lb_item_new (weight e) e) es"]
    by (auto simp: wrr_members_def wrr_from_iter_def wrr_new_def wrr_lb_item_new_def)
  show "e \<in> wrr_members b" if "wrr_next_item h b = (Some e, b')"
    using that
    by (auto simp: wrr_next_item_def wrr_members_def Let_def split: if_splits list.splits option.splits
        dest!: reduce_idx_first_max(1))
  show "wrr_members b' = wrr_members b" if "wrr_next_item h b = (r, b')"
    using wrr_next_item_items(1) [OF that] by (metis list.set_map wrr_members_def)
  show "fst (wrr_next_item h b) \<noteq> None" if "wrr_members b \<noteq> {}"
    using that by (auto simp: wrr_members_def wrr_next_item_def Let_def split: list.splits option.splits)
  show "wrr_members (wrr_from_iter weight es) \<noteq> {}" if "es \<noteq> []"
    using that
    by (cases es) (auto simp: wrr_members_def wrr_from_iter_def wrr_new_def wrr_lb_item_new_def
        checked_add_u32_def split: option.splits)
qed

subsection \<open>Fairness\<close>

lemma sum_list_le_nth:
  fixes xs :: "int list"
  assumes "j < length xs" "\<forall>x \<in> set xs. l \<le> x"
  shows "xs ! j + (int (length xs) - 1) * l \<le> sum_list xs"
  using assms
proof (induction xs arbitrary: j)
  case (Cons x xs)
  have rest: "int (length xs) * l \<le> sum_list xs"
    using Cons.prems(2) by (induction xs) (auto simp: algebra_simps)
  show ?case
  proof (cases j)
    case 0
    with rest show ?thesis by (simp add: algebra_simps)
  next
    case (Suc i)
    with Cons.IH [of i] Cons.prems show ?thesis by (simp add: algebra_simps)
  qed
qed simp

lemma foldl_saturating_add_i32:
  assumes "\<forall>x \<in> set xs. 0 \<le> x" "0 \<le> a" "a + sum_list xs \<le> i32_max"
  shows "foldl saturating_add_i32 a xs = a + sum_list xs"
  using assms
proof (induction xs arbitrary: a)
  case (Cons x xs)
  have "0 \<le> sum_list xs"
    using Cons.prems(1) by (auto intro: sum_list_nonneg)
  with Cons.prems have "saturating_add_i32 a x = a + x"
    by (auto simp: saturating_add_i32_def)
  with Cons show ?case by (simp add: algebra_simps)
qed simp

lemma sum_list_map2_lin:
  fixes ws xs :: "int list"
  assumes "length ws = length xs"
  shows "sum_list (map2 (\<lambda>w x. a * w - b * x) ws xs) = a * sum_list ws - b * sum_list xs"
  using assms by (induction ws xs rule: list_induct2) (auto simp: algebra_simps)

lemma wrr_trace_sum:
  assumes "wrr_trace k c items"
  shows "sum_list (cws items) = 0"
proof -
  have "cws items = map2 (\<lambda>w x. k * w - wrr_total items * x) (wts items) c"
    using assms by (auto simp: wrr_trace_def intro!: nth_equalityI)
  then have "sum_list (cws items) = k * sum_list (wts items) - wrr_total items * sum_list c"
    using assms by (simp only: sum_list_map2_lin wrr_trace_def length_map)
  then show ?thesis
    using assms by (simp add: wrr_trace_def wrr_total_def)
qed

lemma wts_le_total: "it \<in> set items \<Longrightarrow> uint (wrr_weight it) \<le> wrr_total items"
  unfolding wrr_total_def by (rule member_le_sum_list) auto

text \<open>Under the bound nothing saturates: a round adds every weight to its current weight.\<close>
lemma increase_exact:
  assumes tr: "wrr_trace k c items" and bnd: "int (length items) * wrr_total items \<le> i32_max"
    and j: "j < length items"
  shows "wrr_current_weight (increase_curent_weight (items ! j)) = cws items ! j + wts items ! j"
    and "cws items ! j + wts items ! j \<le> i32_max"
proof -
  let ?W = "wrr_total items" and ?n = "int (length items)"
  have w: "0 \<le> wts items ! j" "wts items ! j \<le> ?W"
    using j wts_le_total [of "items ! j" items] by auto
  have n: "1 \<le> ?n"
    using j by linarith
  have "\<forall>x \<in> set (cws items). - (?W - 1) \<le> x"
    using tr by (fastforce simp: wrr_trace_def in_set_conv_nth)
  from sum_list_le_nth [OF _ this] j have "cws items ! j \<le> (?n - 1) * (?W - 1)"
    using wrr_trace_sum [OF tr] by (simp add: algebra_simps)
  also have "\<dots> \<le> (?n - 1) * ?W"
    using n by (intro mult_left_mono) auto
  finally have up: "cws items ! j + wts items ! j \<le> ?n * ?W"
    using w by (simp add: algebra_simps)
  have "1 * ?W \<le> ?n * ?W"
    using n w by (intro mult_right_mono) auto
  with bnd have W: "?W \<le> i32_max"
    by linarith
  from up bnd show "cws items ! j + wts items ! j \<le> i32_max"
    by linarith
  moreover have "- ?W < cws items ! j"
    using tr j unfolding wrr_trace_def by blast
  moreover have "i32_min \<le> cws items ! j + wts items ! j"
    using calculation(2) w(1) W by linarith
  ultimately show "wrr_current_weight (increase_curent_weight (items ! j)) = cws items ! j + wts items ! j"
    using j w W by (simp add: increase_curent_weight_def adjust_current_weight_def saturating_add_i32_def i32_of_u32_or_max_def)
qed

lemma wrr_next_item_step:
  assumes tr: "wrr_trace k c items" and bnd: "int (length items) * wrr_total items \<le> i32_max"
    and n: "2 \<le> length items" and W: "0 < wrr_total items"
  obtains i items' where "i < length items"
    "wrr_next_item h \<lparr>wrr_items = items\<rparr> = (Some (wrr_item (items ! i)), \<lparr>wrr_items = items'\<rparr>)"
    "wrr_trace (k + 1) (c[i := c ! i + 1]) items'"
    "map wrr_item items' = map wrr_item items" "map wrr_weight items' = map wrr_weight items"
proof -
  let ?W = "wrr_total items" and ?inc = "map increase_curent_weight items"
  have cw: "cws ?inc ! j = cws items ! j + wts items ! j" if "j < length items" for j
    using increase_exact(1) [OF tr bnd that] that by simp
  have "1 * ?W \<le> int (length items) * ?W"
    using n W by (intro mult_right_mono) auto
  with bnd have Wmax: "?W \<le> i32_max"
    by linarith
  have conv: "i32_of_u32_or_max (wrr_weight it) = uint (wrr_weight it)" if "it \<in> set items" for it
    using wts_le_total [OF that] Wmax by (simp add: i32_of_u32_or_max_def)
  have total: "foldl saturating_add_i32 0 (map (\<lambda>it. i32_of_u32_or_max (wrr_weight it)) ?inc) = ?W"
    using foldl_saturating_add_i32 [of "wts items" 0] Wmax conv
    by (simp add: wrr_total_def o_def cong: map_cong)
  obtain i where i: "reduce_idx (\<lambda>it best. wrr_current_weight it > wrr_current_weight best) ?inc = Some i"
    using n by (cases "reduce_idx (\<lambda>it best. wrr_current_weight it > wrr_current_weight best) ?inc") auto
  note best = reduce_idx_first_max [OF i]
  have il: "i < length items"
    using best(1) by simp
  have sum: "sum_list (cws ?inc) = ?W"
  proof -
    have "cws ?inc = map2 (\<lambda>w x. 1 * w - (-1) * x) (cws items) (wts items)"
      using cw by (intro nth_equalityI) auto
    then show ?thesis
      using wrr_trace_sum [OF tr] by (simp only: sum_list_map2_lin length_map) (simp add: wrr_total_def)
  qed
  have pos: "0 < cws ?inc ! i"
  proof (rule ccontr)
    assume "\<not> 0 < cws ?inc ! i"
    with best(2) il have "\<forall>x \<in> set (cws ?inc). x \<le> 0"
      by fastforce
    then have "sum_list (cws ?inc) \<le> 0"
      by (intro sum_list_nonpos) auto
    with sum W show False by simp
  qed
  let ?items' = "?inc[i := adjust_current_weight (- ?W) (?inc ! i)]"
  have cwi: "wrr_current_weight (adjust_current_weight (- ?W) (?inc ! i)) = cws ?inc ! i - ?W"
    using pos il Wmax W cw [OF il] increase_exact(2) [OF tr bnd il]
    by (simp add: adjust_current_weight_def saturating_add_i32_def)
  have nxt: "wrr_next_item h \<lparr>wrr_items = items\<rparr> = (Some (wrr_item (items ! i)), \<lparr>wrr_items = ?items'\<rparr>)"
    using n il by (simp add: wrr_next_item_def Let_def i total [simplified])
  note keep = wrr_next_item_items [OF nxt, simplified]
  have W': "wrr_total ?items' = ?W" "wts ?items' = wts items"
  proof -
    have "map uint (map wrr_weight ?items') = map uint (map wrr_weight items)"
      using keep(2) by simp
    then show "wts ?items' = wts items" by (simp add: o_def)
    then show "wrr_total ?items' = ?W" by (simp add: wrr_total_def)
  qed
  have "wrr_trace (k + 1) (c[i := c ! i + 1]) ?items'"
    unfolding wrr_trace_def W'
  proof (intro conjI allI impI)
    fix j assume j: "j < length ?items'"
    then have jl: "j < length items" by simp
    have old: "cws items ! j = k * wts items ! j - ?W * c ! j" "- ?W < cws items ! j"
      using tr jl unfolding wrr_trace_def by blast+
    have len: "length c = length items"
      using tr by (simp add: wrr_trace_def)
    show "cws ?items' ! j = (k + 1) * wts items ! j - ?W * c[i := c ! i + 1] ! j"
      using jl len cwi cw [OF jl] old(1) by (cases "j = i") (simp_all add: algebra_simps)
    have upd: "cws ?items' ! j = (if j = i then cws ?inc ! i - ?W else cws items ! j + wts items ! j)"
      using jl il cwi cw [OF jl] by auto
    have "0 \<le> wts items ! j"
      using jl by simp
    with upd pos old(2) show "- ?W < cws ?items' ! j"
      by presburger
  qed (use tr il in \<open>auto simp: wrr_trace_def sum_list_update_int\<close>)
  with that il nxt keep show ?thesis by blast
qed


lemma sum_bump:
  fixes c :: "int list"
  assumes "i < n" "n = length c"
  shows "(\<Sum>j<n. if P j then c[i := c ! i + 1] ! j else 0) = (\<Sum>j<n. if P j then c ! j else 0) + (if P i then 1 else 0)"
proof -
  have "(if P j then c[i := c ! i + 1] ! j else 0) = (if P j then c ! j else 0) + (if j = i then (if P i then 1 else 0) else 0)"
    if "j \<in> {..<n}" for j
    using that assms by (auto simp: nth_list_update)
  then have "(\<Sum>j<n. if P j then c[i := c ! i + 1] ! j else 0)
      = (\<Sum>j<n. (if P j then c ! j else 0) + (if j = i then (if P i then 1 else 0) else 0))"
    by (rule sum.cong [OF refl])
  also have "\<dots> = (\<Sum>j<n. if P j then c ! j else 0) + (if P i then 1 else 0)"
    using assms by (simp add: sum.distrib)
  finally show ?thesis .
qed

lemma wrr_run:
  assumes fresh: "\<forall>it \<in> set items. wrr_current_weight it = 0"
    and bnd: "int (length items) * wrr_total items \<le> i32_max"
    and n: "2 \<le> length items" and W: "0 < wrr_total items"
  shows "\<exists>c items'. snd (next_items wrr_next_item h k \<lparr>wrr_items = items\<rparr>) = \<lparr>wrr_items = items'\<rparr>
    \<and> wrr_trace (int k) c items' \<and> map wrr_item items' = map wrr_item items
    \<and> map wrr_weight items' = map wrr_weight items
    \<and> (\<forall>e. int (count_list (fst (next_items wrr_next_item h k \<lparr>wrr_items = items\<rparr>)) (Some e))
          = (\<Sum>j<length items. if wrr_item (items ! j) = e then c ! j else 0))"
proof (induction k)
  case 0
  have "wrr_trace 0 (replicate (length items) 0) items"
    using fresh W by (simp add: wrr_trace_def sum_list_replicate)
  then show ?case
    by (intro exI [of _ "replicate (length items) 0"] exI [of _ items]) (auto intro!: sum.neutral)
next
  case (Suc k)
  then obtain c items' where st: "snd (next_items wrr_next_item h k \<lparr>wrr_items = items\<rparr>) = \<lparr>wrr_items = items'\<rparr>"
    and tr: "wrr_trace (int k) c items'" and it: "map wrr_item items' = map wrr_item items"
    and wt: "map wrr_weight items' = map wrr_weight items"
    and cnt: "\<And>e. int (count_list (fst (next_items wrr_next_item h k \<lparr>wrr_items = items\<rparr>)) (Some e))
          = (\<Sum>j<length items. if wrr_item (items ! j) = e then c ! j else 0)"
    by blast
  have len: "length items' = length items" "length c = length items"
    using map_eq_imp_length_eq [OF it] tr by (auto simp: wrr_trace_def)
  have "map uint (map wrr_weight items') = map uint (map wrr_weight items)"
    using wt by simp
  then have tot: "wrr_total items' = wrr_total items"
    by (simp add: wrr_total_def o_def)
  obtain i items'' where i: "i < length items'"
    and nxt: "wrr_next_item h \<lparr>wrr_items = items'\<rparr> = (Some (wrr_item (items' ! i)), \<lparr>wrr_items = items''\<rparr>)"
    and tr': "wrr_trace (int k + 1) (c[i := c ! i + 1]) items''"
    and it': "map wrr_item items'' = map wrr_item items'" and wt': "map wrr_weight items'' = map wrr_weight items'"
    using wrr_next_item_step [OF tr] bnd n W tot len by metis
  have same: "wrr_item (items' ! i) = wrr_item (items ! i)"
    using i len it by (metis nth_map)
  have run: "next_items wrr_next_item h (Suc k) \<lparr>wrr_items = items\<rparr>
      = (fst (next_items wrr_next_item h k \<lparr>wrr_items = items\<rparr>) @ [Some (wrr_item (items ! i))], \<lparr>wrr_items = items''\<rparr>)"
    using st nxt same by (simp add: split_def)
  have "int (count_list (fst (next_items wrr_next_item h (Suc k) \<lparr>wrr_items = items\<rparr>)) (Some e))
      = (\<Sum>j<length items. if wrr_item (items ! j) = e then c[i := c ! i + 1] ! j else 0)" for e
    using i len cnt [of e] by (simp only: run fst_conv) (simp add: sum_bump)
  moreover have "wrr_trace (int (Suc k)) (c[i := c ! i + 1]) items''"
    using tr' by (simp add: add.commute)
  ultimately show ?case
    using it it' wt wt' by (intro exI [of _ "c[i := c ! i + 1]"] exI [of _ items'']) (simp only: run snd_conv fst_conv simp_thms)
qed

lemma wrr_items_eqI:
  assumes "map wrr_item xs = map wrr_item ys" "map wrr_weight xs = map wrr_weight ys" "cws xs = cws ys"
  shows "(xs :: 'e wrr_lb_item list) = ys"
proof (rule nth_equalityI)
  show len: "length xs = length ys"
    using map_eq_imp_length_eq [OF assms(1)] .
  fix i assume i: "i < length xs"
  with len have "i < length ys"
    by simp
  then have "wrr_item (xs ! i) = wrr_item (ys ! i)" "wrr_weight (xs ! i) = wrr_weight (ys ! i)"
    "wrr_current_weight (xs ! i) = wrr_current_weight (ys ! i)"
    using assms i by (metis nth_map)+
  then show "xs ! i = ys ! i"
    by (intro wrr_lb_item.equality) auto
qed

text \<open>A whole period: after as many calls as the total weight, every item has been chosen
  exactly its weight's number of times and the balancer is back in its first state.\<close>
lemma wrr_period:
  assumes fresh: "\<forall>it \<in> set items. wrr_current_weight it = 0"
    and bnd: "int (length items) * wrr_total items \<le> i32_max"
    and n: "2 \<le> length items" and W: "0 < wrr_total items"
    and run_def: "run = next_items wrr_next_item h (nat (wrr_total items)) \<lparr>wrr_items = items\<rparr>"
  shows "snd run = \<lparr>wrr_items = items\<rparr>"
    and "int (count_list (fst run) (Some e)) = (\<Sum>j<length items. if wrr_item (items ! j) = e then wts items ! j else 0)"
proof -
  let ?W = "wrr_total items"
  have natW: "int (nat ?W) = ?W"
    using W by simp
  obtain c items' where st: "snd run = \<lparr>wrr_items = items'\<rparr>"
    and tr: "wrr_trace ?W c items'" and it: "map wrr_item items' = map wrr_item items"
    and wt: "map wrr_weight items' = map wrr_weight items"
    and cnt: "int (count_list (fst run) (Some e)) = (\<Sum>j<length items. if wrr_item (items ! j) = e then c ! j else 0)"
    using wrr_run [OF fresh bnd n W, of h "nat ?W"] unfolding natW run_def by blast
  have "map uint (map wrr_weight items') = map uint (map wrr_weight items)"
    using wt by simp
  then have wts: "wts items' = wts items"
    by (simp add: o_def)
  then have tot: "wrr_total items' = ?W"
    by (simp add: wrr_total_def)
  have len: "length items' = length items" "length c = length items"
    using map_eq_imp_length_eq [OF it] tr by (auto simp: wrr_trace_def)
  have cw: "cws items' ! j = ?W * wts items ! j - ?W * c ! j" "- ?W < cws items' ! j" if "j < length items" for j
    using tr that unfolding wrr_trace_def tot wts len by blast+
  have "c ! j \<le> wts items ! j" if "j < length c" for j
  proof -
    have "?W * (c ! j - wts items ! j) < ?W * 1"
      using cw [of j] that len by (simp add: algebra_simps)
    then show ?thesis
      using W by (simp only: mult_less_cancel_left_pos)
  qed
  moreover have "sum_list c = sum_list (wts items)"
    using tr by (simp add: wrr_trace_def wrr_total_def)
  ultimately have c: "c = wts items"
    using len by (intro sum_list_pointwise_eq) auto
  have "cws items' = cws items"
    using cw(1) c len fresh by (intro nth_equalityI) auto
  then show "snd run = \<lparr>wrr_items = items\<rparr>"
    using wrr_items_eqI [OF it wt] st by simp
  show "int (count_list (fst run) (Some e)) = (\<Sum>j<length items. if wrr_item (items ! j) = e then wts items ! j else 0)"
    using cnt unfolding c .
qed


lemma wrr_collect_checked_all:
  assumes "unat t + sum_list (map (\<lambda>it. unat (wrr_weight it)) items) \<le> u32_max"
  shows "wrr_collect_checked t items = items"
  using assms
proof (induction items arbitrary: t)
  case (Cons it items)
  have "unat (t + wrr_weight it) = unat t + unat (wrr_weight it)"
    using Cons.prems by (simp add: unat_word_ariths)
  with Cons show ?case by (simp add: checked_add_u32_def)
qed simp

lemma wrr_from_iter_items:
  assumes "sum_list (map (\<lambda>e. unat (weight e)) es) \<le> u32_max"
  shows "wrr_from_iter weight es = \<lparr>wrr_items = map (\<lambda>e. wrr_lb_item_new (weight e) e) es\<rparr>"
  using assms wrr_collect_checked_all [of 0 "map (\<lambda>e. wrr_lb_item_new (weight e) e) es"]
  by (simp add: wrr_from_iter_def wrr_new_def wrr_lb_item_new_def o_def)

lemma count_list_replicate [simp]: "count_list (replicate k x) y = (if x = y then k else 0)"
  by (induction k) auto

lemma next_items_single:
  "next_items wrr_next_item h k \<lparr>wrr_items = [it]\<rparr> = (replicate k (Some (wrr_item it)), \<lparr>wrr_items = [it]\<rparr>)"
  by (induction k) (simp_all add: wrr_next_item_def replicate_append_same)

lemma sum_if_count:
  "(\<Sum>j<length es. if es ! j = e then int (f (es ! j)) else 0) = int (count_list es e * f e)"
proof (induction es)
  case (Cons x es)
  then show ?case by (simp del: sum.lessThan_Suc add: sum.lessThan_Suc_shift algebra_simps cong: if_cong)
qed simp

text \<open>C1: smooth weighted round robin is exactly fair.  A balancer built from endpoints whose
  weights do not come near the \<open>i32\<close> range serves, in every period of as many calls as the
  total weight, each endpoint exactly as often as its weight says (times its occurrences),
  and the period ends in the state it began in.\<close>
theorem wrr_fair:
  assumes bnd: "length es * sum_list (map (\<lambda>e. unat (weight e)) es) \<le> nat i32_max"
  shows "snd (next_items wrr_next_item h (sum_list (map (\<lambda>e. unat (weight e)) es)) (wrr_from_iter weight es))
        = wrr_from_iter weight es
    \<and> (\<forall>e. count_list (fst (next_items wrr_next_item h (sum_list (map (\<lambda>e. unat (weight e)) es)) (wrr_from_iter weight es))) (Some e)
          = count_list es e * unat (weight e))"
proof -
  let ?W = "sum_list (map (\<lambda>e. unat (weight e)) es)" and ?its = "map (\<lambda>e. wrr_lb_item_new (weight e) e) es"
  have "es = [] \<or> (\<exists>e. es = [e]) \<or> 2 \<le> length es"
    by (cases es rule: remdups_adj.cases) auto
  then consider (zero) "?W = 0" | (one) e where "es = [e]" | (many) "2 \<le> length es" "0 < ?W"
    by (metis gr0I list.map(1) sum_list.Nil)
  then show ?thesis
  proof cases
    case zero
    have "count_list es e * unat (weight e) = 0" for e
      using zero by (cases "e \<in> set es") (auto simp: sum_list_eq_0_iff)
    then show ?thesis
      by (simp only: zero next_items.simps fst_conv snd_conv count_list.simps simp_thms)
  next
    case one
    have "wrr_from_iter weight es = \<lparr>wrr_items = [wrr_lb_item_new (weight e) e]\<rparr>"
      using wrr_from_iter_items [of weight es] one by simp
    then show ?thesis
      using one by (simp add: next_items_single wrr_lb_item_new_def)
  next
    case many
    have tot: "wrr_total ?its = int ?W"
      by (simp add: wrr_total_def wrr_lb_item_new_def o_def, induction es) auto
    have "?W \<le> length es * ?W"
      using many by simp
    with bnd have "?W \<le> nat i32_max"
      by (meson le_trans)
    then have built: "wrr_from_iter weight es = \<lparr>wrr_items = ?its\<rparr>"
      by (intro wrr_from_iter_items) simp
    have le: "int (length ?its) * wrr_total ?its \<le> i32_max"
      using bnd unfolding tot by (simp flip: of_nat_mult)
    have "(\<Sum>j<length ?its. if wrr_item (?its ! j) = e then wts ?its ! j else 0)
        = (\<Sum>j<length es. if es ! j = e then int (unat (weight (es ! j))) else 0)" for e
      by (intro sum.cong) (auto simp: wrr_lb_item_new_def)
    moreover have "\<forall>it \<in> set ?its. wrr_current_weight it = 0"
      by (auto simp: wrr_lb_item_new_def)
    ultimately show ?thesis
      using wrr_period [OF _ le _ _ refl, of h] many sum_if_count [of es _ "\<lambda>e. unat (weight e)"]
      by (simp only: built tot nat_int length_map of_nat_0_less_iff of_nat_eq_iff simp_thms)
  qed
qed

theorem wrr_fair_witness:
  "snd (next_items wrr_next_item None 7 (wrr_from_iter (\<lambda>e. if e = ''a'' then 4 else if e = ''b'' then 2 else 1) [''a'', ''b'', ''c'']))
     = wrr_from_iter (\<lambda>e. if e = ''a'' then 4 else if e = ''b'' then 2 else 1) [''a'', ''b'', ''c'']
   \<and> count_list (fst (next_items wrr_next_item None 7 (wrr_from_iter (\<lambda>e. if e = ''a'' then 4 else if e = ''b'' then 2 else 1) [''a'', ''b'', ''c'']))) (Some ''a'') = 4"
  using wrr_fair [of "[''a'', ''b'', ''c'']" "\<lambda>e. if e = ''a'' then 4 else if e = ''b'' then 2 else 1" None]
  by simp

end
