(* ===== verification/Healthy_Balancer.thy ===== *)
theory Healthy_Balancer
  imports Balancer
begin

text \<open>
  Health status (\<open>orion-configuration/src/config/cluster.rs\<close>, \<open>orion-lib/src/clusters/health/mod.rs\<close>)
  and the balancer that offers only the healthy endpoints to an inner balancer
  (\<open>orion-lib/src/clusters/balancers/healthy.rs\<close>).

  The inner balancer is the type parameter \<open>B\<close> of the source: its \<open>FromIterator\<close>, \<open>Default\<close> and
  \<open>next_item\<close> are arguments of the definitions.  The lemmas about it are proved once in the locale
  \<open>balancer_laws\<close>; the properties instantiate them with the round robin balancer.
\<close>

section \<open>Health status\<close>

datatype health_status = Healthy | Unhealthy

datatype value_updated = Updated | NotUpdated

definition is_healthy :: "health_status \<Rightarrow> bool" where
  "is_healthy h \<longleftrightarrow> h = Healthy"

text \<open>\<open>EndpointHealth::update_health\<close> for \<open>HealthStatus\<close>: the new value and whether it changed.\<close>
definition status_update_health :: "health_status \<Rightarrow> health_status \<Rightarrow> health_status \<times> value_updated" where
  "status_update_health old new = (if old = new then (old, NotUpdated) else (new, Updated))"

section \<open>The healthy balancer\<close>

record 'e healthy_lb_item =
  hi_item :: 'e
  hi_health :: health_status

definition healthy_lb_item_new :: "health_status \<Rightarrow> 'e \<Rightarrow> 'e healthy_lb_item" where
  "healthy_lb_item_new health item = \<lparr>hi_item = item, hi_health = health\<rparr>"

record ('b, 'e) healthy_balancer =
  hb_items :: "'e healthy_lb_item list"
  hb_balancer :: 'b

definition healthy_candidates :: "'e healthy_lb_item list \<Rightarrow> 'e list" where
  "healthy_candidates items =
     List.map_filter (\<lambda>it. if is_healthy (hi_health it) then Some (hi_item it) else None) items"

definition healthy_reload :: "('e list \<Rightarrow> 'b) \<Rightarrow> ('b, 'e) healthy_balancer \<Rightarrow> ('b, 'e) healthy_balancer" where
  "healthy_reload from_iter hb = hb\<lparr>hb_balancer := from_iter (healthy_candidates (hb_items hb))\<rparr>"

definition healthy_new :: "('e list \<Rightarrow> 'b) \<Rightarrow> 'b \<Rightarrow> 'e healthy_lb_item list \<Rightarrow> ('b, 'e) healthy_balancer" where
  "healthy_new from_iter dflt items = healthy_reload from_iter \<lparr>hb_items = items, hb_balancer = dflt\<rparr>"

definition healthy_next_item ::
  "(u64 option \<Rightarrow> 'b \<Rightarrow> 'e option \<times> 'b) \<Rightarrow> u64 option \<Rightarrow> ('b, 'e) healthy_balancer
     \<Rightarrow> 'e option \<times> ('b, 'e) healthy_balancer" where
  "healthy_next_item next hash hb =
     (let (r, b) = next hash (hb_balancer hb) in (r, hb\<lparr>hb_balancer := b\<rparr>))"

text \<open>\<open>update_health\<close>: \<open>Err\<close> (the left injection) when no item equals the identifier; \<open>eq\<close> is the
  \<open>PartialEq\<close> of the endpoints.\<close>
definition healthy_update_health ::
  "('e list \<Rightarrow> 'b) \<Rightarrow> ('e \<Rightarrow> 'e \<Rightarrow> bool) \<Rightarrow> 'e \<Rightarrow> health_status \<Rightarrow> ('b, 'e) healthy_balancer
     \<Rightarrow> (unit + value_updated) \<times> ('b, 'e) healthy_balancer" where
  "healthy_update_health from_iter eq ident health hb =
     (case find_index (\<lambda>f. eq ident (hi_item f)) (hb_items hb) of
        None \<Rightarrow> (Inl (), hb)
      | Some i \<Rightarrow>
          let (h, updated) = status_update_health (hi_health (hb_items hb ! i)) health;
              hb1 = hb\<lparr>hb_items := (hb_items hb)[i := (hb_items hb ! i)\<lparr>hi_health := h\<rparr>]\<rparr>;
              hb2 = (if updated = Updated then healthy_reload from_iter hb1 else hb1)
          in (Inr updated, hb2))"

definition healthy_extend ::
  "('e list \<Rightarrow> 'b) \<Rightarrow> ('e \<Rightarrow> health_status) \<Rightarrow> 'e list \<Rightarrow> ('b, 'e) healthy_balancer \<Rightarrow> ('b, 'e) healthy_balancer" where
  "healthy_extend from_iter health es hb =
     healthy_reload from_iter (hb\<lparr>hb_items := hb_items hb @ map (\<lambda>i. healthy_lb_item_new (health i) i) es\<rparr>)"

definition healthy_from_iter ::
  "('e list \<Rightarrow> 'b) \<Rightarrow> 'b \<Rightarrow> ('e \<Rightarrow> health_status) \<Rightarrow> 'e list \<Rightarrow> ('b, 'e) healthy_balancer" where
  "healthy_from_iter from_iter dflt health es =
     healthy_new from_iter dflt (map (\<lambda>i. healthy_lb_item_new (health i) i) es)"

text \<open>The operations of a healthy balancer, as the steps of its life.\<close>
inductive healthy_step ::
  "('e list \<Rightarrow> 'b) \<Rightarrow> ('e \<Rightarrow> 'e \<Rightarrow> bool) \<Rightarrow> (u64 option \<Rightarrow> 'b \<Rightarrow> 'e option \<times> 'b) \<Rightarrow> ('e \<Rightarrow> health_status)
     \<Rightarrow> ('b, 'e) healthy_balancer \<Rightarrow> ('b, 'e) healthy_balancer \<Rightarrow> bool"
  for from_iter eq nxt health where
  step_next: "healthy_step from_iter eq nxt health hb (snd (healthy_next_item nxt h hb))"
| step_update: "healthy_step from_iter eq nxt health hb (snd (healthy_update_health from_iter eq e s hb))"
| step_extend: "healthy_step from_iter eq nxt health hb (healthy_extend from_iter health es hb)"

text \<open>What the operations maintain: the inner balancer's candidates are healthy items.\<close>
definition healthy_inv :: "('b \<Rightarrow> 'e set) \<Rightarrow> ('b, 'e) healthy_balancer \<Rightarrow> bool" where
  "healthy_inv members hb \<longleftrightarrow> members (hb_balancer hb) \<subseteq> set (healthy_candidates (hb_items hb))"

lemma set_healthy_candidates:
  "set (healthy_candidates items) = {hi_item it | it. it \<in> set items \<and> hi_health it = Healthy}"
  by (force simp: healthy_candidates_def List.map_filter_def is_healthy_def)

lemma healthy_update_health_cases:
  assumes "healthy_update_health from_iter eq e s hb = (r, hb')"
  obtains (missing) "r = Inl ()" "hb' = hb" "\<forall>it \<in> set (hb_items hb). \<not> eq e (hi_item it)"
  | (same) i where "r = Inr NotUpdated" "hb' = hb" "i < length (hb_items hb)"
      "eq e (hi_item (hb_items hb ! i))" "hi_health (hb_items hb ! i) = s"
  | (changed) i where "r = Inr Updated" "i < length (hb_items hb)" "eq e (hi_item (hb_items hb ! i))"
      "hi_health (hb_items hb ! i) \<noteq> s"
      "hb' = healthy_reload from_iter (hb\<lparr>hb_items := (hb_items hb)[i := (hb_items hb ! i)\<lparr>hi_health := s\<rparr>]\<rparr>)"
proof (cases "find_index (\<lambda>f. eq e (hi_item f)) (hb_items hb)")
  case None
  with assms missing show ?thesis
    by (fastforce simp: healthy_update_health_def)
next
  case (Some i)
  note i = find_index_Some [OF Some]
  show ?thesis
  proof (cases "hi_health (hb_items hb ! i) = s")
    case True
    have upd: "hb\<lparr>hb_items := (hb_items hb)[i := (hb_items hb ! i)\<lparr>hi_health := s\<rparr>]\<rparr> = hb"
      unfolding True [symmetric] by simp
    have "r = Inr NotUpdated" "hb' = hb"
      using assms Some True by (simp_all add: healthy_update_health_def status_update_health_def upd)
    with i True same [of i] show ?thesis
      by blast
  next
    case False
    with assms Some i changed [of i] show ?thesis
      by (simp add: healthy_update_health_def status_update_health_def)
  qed
qed

context balancer_laws
begin

lemma healthy_reload_inv [inv_intros]: "healthy_inv members (healthy_reload from_iter hb)"
  using members_from_iter by (simp add: healthy_inv_def healthy_reload_def)

lemma healthy_new_inv [inv_intros]: "healthy_inv members (healthy_new from_iter dflt items)"
  by (simp add: healthy_new_def healthy_reload_inv)

lemma healthy_next_item_inv [inv_intros]:
  "healthy_inv members hb \<Longrightarrow> healthy_inv members (snd (healthy_next_item next_item h hb))"
  by (simp add: healthy_inv_def healthy_next_item_def split_def Let_def)

lemma healthy_update_health_inv [inv_intros]:
  assumes "healthy_inv members hb"
  shows "healthy_inv members (snd (healthy_update_health from_iter eq e s hb))"
proof -
  obtain r hb' where upd: "healthy_update_health from_iter eq e s hb = (r, hb')"
    by fastforce
  then show ?thesis
    by (cases rule: healthy_update_health_cases) (use upd assms in \<open>simp_all add: healthy_reload_inv\<close>)
qed

lemma healthy_extend_inv [inv_intros]: "healthy_inv members (healthy_extend from_iter health es hb)"
  by (simp add: healthy_extend_def healthy_reload_inv)

lemma healthy_step_inv:
  "healthy_step from_iter eq next_item health hb hb' \<Longrightarrow> healthy_inv members hb \<Longrightarrow> healthy_inv members hb'"
  by (induction rule: healthy_step.induct) (auto intro: inv_intros)

lemma healthy_reachable_inv:
  "(healthy_step from_iter eq next_item health)\<^sup>*\<^sup>* (healthy_new from_iter dflt items) hb \<Longrightarrow> healthy_inv members hb"
  by (induction rule: rtranclp_induct) (auto intro: healthy_new_inv healthy_step_inv)

lemma healthy_reachable_next:
  assumes "(healthy_step from_iter eq next_item health)\<^sup>*\<^sup>* (healthy_new from_iter dflt items) hb"
    and "healthy_next_item next_item h hb = (Some e, hb')"
  shows "\<exists>it \<in> set (hb_items hb). hi_item it = e \<and> hi_health it = Healthy"
proof -
  have "e \<in> members (hb_balancer hb)"
    using assms(2) next_item_member by (auto simp: healthy_next_item_def split: prod.splits)
  with healthy_reachable_inv [OF assms(1)] show ?thesis
    by (auto simp: healthy_inv_def set_healthy_candidates)
qed

end

text \<open>The converse direction needs a balancer that is ready whenever it has candidates:
  the inner balancer has one exactly when some item is healthy.\<close>
definition healthy_ready :: "('b \<Rightarrow> 'e set) \<Rightarrow> ('b, 'e) healthy_balancer \<Rightarrow> bool" where
  "healthy_ready members hb \<longleftrightarrow> (healthy_candidates (hb_items hb) \<noteq> [] \<longrightarrow> members (hb_balancer hb) \<noteq> {})"

context ready_balancer_laws
begin

lemma healthy_reload_ready: "healthy_ready members (healthy_reload from_iter hb)"
  using from_iter_ready by (simp add: healthy_ready_def healthy_reload_def)

lemma healthy_step_ready:
  "healthy_step from_iter eq next_item health hb hb' \<Longrightarrow> healthy_ready members hb \<Longrightarrow> healthy_ready members hb'"
proof (induction rule: healthy_step.induct)
  case (step_next hb h)
  then show ?case by (simp add: healthy_ready_def healthy_next_item_def split_def Let_def)
next
  case (step_update hb e s)
  obtain r hb' where upd: "healthy_update_health from_iter eq e s hb = (r, hb')"
    by fastforce
  then show ?case
    by (cases rule: healthy_update_health_cases) (use upd step_update in \<open>simp_all add: healthy_reload_ready\<close>)
qed (simp add: healthy_extend_def healthy_reload_ready)

lemma healthy_reachable_ready:
  assumes "(healthy_step from_iter eq next_item health)\<^sup>*\<^sup>* (healthy_new from_iter dflt items) hb"
    and "\<exists>it \<in> set (hb_items hb). hi_health it = Healthy"
  shows "fst (healthy_next_item next_item h hb) \<noteq> None"
proof -
  have "healthy_ready members hb"
    using assms(1)
    by (induction rule: rtranclp_induct) (auto simp: healthy_new_def healthy_reload_ready intro: healthy_step_ready)
  moreover have "set (healthy_candidates (hb_items hb)) \<noteq> {}"
    using assms(2) by (auto simp: set_healthy_candidates)
  ultimately show ?thesis
    using ready by (auto simp: healthy_ready_def healthy_next_item_def split_def Let_def)
qed

end

text \<open>C2: whatever sequence of choices, health updates and extensions a healthy round robin
  balancer has gone through, the endpoint it returns is one it holds as healthy, and it returns
  one whenever it holds a healthy endpoint.\<close>
theorem healthy_next_item_sound_and_live:
  assumes "(healthy_step (wrr_from_iter weight) eq wrr_next_item health)\<^sup>*\<^sup>*
             (healthy_new (wrr_from_iter weight) (wrr_default weight) items) hb"
  shows "(\<forall>e hb'. healthy_next_item wrr_next_item h hb = (Some e, hb') \<longrightarrow>
            (\<exists>it \<in> set (hb_items hb). hi_item it = e \<and> hi_health it = Healthy))
       \<and> ((\<exists>it \<in> set (hb_items hb). hi_health it = Healthy) \<longrightarrow> fst (healthy_next_item wrr_next_item h hb) \<noteq> None)"
  using wrr.healthy_reachable_next [OF assms] wrr.healthy_reachable_ready [OF assms] by blast

theorem healthy_next_item_sound_and_live_witness:
  "fst (healthy_next_item wrr_next_item None
      (snd (healthy_update_health (wrr_from_iter (\<lambda>_. 1)) (=) (1 :: nat) Unhealthy
        (healthy_new (wrr_from_iter (\<lambda>_. 1)) (wrr_default (\<lambda>_. 1))
          [healthy_lb_item_new Healthy 1, healthy_lb_item_new Healthy 2])))) = Some 2"
  (is "fst (healthy_next_item wrr_next_item None ?hb) = Some 2")
proof -
  have reach: "(healthy_step (wrr_from_iter (\<lambda>_. 1)) (=) wrr_next_item (\<lambda>_. Healthy))\<^sup>*\<^sup>*
     (healthy_new (wrr_from_iter (\<lambda>_. 1)) (wrr_default (\<lambda>_. 1))
          [healthy_lb_item_new Healthy 1, healthy_lb_item_new Healthy 2]) ?hb"
    by (rule r_into_rtranclp) (rule step_update)
  have items: "hb_items ?hb = [healthy_lb_item_new Unhealthy 1, healthy_lb_item_new Healthy 2]"
    by (simp add: healthy_update_health_def healthy_new_def healthy_reload_def healthy_lb_item_new_def
        status_update_health_def)
  note sl = healthy_next_item_sound_and_live [OF reach, of None]
  obtain e hb' where nxt: "healthy_next_item wrr_next_item None ?hb = (Some e, hb')"
    using sl items by (cases "healthy_next_item wrr_next_item None ?hb") (auto simp: healthy_lb_item_new_def)
  with sl items show ?thesis
    by (fastforce simp: healthy_lb_item_new_def)
qed

end
