(* ===== verification/Health_Check.thy ===== *)
theory Health_Check
  imports Healthy_Balancer
begin

text \<open>
  Active health checking: the threshold counter (\<open>orion-lib/src/clusters/health/counter.rs\<close>), the
  classification of responses by the HTTP, TCP and gRPC checkers, the checker loop with its waits
  (\<open>checkers/checker.rs\<close>) and the payload matcher of the TCP checker (\<open>checkers/tcp/mod.rs\<close>).

  Time and the network are inputs: a check returns, times out or is cancelled; a wait ends by its
  timeout or by the stop signal.  A loop is run over the list of what its awaits give.  The stream
  of the TCP checker is a state with a \<open>read\<close> operation, an argument.  Durations are in nanoseconds.
\<close>

section \<open>The counter\<close>

record health_status_counter =
  hc_status :: "health_status option"
  checks :: i32
  healthy_threshold :: i32
  unhealthy_threshold :: i32

definition counter_new :: "u16 \<Rightarrow> u16 \<Rightarrow> health_status_counter" where
  "counter_new healthy unhealthy =
     \<lparr>hc_status = None, checks = 0, healthy_threshold = uint healthy, unhealthy_threshold = - uint unhealthy\<rparr>"

definition counter_update :: "health_status \<Rightarrow> health_status_counter \<Rightarrow> health_status option \<times> health_status_counter" where
  "counter_update new_status c =
     (let c' = (if Some new_status \<noteq> hc_status c then c\<lparr>hc_status := Some new_status\<rparr> else c)
      in (hc_status c', c'))"

definition add_success :: "health_status_counter \<Rightarrow> health_status option \<times> health_status_counter" where
  "add_success c =
     (let c1 = (if checks c < 0 then c\<lparr>checks := 0\<rparr> else c);
          c2 = (if checks c1 < healthy_threshold c1 then c1\<lparr>checks := checks c1 + 1\<rparr> else c1)
      in case hc_status c2 of
           None \<Rightarrow> counter_update Healthy c2
         | Some Healthy \<Rightarrow> (None, c2)
         | Some Unhealthy \<Rightarrow>
             if checks c2 \<ge> healthy_threshold c2 then counter_update Healthy c2 else (None, c2))"

definition add_failure_impl :: "bool \<Rightarrow> health_status_counter \<Rightarrow> health_status option \<times> health_status_counter" where
  "add_failure_impl ignore_threshold c =
     (let c1 = (if checks c > 0 then c\<lparr>checks := 0\<rparr> else c);
          c2 = (if checks c1 > unhealthy_threshold c1 then c1\<lparr>checks := checks c1 - 1\<rparr> else c1)
      in case hc_status c2 of
           None \<Rightarrow> counter_update Unhealthy c2
         | Some Unhealthy \<Rightarrow> (None, c2)
         | Some Healthy \<Rightarrow>
             if ignore_threshold \<or> checks c2 \<le> unhealthy_threshold c2 then counter_update Unhealthy c2 else (None, c2))"

definition add_failure :: "health_status_counter \<Rightarrow> health_status option \<times> health_status_counter" where
  "add_failure = add_failure_impl False"

definition add_failure_ignore_threshold :: "health_status_counter \<Rightarrow> health_status option \<times> health_status_counter" where
  "add_failure_ignore_threshold = add_failure_impl True"

section \<open>Classification of responses\<close>

definition status_in_ranges :: "(u16 \<times> u16) list \<Rightarrow> u16 \<Rightarrow> bool" where
  "status_in_ranges ranges status = list_ex (\<lambda>(s, e). s \<le> status \<and> status < e) ranges"

definition http_process_response ::
  "(u16 \<times> u16) list \<Rightarrow> (u16 \<times> u16) list \<Rightarrow> u16 \<Rightarrow> health_status_counter \<Rightarrow> health_status option \<times> health_status_counter" where
  "http_process_response expected_statuses retriable_statuses status_code counter =
     (let default_expectation = expected_statuses = [] \<and> status_code = 200 in
      if default_expectation \<or> status_in_ranges expected_statuses status_code then add_success counter
      else if status_in_ranges retriable_statuses status_code then add_failure counter
      else add_failure_ignore_threshold counter)"

definition tcp_process_response :: "health_status_counter \<Rightarrow> health_status option \<times> health_status_counter" where
  "tcp_process_response counter = add_success counter"

datatype serving_status = SUnknown | SServing | SNotServing | SServiceUnknown

definition grpc_process_response :: "serving_status \<Rightarrow> health_status_counter \<Rightarrow> health_status option \<times> health_status_counter" where
  "grpc_process_response status counter =
     (case status of
        SUnknown \<Rightarrow> add_failure counter
      | SNotServing \<Rightarrow> add_failure counter
      | SServiceUnknown \<Rightarrow> add_failure counter
      | SServing \<Rightarrow> add_success counter)"

section \<open>The checker loop\<close>

type_synonym duration = nat

record 'f cluster_health_check =
  chc_timeout :: duration
  chc_interval :: duration
  chc_unhealthy_threshold :: u16
  chc_healthy_threshold :: u16
  initial_jitter :: "duration option"
  interval_jitter :: "duration option"
  interval_jitter_percent :: 'f
  unhealthy_interval :: "duration option"
  unhealthy_edge_interval :: "duration option"
  healthy_edge_interval :: "duration option"

definition cluster_health_check_new :: "'f \<Rightarrow> duration \<Rightarrow> duration \<Rightarrow> u16 \<Rightarrow> u16 \<Rightarrow> 'f cluster_health_check" where
  "cluster_health_check_new zero timeout interval unhealthy healthy =
     \<lparr>chc_timeout = timeout, chc_interval = interval, chc_unhealthy_threshold = unhealthy,
      chc_healthy_threshold = healthy, initial_jitter = None, interval_jitter = None,
      interval_jitter_percent = zero, unhealthy_interval = None, unhealthy_edge_interval = None,
      healthy_edge_interval = None\<rparr>"

datatype current_health_status = Unchanged "health_status option" | Edge health_status

text \<open>The duration \<open>IntervalWaiter\<close> waits; \<open>mul_f32\<close> is \<open>Duration::mul_f32\<close>.\<close>
definition wait_duration :: "(duration \<Rightarrow> 'f \<Rightarrow> duration) \<Rightarrow> 'f cluster_health_check \<Rightarrow> current_health_status \<Rightarrow> duration" where
  "wait_duration mul_f32 config health_status =
     (let base = (case health_status of
            Edge new_health_status \<Rightarrow>
              (case (case new_health_status of Healthy \<Rightarrow> healthy_edge_interval config
                     | Unhealthy \<Rightarrow> unhealthy_edge_interval config) of
                 Some i \<Rightarrow> i | None \<Rightarrow> chc_interval config)
          | Unchanged (Some Unhealthy) \<Rightarrow>
              (case unhealthy_interval config of Some i \<Rightarrow> i | None \<Rightarrow> chc_interval config)
          | Unchanged _ \<Rightarrow> chc_interval config);
          jittered = (case interval_jitter config of Some j \<Rightarrow> base + j | None \<Rightarrow> base)
      in jittered + mul_f32 jittered (interval_jitter_percent config))"

text \<open>How \<open>fast_timeout(interval, stop_signal.notified())\<close> ends, given when the signal comes (if it
  does): \<open>Ok(())\<close> when the signal came in time, \<open>Err(Elapsed)\<close> when it did not.\<close>
datatype wait_end = Notified | Elapsed

type_synonym signal = "duration option"

definition fast_timeout :: "duration \<Rightarrow> signal \<Rightarrow> wait_end" where
  "fast_timeout interval stop_signal =
     (case stop_signal of Some t \<Rightarrow> if t \<le> interval then Notified else Elapsed | None \<Rightarrow> Elapsed)"

definition wait_was_cancelled :: "duration \<Rightarrow> signal \<Rightarrow> bool" where
  "wait_was_cancelled interval stop_signal \<longleftrightarrow> fast_timeout interval stop_signal = Elapsed"

definition wait_was_cancelled_opt :: "duration option \<Rightarrow> signal \<Rightarrow> bool" where
  "wait_was_cancelled_opt interval stop_signal =
     (case interval of Some i \<Rightarrow> wait_was_cancelled i stop_signal | None \<Rightarrow> False)"

definition interval_waiter ::
  "(duration \<Rightarrow> 'f \<Rightarrow> duration) \<Rightarrow> 'f cluster_health_check \<Rightarrow> current_health_status \<Rightarrow> signal \<Rightarrow> bool" where
  "interval_waiter mul_f32 config status stop_signal =
     wait_was_cancelled (wait_duration mul_f32 config status) stop_signal"

datatype 'resp health_check_result = CheckError | CheckResponse 'resp | CheckTimeout | CheckCancelled

record endpoint_health_update =
  ehu_health :: health_status
  ehu_changed :: bool

text \<open>The body of the loop.  \<open>process\<close> is the checker's \<open>process_response\<close>, \<open>wait\<close> the trait
  \<open>WaitInterval\<close>.  The inputs are what each check and each wait gave; the result is the updates
  sent and whether the loop has returned when the inputs are used up.\<close>
fun checker_loop ::
  "('resp \<Rightarrow> health_status_counter \<Rightarrow> health_status option \<times> health_status_counter)
     \<Rightarrow> (current_health_status \<Rightarrow> signal \<Rightarrow> bool) \<Rightarrow> health_status_counter
     \<Rightarrow> ('resp health_check_result \<times> signal) list \<Rightarrow> endpoint_health_update list \<times> bool" where
  "checker_loop process wait c [] = ([], False)"
| "checker_loop process wait c ((check_result, w) # inputs) =
     (let step = (case check_result of
            CheckTimeout \<Rightarrow> Some (add_failure c)
          | CheckError \<Rightarrow> Some (add_failure c)
          | CheckResponse response \<Rightarrow> Some (process response c)
          | CheckCancelled \<Rightarrow> None)
      in case step of
           None \<Rightarrow> ([], True)
         | Some (health_status_change, c') \<Rightarrow>
             let update = \<lparr>ehu_health = (case hc_status c' of Some s \<Rightarrow> s | None \<Rightarrow> Healthy),
                           ehu_changed = health_status_change \<noteq> None\<rparr>;
                 current = (case health_status_change of Some s \<Rightarrow> Edge s | None \<Rightarrow> Unchanged (hc_status c'))
             in if wait current w then ([update], True)
                else let (updates, ended) = checker_loop process wait c' inputs in (update # updates, ended))"

text \<open>\<open>run\<close>: the initial jitter, then the loop; \<open>get_random_duration\<close> samples the first wait.\<close>
definition checker_run ::
  "('resp \<Rightarrow> health_status_counter \<Rightarrow> health_status option \<times> health_status_counter)
     \<Rightarrow> ('f cluster_health_check \<Rightarrow> current_health_status \<Rightarrow> signal \<Rightarrow> bool) \<Rightarrow> (duration \<Rightarrow> duration)
     \<Rightarrow> 'f cluster_health_check \<Rightarrow> signal
     \<Rightarrow> ('resp health_check_result \<times> signal) list \<Rightarrow> endpoint_health_update list \<times> bool" where
  "checker_run process wait get_random_duration config first_signal inputs =
     (let c = counter_new (chc_healthy_threshold config) (chc_unhealthy_threshold config) in
      if wait_was_cancelled_opt (map_option get_random_duration (initial_jitter config)) first_signal then ([], True)
      else checker_loop process (wait config) c inputs)"

text \<open>\<open>try_spawn_http_health_checker\<close>: the loop with the HTTP classification and the \<open>IntervalWaiter\<close>.\<close>
definition http_checker ::
  "(u16 \<times> u16) list \<Rightarrow> (u16 \<times> u16) list \<Rightarrow> (duration \<Rightarrow> 'f \<Rightarrow> duration) \<Rightarrow> (duration \<Rightarrow> duration)
     \<Rightarrow> 'f cluster_health_check \<Rightarrow> signal \<Rightarrow> (u16 health_check_result \<times> signal) list \<Rightarrow> endpoint_health_update list \<times> bool" where
  "http_checker expected retriable mul_f32 get_random_duration config first_signal inputs =
     checker_run (http_process_response expected retriable) (interval_waiter mul_f32) get_random_duration config first_signal inputs"

section \<open>The payload matcher of the TCP checker\<close>

text \<open>\<open>buffer.windows(payload.len()).position(|window| window == payload)\<close>\<close>
definition window_position :: "u8 list \<Rightarrow> u8 list \<Rightarrow> nat option" where
  "window_position buffer payload =
     find_index (\<lambda>i. take (length payload) (drop i buffer) = payload) [0..<length buffer + 1 - length payload]"

fun payload_matches_from :: "nat \<Rightarrow> u8 list \<Rightarrow> u8 list list \<Rightarrow> bool" where
  "payload_matches_from index buffer [] = True"
| "payload_matches_from index buffer (payload # payloads) =
     (if payload = [] then payload_matches_from index buffer payloads
      else if index > length buffer then False
      else (case window_position (drop index buffer) payload of
              None \<Rightarrow> False
            | Some payload_index \<Rightarrow> payload_matches_from (index + payload_index) buffer payloads))"

definition payload_matches :: "u8 list \<Rightarrow> u8 list list \<Rightarrow> bool" where
  "payload_matches buffer payloads = payload_matches_from 0 buffer payloads"

datatype payload_error = PayloadBufferTooBig | EndOfStream | ReadError

text \<open>The stream is a state and a \<open>read\<close> that gives up to the asked number of bytes, or an error;
  the model cuts a longer answer, as the slice the code passes does.\<close>
type_synonym 's reader = "nat \<Rightarrow> 's \<Rightarrow> u8 list option \<times> 's"

definition recv_at_most :: "'s reader \<Rightarrow> nat \<Rightarrow> nat \<Rightarrow> u8 list \<Rightarrow> 's \<Rightarrow> (payload_error + u8 list) \<times> 's" where
  "recv_at_most read max_size bytes_to_read buffer s =
     (if length buffer \<ge> max_size \<or> bytes_to_read = 0 then (Inl PayloadBufferTooBig, s)
      else let new_size = min max_size (length buffer + bytes_to_read);
               space = new_size - length buffer
           in case read space s of
                (None, s') \<Rightarrow> (Inl ReadError, s')
              | (Some bytes, s') \<Rightarrow>
                  if take space bytes = [] then (Inl EndOfStream, s') else (Inr (buffer @ take space bytes), s'))"

lemma recv_at_most_grows:
  assumes "recv_at_most read max_size n buffer s = (Inr buffer', s')"
  shows "length buffer < length buffer' \<and> length buffer' \<le> max_size"
proof -
  define space where "space = min max_size (length buffer + n) - length buffer"
  from assms obtain bytes where "length buffer < max_size" "take space bytes \<noteq> []"
    "buffer' = buffer @ take space bytes"
    by (auto simp: recv_at_most_def Let_def space_def split: if_splits prod.splits option.splits)
  then show ?thesis by (auto simp: space_def)
qed

text \<open>\<open>read_exact\<close> reads until the slice is full; every read that is not the last gives at least a byte.\<close>
function recv_exact :: "'s reader \<Rightarrow> nat \<Rightarrow> u8 list \<Rightarrow> 's \<Rightarrow> (payload_error + u8 list) \<times> 's" where
  "recv_exact read n buffer s =
     (if n = 0 then (Inr buffer, s)
      else case read n s of
             (None, s') \<Rightarrow> (Inl ReadError, s')
           | (Some bytes, s') \<Rightarrow>
               if take n bytes = [] then (Inl EndOfStream, s')
               else recv_exact read (n - length (take n bytes)) (buffer @ take n bytes) s')"
  by pat_completeness auto
termination by (relation "measure (\<lambda>(read, n, buffer, s). n)") auto

function try_match_loop ::
  "'s reader \<Rightarrow> nat \<Rightarrow> u8 list list \<Rightarrow> nat \<Rightarrow> u8 list \<Rightarrow> 's \<Rightarrow> (payload_error + u8 list) \<times> 's" where
  "try_match_loop read max_size payloads more_bytes buffer s =
     (if payload_matches buffer payloads then (Inr buffer, s)
      else case recv_at_most read max_size more_bytes buffer s of
             (Inl e, s') \<Rightarrow> (Inl e, s')
           | (Inr buffer', s') \<Rightarrow>
               try_match_loop read max_size payloads (min (more_bytes * 2) (2 ^ 64 - 1)) buffer' s')"
  by pat_completeness auto
termination
proof (relation "measure (\<lambda>(read, max_size, payloads, more_bytes, buffer, s). max_size - length buffer)", goal_cases)
  case (2 read max_size payloads more_bytes buffer s x s' buffer')
  then show ?case
    using recv_at_most_grows [of read max_size more_bytes buffer s buffer' s']
    by (simp add: diff_less_mono2 del: neq0_conv)
qed simp

declare recv_exact.simps [simp del] try_match_loop.simps [simp del]

definition try_match :: "'s reader \<Rightarrow> nat \<Rightarrow> u8 list list \<Rightarrow> 's \<Rightarrow> (payload_error + u8 list) \<times> 's" where
  "try_match read max_size payloads s =
     (let payload_size = sum_list (map length payloads) in
      if payload_size = 0 then (Inr [], s)
      else case recv_exact read payload_size [] s of
             (Inl e, s') \<Rightarrow> (Inl e, s')
           | (Inr buffer, s') \<Rightarrow> try_match_loop read max_size payloads 1024 buffer s')"

section \<open>The counter against its specification\<close>

datatype check_event = Success | Failure | HardFailure

definition is_success :: "check_event \<Rightarrow> bool" where
  "is_success e \<longleftrightarrow> e = Success"

fun counter_event :: "check_event \<Rightarrow> health_status_counter \<Rightarrow> health_status option \<times> health_status_counter" where
  "counter_event Success c = add_success c"
| "counter_event Failure c = add_failure c"
| "counter_event HardFailure c = add_failure_ignore_threshold c"

text \<open>What the counter promises, as a function of the whole history (latest event first): the
  first event decides alone; later an endpoint becomes healthy after \<open>ht\<close> successes in a row and
  unhealthy after \<open>ut\<close> failures in a row, or at once by a failure that ignores the threshold.\<close>
fun history_status :: "nat \<Rightarrow> nat \<Rightarrow> check_event list \<Rightarrow> health_status option" where
  "history_status ht ut [] = None"
| "history_status ht ut (e # h) =
     (case history_status ht ut h of
        None \<Rightarrow> Some (if is_success e then Healthy else Unhealthy)
      | Some Unhealthy \<Rightarrow>
          Some (if is_success e \<and> ht \<le> length (takeWhile is_success (e # h)) then Healthy else Unhealthy)
      | Some Healthy \<Rightarrow>
          Some (if \<not> is_success e \<and> (e = HardFailure \<or> ut \<le> length (takeWhile (\<lambda>x. \<not> is_success x) (e # h)))
                then Unhealthy else Healthy))"

definition counter_run :: "health_status_counter \<Rightarrow> check_event list \<Rightarrow> health_status_counter" where
  "counter_run c es = foldl (\<lambda>c e. snd (counter_event e c)) c es"

text \<open>The abstraction relation: the number of checks is the capped length of the current run.\<close>
definition counter_abs :: "nat \<Rightarrow> nat \<Rightarrow> check_event list \<Rightarrow> health_status_counter \<Rightarrow> bool" where
  "counter_abs ht ut h c \<longleftrightarrow> hc_status c = history_status ht ut h \<and>
     healthy_threshold c = int ht \<and> unhealthy_threshold c = - int ut \<and>
     checks c = (if h = [] then 0
                 else if is_success (hd h) then int (min ht (length (takeWhile is_success h)))
                 else - int (min ut (length (takeWhile (\<lambda>x. \<not> is_success x) h))))"

lemma counter_new_abs: "counter_abs (unat healthy) (unat unhealthy) [] (counter_new healthy unhealthy)"
  by (simp add: counter_abs_def counter_new_def)

lemma run_continues:
  "takeWhile p h = (if h \<noteq> [] \<and> p (hd h) then hd h # takeWhile p (tl h) else [])"
  by (cases h) auto

lemma counter_success_abs:
  assumes "counter_abs ht ut h c"
  shows "counter_abs ht ut (Success # h) (snd (add_success c))"
  using assms
  by (cases h; cases "history_status ht ut h"; cases "the (history_status ht ut h)")
    (auto simp: counter_abs_def add_success_def counter_update_def Let_def is_success_def split: if_splits)

lemma counter_failure_abs:
  assumes "counter_abs ht ut h c" "e \<noteq> Success"
  shows "counter_abs ht ut (e # h) (snd (add_failure_impl (e = HardFailure) c))"
  using assms
  by (cases h; cases "history_status ht ut h"; cases "the (history_status ht ut h)")
    (auto simp: counter_abs_def add_failure_impl_def counter_update_def Let_def is_success_def split: if_splits)

lemma counter_event_abs:
  assumes "counter_abs ht ut h c"
  shows "counter_abs ht ut (e # h) (snd (counter_event e c))"
  using counter_success_abs [OF assms] counter_failure_abs [OF assms, of e]
  by (cases e) (auto simp: add_failure_def add_failure_ignore_threshold_def)

lemma counter_run_abs: "counter_abs ht ut h c \<Longrightarrow> counter_abs ht ut (rev es @ h) (counter_run c es)"
  by (induction es arbitrary: h c) (auto simp: counter_run_def dest: counter_event_abs)

lemma counter_abs_bounds: "counter_abs ht ut h c \<Longrightarrow> - int ut \<le> checks c \<and> checks c \<le> int ht"
  by (auto simp: counter_abs_def)

text \<open>The value an event returns is the new status exactly when the status changed.\<close>
lemma counter_event_result:
  "fst (counter_event e c) = (if hc_status (snd (counter_event e c)) = hc_status c then None
     else hc_status (snd (counter_event e c)))"
  by (cases e; cases "hc_status c"; cases "the (hc_status c)")
    (auto simp: add_success_def add_failure_def add_failure_ignore_threshold_def add_failure_impl_def counter_update_def Let_def)

text \<open>C4: The health counter implements its specification over the whole history of checks, for all
  thresholds: after any sequence of successes, failures and threshold-ignoring failures, the status is
  the one the history decides, and the counter of consecutive checks stays between the thresholds.\<close>
theorem counter_refines_history:
  "hc_status (counter_run (counter_new healthy unhealthy) es) = history_status (unat healthy) (unat unhealthy) (rev es) \<and>
   - int (unat unhealthy) \<le> checks (counter_run (counter_new healthy unhealthy) es) \<and>
   checks (counter_run (counter_new healthy unhealthy) es) \<le> int (unat healthy)"
proof -
  have abs: "counter_abs (unat healthy) (unat unhealthy) (rev es) (counter_run (counter_new healthy unhealthy) es)"
    using counter_run_abs [OF counter_new_abs, of healthy unhealthy es] by simp
  then have "hc_status (counter_run (counter_new healthy unhealthy) es) =
      history_status (unat healthy) (unat unhealthy) (rev es)"
    by (simp only: counter_abs_def)
  with counter_abs_bounds [OF abs] show ?thesis by blast
qed

section \<open>The loop against its specification\<close>

fun http_event :: "(u16 \<times> u16) list \<Rightarrow> (u16 \<times> u16) list \<Rightarrow> u16 health_check_result \<Rightarrow> check_event" where
  "http_event expected retriable (CheckResponse status) =
     (if (expected = [] \<and> status = 200) \<or> status_in_ranges expected status then Success
      else if status_in_ranges retriable status then Failure else HardFailure)"
| "http_event expected retriable _ = Failure"

lemma http_process_event:
  "http_process_response expected retriable status c = counter_event (http_event expected retriable (CheckResponse status)) c"
  by (simp add: http_process_response_def Let_def)

text \<open>Whatever the waits do, the health of each update is decided by the checks so far.\<close>
lemma loop_updates_history:
  assumes process: "\<And>r c. process r c = counter_event (ev (CheckResponse r)) c"
    and ev: "ev CheckTimeout = Failure" "ev CheckError = Failure"
    and "counter_abs ht ut h c"
  shows "map (\<lambda>u. Some (ehu_health u)) (fst (checker_loop process wait c inputs)) =
      map (\<lambda>n. history_status ht ut (rev (map (ev \<circ> fst) (take n inputs)) @ h))
        [1..<Suc (length (fst (checker_loop process wait c inputs)))]"
  using assms(4)
proof (induction inputs arbitrary: c h)
  case (Cons i inputs)
  obtain r w where i: "i = (r, w)" by (cases i)
  show ?case
  proof (cases "r = CheckCancelled")
    case False
    define c' where "c' = snd (counter_event (ev r) c)"
    define current where "current = (case fst (counter_event (ev r) c) of Some s \<Rightarrow> Edge s | None \<Rightarrow> Unchanged (hc_status (snd (counter_event (ev r) c))))"
    have abs': "counter_abs ht ut (ev r # h) c'"
      unfolding c'_def by (rule counter_event_abs [OF Cons.prems])
    obtain s where s: "hc_status c' = Some s" "history_status ht ut (ev r # h) = Some s"
      using abs' by (cases "history_status ht ut h"; cases "the (history_status ht ut h)") (auto simp: counter_abs_def)
    have "(case r of CheckTimeout \<Rightarrow> Some (add_failure c) | CheckError \<Rightarrow> Some (add_failure c)
        | CheckResponse response \<Rightarrow> Some (process response c) | CheckCancelled \<Rightarrow> None) = Some (counter_event (ev r) c)"
      using False ev by (cases r) (simp_all add: process)
    then have loop: "fst (checker_loop process wait c (i # inputs)) =
        \<lparr>ehu_health = s, ehu_changed = fst (counter_event (ev r) c) \<noteq> None\<rparr> #
          (if wait current w then [] else fst (checker_loop process wait c' inputs))"
      using s(1) by (simp add: i c'_def current_def split_beta Let_def)
    have upt: "[Suc 0..<Suc (Suc n)] = Suc 0 # map Suc [Suc 0..<Suc n]" for n
      by (simp add: map_Suc_upt upt_conv_Cons del: upt_Suc)
    show ?thesis
      unfolding loop using s(2) Cons.IH [OF abs'] by (simp add: i upt o_def del: upt_Suc history_status.simps)
  qed (simp add: i)
qed simp

text \<open>C14: The HTTP checker with the waiter of the code.  Whatever the checks and the stop signal do, the health of each
  update it sends is the one the history of the checks so far decides.  But it does not go on checking: when there
  is no initial jitter and nobody stops it, the wait after the first check ends by its timeout, the timeout is taken for a cancellation, and
  the checker returns having sent one update, whatever checks were still to come.\<close>
theorem http_checker_reports_history:
  "map (\<lambda>u. Some (ehu_health u)) (fst (http_checker expected retriable mul_f32 rnd config first_signal inputs)) =
      map (\<lambda>n. history_status (unat (chc_healthy_threshold config)) (unat (chc_unhealthy_threshold config))
                 (rev (map (http_event expected retriable \<circ> fst) (take n inputs))))
        [1..<Suc (length (fst (http_checker expected retriable mul_f32 rnd config first_signal inputs)))] \<and>
    (initial_jitter config = None \<longrightarrow> inputs \<noteq> [] \<longrightarrow> fst (hd inputs) \<noteq> CheckCancelled \<longrightarrow> snd (hd inputs) = None \<longrightarrow>
       length (fst (http_checker expected retriable mul_f32 rnd config first_signal inputs)) = 1 \<and>
       snd (http_checker expected retriable mul_f32 rnd config first_signal inputs))"
  (is "?updates \<and> ?stops")
proof
  let ?wait = "interval_waiter mul_f32 config"
  show ?updates
    using loop_updates_history [where process = "http_process_response expected retriable"
        and ev = "http_event expected retriable" and wait = ?wait and inputs = inputs,
        OF http_process_event _ _ counter_new_abs, of "chc_healthy_threshold config" "chc_unhealthy_threshold config"]
    by (simp add: http_checker_def checker_run_def Let_def del: upt_Suc)
  show ?stops
    by (cases inputs; cases "fst (hd inputs)")
      (auto simp: http_checker_def checker_run_def wait_was_cancelled_opt_def Let_def interval_waiter_def wait_was_cancelled_def
        fast_timeout_def split: prod.splits)
qed

theorem http_checker_reports_history_witness:
  "map ehu_health (fst (http_checker [] [(500, 504)] (\<lambda>d _. d) id
      (cluster_health_check_new (0::nat) 1 5 2 2) None
      [(CheckResponse 503, None), (CheckResponse 200, None), (CheckResponse 200, None)])) = [Unhealthy]"
proof -
  let ?inputs = "[(CheckResponse 503, None), (CheckResponse 200, None), (CheckResponse 200, None)]
    :: (u16 health_check_result \<times> signal) list"
  let ?us = "fst (http_checker [] [(500, 504)] (\<lambda>d _. d) id
      (cluster_health_check_new (0::nat) 1 5 2 2) None ?inputs)"
  note run = http_checker_reports_history [of "[]" "[(500, 504)]" "\<lambda>d _. d" id "cluster_health_check_new (0::nat) 1 5 2 2" None ?inputs]
  have len: "length ?us = 1"
    using run by (simp add: cluster_health_check_new_def)
  then have upt: "[1..<Suc (length ?us)] = [1]" by simp
  have "map (\<lambda>u. Some (ehu_health u)) ?us = [Some Unhealthy]"
    using run unfolding upt by (simp add: cluster_health_check_new_def is_success_def status_in_ranges_def)
  then show ?thesis by (cases ?us) auto
qed

section \<open>The payload matcher against its specification\<close>

text \<open>What \<open>matches\<close> decides: the payloads occur in the buffer at positions that do not decrease.\<close>
definition occurs_at :: "u8 list \<Rightarrow> nat \<Rightarrow> u8 list \<Rightarrow> bool" where
  "occurs_at buffer i payload \<longleftrightarrow> take (length payload) (drop i buffer) = payload"

fun occur_in_order :: "nat \<Rightarrow> u8 list \<Rightarrow> u8 list list \<Rightarrow> bool" where
  "occur_in_order index buffer [] = True"
| "occur_in_order index buffer (payload # payloads) =
     (if payload = [] then occur_in_order index buffer payloads
      else \<exists>i \<in> {index..length buffer}. occurs_at buffer i payload \<and> occur_in_order i buffer payloads)"

lemma occurs_at_bound: "occurs_at buffer i payload \<Longrightarrow> payload \<noteq> [] \<Longrightarrow> i + length payload \<le> length buffer"
  unfolding occurs_at_def
  by (metis Nat.le_diff_conv2 add.commute drop_eq_Nil length_drop length_take linorder_le_cases min.cobounded1 take_Nil)

lemma occurs_at_append: "occurs_at buffer i payload \<Longrightarrow> payload \<noteq> [] \<Longrightarrow> occurs_at (buffer @ rest) i payload"
  using occurs_at_bound [of buffer i payload] by (simp add: occurs_at_def)

lemma window_position_Some:
  assumes "window_position (drop index buffer) payload = Some k"
  shows "occurs_at buffer (index + k) payload \<and> (\<forall>j < k. \<not> occurs_at buffer (index + j) payload)"
  using find_index_Some [OF assms [unfolded window_position_def]]
  by (auto simp: occurs_at_def add.commute simp del: upt_Suc)

lemma window_position_None:
  assumes "window_position (drop index buffer) payload = None" "payload \<noteq> []" "index \<le> i"
  shows "\<not> occurs_at buffer i payload"
proof
  assume "occurs_at buffer i payload"
  then have "i - index \<in> set [0..<length (drop index buffer) + 1 - length payload]"
    "take (length payload) (drop (i - index) (drop index buffer)) = payload"
    using occurs_at_bound [of buffer i payload] assms(2,3) by (auto simp: occurs_at_def)
  then show False using assms(1) unfolding window_position_def find_index_None by blast
qed

lemma occur_in_order_mono: "occur_in_order i buffer payloads \<Longrightarrow> j \<le> i \<Longrightarrow> occur_in_order j buffer payloads"
  by (induction payloads arbitrary: i j) (auto split: if_splits)

lemma occur_in_order_append: "occur_in_order i buffer payloads \<Longrightarrow> occur_in_order i (buffer @ rest) payloads"
  by (induction payloads arbitrary: i) (auto split: if_splits dest: occurs_at_append intro!: bexI)

lemma payload_matches_from_spec:
  "index \<le> length buffer \<Longrightarrow> payload_matches_from index buffer payloads = occur_in_order index buffer payloads"
proof (induction payloads arbitrary: index)
  case (Cons payload payloads)
  show ?case
  proof (cases "payload = []")
    case nonempty: False
    show ?thesis
    proof (cases "window_position (drop index buffer) payload")
      case None
      then show ?thesis using window_position_None [OF None nonempty] nonempty Cons.prems by auto
    next
      case (Some k)
      note least = window_position_Some [OF Some]
      have bound: "index + k \<le> length buffer" using occurs_at_bound [of buffer "index + k" payload] least nonempty by simp
      have "occur_in_order (index + k) buffer payloads"
        if "i \<in> {index..length buffer}" "occurs_at buffer i payload" "occur_in_order i buffer payloads" for i
      proof -
        have "\<not> i - index < k" using least that(1,2) by (metis atLeastAtMost_iff le_add_diff_inverse)
        then have "index + k \<le> i" using that(1) by auto
        then show ?thesis by (rule occur_in_order_mono [OF that(3)])
      qed
      with least bound have "occur_in_order (index + k) buffer payloads \<longleftrightarrow>
          (\<exists>i \<in> {index..length buffer}. occurs_at buffer i payload \<and> occur_in_order i buffer payloads)"
        by (meson atLeastAtMost_iff le_add1)
      then show ?thesis using Some nonempty Cons.prems Cons.IH [OF bound] by simp
    qed
  qed (use Cons in simp)
qed simp

lemma payload_matches_append: "payload_matches buffer payloads \<Longrightarrow> payload_matches (buffer @ rest) payloads"
  by (simp add: payload_matches_def payload_matches_from_spec occur_in_order_append)

lemma payload_matches_prefix: "payload_matches (take m xs) payloads \<Longrightarrow> m \<le> n \<Longrightarrow> payload_matches (take n xs) payloads"
  using payload_matches_append [of "take m xs" payloads "drop m (take n xs)"] append_take_drop_id [of m "take n xs"]
  by (simp add: min_absorb1 take_take min.commute)

text \<open>A stream that gives its data in order, in chunks of any size, and nothing only at its end.\<close>
definition stream_laws :: "'s reader \<Rightarrow> ('s \<Rightarrow> u8 list) \<Rightarrow> bool" where
  "stream_laws read data \<longleftrightarrow> (\<forall>n s. \<exists>bytes s'. read n s = (Some bytes, s') \<and> data s = bytes @ data s' \<and>
     length bytes \<le> n \<and> (n > 0 \<and> data s \<noteq> [] \<longrightarrow> bytes \<noteq> []))"

lemma stream_lawsE:
  assumes "stream_laws read data"
  obtains bytes s' where "read n s = (Some bytes, s')" "data s = bytes @ data s'" "length bytes \<le> n"
    "n > 0 \<Longrightarrow> data s \<noteq> [] \<Longrightarrow> bytes \<noteq> []"
  using assms unfolding stream_laws_def by metis

lemma recv_exact_stream:
  assumes laws: "stream_laws read data"
  shows "if n \<le> length (data s) then \<exists>s'. recv_exact read n buffer s = (Inr (buffer @ take n (data s)), s') \<and> data s' = drop n (data s)
    else \<exists>e s'. recv_exact read n buffer s = (Inl e, s')"
proof (induction n arbitrary: buffer s rule: less_induct)
  case (less n)
  obtain bytes s' where r: "read n s = (Some bytes, s')" "data s = bytes @ data s'" "length bytes \<le> n"
    "n > 0 \<Longrightarrow> data s \<noteq> [] \<Longrightarrow> bytes \<noteq> []" using stream_lawsE [OF laws] by metis
  consider "n = 0" | "n > 0" "bytes = []" | "n > 0" "bytes \<noteq> []" by blast
  then show ?case
  proof cases
    case 3
    have IH: "if n - length bytes \<le> length (data s')
        then \<exists>s''. recv_exact read (n - length bytes) (buffer @ bytes) s' = (Inr ((buffer @ bytes) @ take (n - length bytes) (data s')), s'')
          \<and> data s'' = drop (n - length bytes) (data s')
        else \<exists>e s''. recv_exact read (n - length bytes) (buffer @ bytes) s' = (Inl e, s'')"
      by (rule less.IH) (use 3 in simp)
    have step: "recv_exact read n buffer s = recv_exact read (n - length bytes) (buffer @ bytes) s'"
      using 3 r(1,3) by (subst recv_exact.simps) simp
    have "n - length bytes \<le> length (data s') \<longleftrightarrow> n \<le> length (data s)" using r(2,3) by auto
    moreover have "take n (data s) = bytes @ take (n - length bytes) (data s')"
      "drop n (data s) = drop (n - length bytes) (data s')" using r(2,3) by simp_all
    ultimately show ?thesis using IH unfolding step by (simp only: append_assoc)
  next
    case 1
    then show ?thesis by (subst recv_exact.simps) simp
  next
    case 2
    then have "data s = []" using r(4) by blast
    then show ?thesis using 2 r(1) by (subst recv_exact.simps) simp
  qed
qed

lemma try_match_loop_stream:
  assumes laws: "stream_laws read data" and "more_bytes > 0"
  shows "(\<exists>b s'. try_match_loop read max_size payloads more_bytes buffer s = (Inr b, s')) \<longleftrightarrow>
    payload_matches (take (max max_size (length buffer)) (buffer @ data s)) payloads"
  using assms(2)
proof (induction "max_size - length buffer" arbitrary: more_bytes buffer s rule: less_induct)
  case less
  show ?case
  proof (cases "payload_matches buffer payloads")
    case True
    then show ?thesis
      using payload_matches_prefix [of "length buffer" "buffer @ data s" payloads "max max_size (length buffer)"]
      by (subst try_match_loop.simps) simp
  next
    case no_match: False
    show ?thesis
    proof (cases "length buffer \<ge> max_size")
      case True
      then show ?thesis using no_match
        by (subst try_match_loop.simps) (simp add: recv_at_most_def max_absorb2)
    next
      case False
      define space where "space = min max_size (length buffer + more_bytes) - length buffer"
      have space: "space > 0" using False less.prems by (simp add: space_def)
      obtain bytes s' where r: "read space s = (Some bytes, s')" "data s = bytes @ data s'" "length bytes \<le> space"
        "data s \<noteq> [] \<Longrightarrow> bytes \<noteq> []" using stream_lawsE [OF laws] space by metis
      show ?thesis
      proof (cases "bytes = []")
        case True
        then have "data s = []" using r(4) by blast
        then show ?thesis using no_match False r(1) True less.prems
          by (subst try_match_loop.simps) (simp add: recv_at_most_def Let_def space_def [symmetric])
      next
        case got: False
        have recv: "recv_at_most read max_size more_bytes buffer s = (Inr (buffer @ bytes), s')"
          using False r(1,3) got less.prems by (simp add: recv_at_most_def Let_def space_def [symmetric])
        have len: "length (buffer @ bytes) \<le> max_size" "length buffer < length (buffer @ bytes)"
          using recv_at_most_grows [OF recv] by simp_all
        have "(\<exists>b t. try_match_loop read max_size payloads (min (more_bytes * 2) (2 ^ 64 - 1)) (buffer @ bytes) s' = (Inr b, t)) \<longleftrightarrow>
            payload_matches (take (max max_size (length (buffer @ bytes))) ((buffer @ bytes) @ data s')) payloads"
        proof (rule less.hyps)
          show "max_size - length (buffer @ bytes) < max_size - length buffer" using len by linarith
        qed (use less.prems in simp)
        then show ?thesis using no_match recv len r(2)
          by (subst try_match_loop.simps) (simp add: max_absorb1)
      qed
    qed
  qed
qed

text \<open>C5: The verdict of the TCP payload check depends only on the bytes the peer sends, not on how they
  are cut into reads: it succeeds exactly when the peer sends at least as many bytes as the payloads
  have and the payloads occur, in order, in what fits the buffer; it always ends.\<close>
theorem try_match_correct:
  assumes laws: "stream_laws read data" and size: "n = sum_list (map length payloads)" "n > 0"
  shows "(\<exists>b s'. try_match read max_size payloads s = (Inr b, s')) \<longleftrightarrow>
    n \<le> length (data s) \<and> occur_in_order 0 (take (max max_size n) (data s)) payloads"
proof -
  have unf: "try_match read max_size payloads s = (case recv_exact read n [] s of
      (Inl e, s') \<Rightarrow> (Inl e, s') | (Inr buffer, s') \<Rightarrow> try_match_loop read max_size payloads 1024 buffer s')"
    using size unfolding try_match_def Let_def by (simp only: size(1) [symmetric]) simp
  show ?thesis
  proof (cases "n \<le> length (data s)")
    case True
    then obtain s' where s': "recv_exact read n [] s = (Inr (take n (data s)), s')" "data s' = drop n (data s)"
      using recv_exact_stream [OF laws, of n s "[]"] by auto
    then show ?thesis
      using True try_match_loop_stream [OF laws, of 1024 max_size payloads "take n (data s)" s']
      by (simp add: unf payload_matches_def payload_matches_from_spec)
  next
    case False
    then obtain e s' where "recv_exact read n [] s = (Inl e, s')"
      using recv_exact_stream [OF laws, of n s "[]"] by auto
    then show ?thesis using False by (simp add: unf)
  qed
qed

theorem try_match_correct_witness:
  "stream_laws (\<lambda>n (s :: u8 list). (Some (take n s), drop n s)) id \<and>
   (\<exists>b s'. try_match (\<lambda>n s. (Some (take n s), drop n s)) 64 [[1, 2], [3]] [0, 1, 2, 9, 3 :: u8] = (Inr b, s'))"
proof -
  have "stream_laws (\<lambda>n (s :: u8 list). (Some (take n s), drop n s)) id"
    by (auto simp: stream_laws_def)
  moreover have "occur_in_order 0 [0, 1, 2, 9, 3 :: u8] [[1, 2], [3]]"
    by (simp add: occurs_at_def Bex_def, rule exI [of _ 1], simp, rule exI [of _ 4], simp)
  ultimately show ?thesis
    using try_match_correct [of "\<lambda>n (s :: u8 list). (Some (take n s), drop n s)" id 3 "[[1, 2], [3]]" 64 "[0, 1, 2, 9, 3]"]
    by simp
qed

text \<open>The positions may coincide: one occurrence of a payload answers for every copy of it.\<close>
lemma payload_matches_reuses_bytes: "payload_matches (payload @ rest) (replicate k payload)"
proof -
  have "occur_in_order 0 (payload @ rest) (replicate k payload)"
    by (induction k) (auto simp: occurs_at_def intro!: bexI [of _ 0])
  then show ?thesis by (simp add: payload_matches_def payload_matches_from_spec)
qed

end
