(* ===== verification/Filter_Chain.thy ===== *)
theory Filter_Chain
  imports Orion_Prelude "HOL-Library.List_Lexorder" "HOL-Library.Multiset"
begin

text \<open>
  Filter chain selection: the match criteria of a chain
  (\<open>orion-configuration/src/config/listener.rs\<close>) and \<open>Listener::select_filterchain\<close>
  (\<open>orion-lib/src/listeners/listener.rs\<close>).

  The chains are a \<open>HashMap\<close> from criteria to chains: the list of its entries in the (unspecified)
  order of iteration.  Subnets are the type \<open>IpNet\<close> of the crate \<open>ipnet\<close>, used through \<open>contains\<close>
  and \<open>prefix_len\<close>; \<open>str::to_lowercase\<close> is the argument \<open>lower\<close>.
\<close>

section \<open>Criteria\<close>

record server_name_match =
  snm_name :: str
  match_subdomains :: bool

definition server_name_match_from_str :: "(str \<Rightarrow> str) \<Rightarrow> str \<Rightarrow> server_name_match option" where
  "server_name_match_from_str lower s =
     (let (subdomains, s') = (if starts_with s ''*.'' then (True, drop 1 s) else (False, s)) in
      if CHR ''*'' \<in> set s' then None
      else Some \<lparr>snm_name = lower s', match_subdomains = subdomains\<rparr>)"

record 'n filter_chain_match =
  destination_port :: "u16 option"
  destination_prefix_ranges :: "'n list"
  server_names :: "server_name_match list"
  source_prefix_ranges :: "'n list"
  source_ports :: "u16 list"
  transport_protocol :: str
  application_protocols :: "str list"

datatype detected_transport_protocol = RawBuffer | Ssl

definition detected_transport_protocol_try_from :: "str \<Rightarrow> detected_transport_protocol option" where
  "detected_transport_protocol_try_from value =
     (if value = ''raw_buffer'' then Some RawBuffer else if value = ''ssl'' then Some Ssl else None)"

datatype match_result = FailedMatch | NoRule | Matched u32

instantiation match_result :: linorder
begin

text \<open>\<open>Ord for MatchResult\<close>: a lower score is a more specific match.\<close>
fun less_eq_match_result :: "match_result \<Rightarrow> match_result \<Rightarrow> bool" where
  "less_eq_match_result (Matched x) (Matched y) \<longleftrightarrow> y \<le> x"
| "less_eq_match_result FailedMatch _ \<longleftrightarrow> True"
| "less_eq_match_result NoRule FailedMatch \<longleftrightarrow> False"
| "less_eq_match_result NoRule _ \<longleftrightarrow> True"
| "less_eq_match_result (Matched x) _ \<longleftrightarrow> False"

definition less_match_result :: "match_result \<Rightarrow> match_result \<Rightarrow> bool" where
  "less_match_result a b \<longleftrightarrow> a \<le> b \<and> \<not> b \<le> (a :: match_result)"

instance
proof
  fix x y z :: match_result
  show "x < y \<longleftrightarrow> x \<le> y \<and> \<not> y \<le> x"
    by (simp add: less_match_result_def)
  show "x \<le> x"
    by (cases x) auto
  show "x \<le> y \<Longrightarrow> y \<le> z \<Longrightarrow> x \<le> z"
    by (cases x; cases y; cases z) auto
  show "x \<le> y \<Longrightarrow> y \<le> x \<Longrightarrow> x = y"
    by (cases x; cases y) auto
  show "x \<le> y \<or> y \<le> x"
    by (cases x; cases y) auto
qed

end

text \<open>\<open>.max().unwrap_or(MatchResult::NoRule)\<close>.\<close>
definition max_or_norule :: "match_result list \<Rightarrow> match_result" where
  "max_or_norule rs = (case iter_max rs of Some m \<Rightarrow> m | None \<Rightarrow> NoRule)"

definition matches_destination_port :: "'n filter_chain_match \<Rightarrow> u16 \<Rightarrow> match_result" where
  "matches_destination_port fcm port =
     (case destination_port fcm of
        Some destination \<Rightarrow> if port = destination then Matched 0 else FailedMatch
      | None \<Rightarrow> NoRule)"

definition matches_prefix_ranges ::
  "('n \<Rightarrow> ip_addr \<Rightarrow> bool) \<Rightarrow> ('n \<Rightarrow> u8) \<Rightarrow> 'n list \<Rightarrow> ip_addr \<Rightarrow> match_result" where
  "matches_prefix_ranges contains prefix_len ranges ip =
     max_or_norule (map (\<lambda>range.
       if contains range ip
       then Matched ((case ip of V4 _ \<Rightarrow> 32 | V6 _ \<Rightarrow> 128) - ucast (prefix_len range))
       else FailedMatch) ranges)"

definition matches_destination_ip ::
  "('n \<Rightarrow> ip_addr \<Rightarrow> bool) \<Rightarrow> ('n \<Rightarrow> u8) \<Rightarrow> 'n filter_chain_match \<Rightarrow> ip_addr \<Rightarrow> match_result" where
  "matches_destination_ip contains prefix_len fcm ip =
     matches_prefix_ranges contains prefix_len (destination_prefix_ranges fcm) ip"

definition matches_source_ip ::
  "('n \<Rightarrow> ip_addr \<Rightarrow> bool) \<Rightarrow> ('n \<Rightarrow> u8) \<Rightarrow> 'n filter_chain_match \<Rightarrow> ip_addr \<Rightarrow> match_result" where
  "matches_source_ip contains prefix_len fcm ip =
     matches_prefix_ranges contains prefix_len (source_prefix_ranges fcm) ip"

definition matches_source_port :: "'n filter_chain_match \<Rightarrow> u16 \<Rightarrow> match_result" where
  "matches_source_port fcm source_port =
     (if source_ports fcm = [] then NoRule
      else if source_port \<in> set (source_ports fcm) then Matched 0 else FailedMatch)"

text \<open>\<open>a - b\<close> on \<open>usize\<close> without overflow checks.\<close>
definition usize_sub :: "nat \<Rightarrow> nat \<Rightarrow> nat" where
  "usize_sub a b = nat ((int a - int b) mod 2 ^ 64)"

definition server_name_score :: "server_name_match \<Rightarrow> str \<Rightarrow> match_result outcome" where
  "server_name_score name_match server_name =
     (if match_subdomains name_match
      then if ends_with server_name (snm_name name_match)
           then mapP (\<lambda>head. let n = length (filter (\<lambda>c. c = CHR ''.'') head)
                             in Matched (if n \<le> u32_max then of_nat n else - 1))
                  (slice server_name 0 (usize_sub (length server_name) (usize_sub (length (snm_name name_match)) 1)))
           else Ret FailedMatch
      else if server_name = snm_name name_match then Ret (Matched 0) else Ret FailedMatch)"

definition matches_server_name :: "'n filter_chain_match \<Rightarrow> str \<Rightarrow> match_result outcome" where
  "matches_server_name fcm server_name =
     mapP max_or_norule (mapListP (\<lambda>nm. server_name_score nm server_name) (server_names fcm))"

definition matches_detected_transport_protocol :: "'n filter_chain_match \<Rightarrow> detected_transport_protocol \<Rightarrow> match_result" where
  "matches_detected_transport_protocol fcm detected =
     (if transport_protocol fcm = [] then NoRule
      else case detected_transport_protocol_try_from (transport_protocol fcm) of
             Some tp \<Rightarrow> if tp = detected then Matched 0 else FailedMatch
           | None \<Rightarrow> FailedMatch)"

section \<open>Selection\<close>

text \<open>The first loop of \<open>match_subitem\<close>: score the candidates still in the running, from index
  \<open>i\<close> on, into the scratchpad, and keep the best score.\<close>
fun subitem_scan ::
  "('m \<Rightarrow> match_result outcome) \<Rightarrow> nat \<Rightarrow> 'm list \<Rightarrow> bool list \<Rightarrow> match_result \<Rightarrow> match_result list
     \<Rightarrow> (match_result \<times> match_result list) outcome" where
  "subitem_scan f i [] possible best scratch = Ret (best, scratch)"
| "subitem_scan f i (m # ms) possible best scratch =
     (if possible ! i
      then bindP (f m) (\<lambda>r. subitem_scan f (Suc i) ms possible (if r > best then r else best) (scratch[i := r]))
      else subitem_scan f (Suc i) ms possible best scratch)"

text \<open>The second loop: eliminate what failed or is less specific than the best.\<close>
definition subitem_trim :: "match_result \<Rightarrow> match_result list \<Rightarrow> bool list \<Rightarrow> bool list" where
  "subitem_trim best scratch possible =
     foldl (\<lambda>ps i. if scratch ! i \<noteq> best \<or> scratch ! i = FailedMatch then ps[i := False] else ps)
       possible [0..<length scratch]"

definition match_subitem ::
  "('m \<Rightarrow> match_result outcome) \<Rightarrow> 'm list \<Rightarrow> match_result list \<times> bool list \<Rightarrow> (match_result list \<times> bool list) outcome" where
  "match_subitem f keys st =
     (let (scratch, possible) = st in
      mapP (\<lambda>(best, scratch'). (scratch', subitem_trim best scratch' possible))
        (subitem_scan f 0 keys possible FailedMatch scratch))"

text \<open>The six rounds, in the order of the source.\<close>
definition criteria ::
  "('n \<Rightarrow> ip_addr \<Rightarrow> bool) \<Rightarrow> ('n \<Rightarrow> u8) \<Rightarrow> socket_addr \<Rightarrow> socket_addr \<Rightarrow> str option \<Rightarrow> detected_transport_protocol
     \<Rightarrow> ('n filter_chain_match \<Rightarrow> match_result outcome) list" where
  "criteria contains prefix_len source_addr destination_addr server_name detected =
     [\<lambda>m. Ret (matches_destination_port m (sa_port destination_addr)),
      \<lambda>m. Ret (matches_destination_ip contains prefix_len m (sa_ip destination_addr)),
      \<lambda>m. matches_server_name m (case server_name of Some s \<Rightarrow> s | None \<Rightarrow> ''''),
      \<lambda>m. Ret (matches_detected_transport_protocol m detected),
      \<lambda>m. Ret (matches_source_ip contains prefix_len m (sa_ip source_addr)),
      \<lambda>m. Ret (matches_source_port m (sa_port source_addr))]"

fun run_rounds ::
  "('m \<Rightarrow> match_result outcome) list \<Rightarrow> 'm list \<Rightarrow> match_result list \<times> bool list \<Rightarrow> (match_result list \<times> bool list) outcome" where
  "run_rounds [] keys st = Ret st"
| "run_rounds (f # fs) keys st = bindP (match_subitem f keys st) (run_rounds fs keys)"

text \<open>\<open>Inl ()\<close> is the error \<open>multiple filterchains matched\<close>.\<close>
definition pick_survivor :: "bool list \<Rightarrow> ('m \<times> 'c) list \<Rightarrow> unit + 'c option" where
  "pick_survivor possible filter_chains =
     (case map (\<lambda>(_, item). snd item) (filter fst (zip possible filter_chains)) of
        [] \<Rightarrow> Inr None
      | [c] \<Rightarrow> Inr (Some c)
      | _ \<Rightarrow> Inl ())"

definition select_filterchain ::
  "('n \<Rightarrow> ip_addr \<Rightarrow> bool) \<Rightarrow> ('n \<Rightarrow> u8) \<Rightarrow> ('n filter_chain_match \<times> 'c) list \<Rightarrow> socket_addr \<Rightarrow> socket_addr
     \<Rightarrow> str option \<Rightarrow> detected_transport_protocol \<Rightarrow> (unit + 'c option) outcome" where
  "select_filterchain contains prefix_len filter_chains source_addr destination_addr server_name detected =
     (let keys = map fst filter_chains;
          possible_filters = replicate (length filter_chains) True;
          scratchpad = replicate (length filter_chains) NoRule
      in mapP (\<lambda>(_, possible). pick_survivor possible filter_chains)
           (run_rounds (criteria contains prefix_len source_addr destination_addr server_name detected)
              keys (scratchpad, possible_filters)))"

text \<open>The chains of a listener are read as a list of entries; duplicate criteria and an empty list
  are refused.\<close>
datatype filter_chains_error = NoFilterChain | DuplicateMatch

definition deserialize_filter_chains :: "('m \<times> 'c) list \<Rightarrow> filter_chains_error + ('m \<times> 'c) list" where
  "deserialize_filter_chains kvp =
     (let n = card (fst ` set kvp) in
      if n = 0 then Inl NoFilterChain
      else if n = length kvp then Inr kvp
      else Inl DuplicateMatch)"

section \<open>Abstract selection\<close>

text \<open>One round on a set of candidates, on a list: keep the best that do not fail.\<close>
definition keep_best :: "('x \<Rightarrow> match_result) \<Rightarrow> 'x list \<Rightarrow> 'x list" where
  "keep_best g xs = filter (\<lambda>x. g x \<noteq> FailedMatch \<and> (\<forall>y \<in> set xs. g y \<le> g x)) xs"

fun survivors :: "('x \<Rightarrow> match_result) list \<Rightarrow> 'x list \<Rightarrow> 'x list" where
  "survivors [] xs = xs"
| "survivors (g # gs) xs = survivors gs (keep_best g xs)"

definition pick_one :: "'c list \<Rightarrow> unit + 'c option" where
  "pick_one cs = (case cs of [] \<Rightarrow> Inr None | [c] \<Rightarrow> Inr (Some c) | _ \<Rightarrow> Inl ())"

section \<open>The selection refines the abstract one\<close>

text \<open>The candidates a vector of flags leaves of a list.\<close>
definition selected :: "bool list \<Rightarrow> 'x list \<Rightarrow> 'x list" where
  "selected possible xs = map snd (filter fst (zip possible xs))"

lemma selected_Nil [simp]: "selected [] xs = []" "selected ps [] = []"
  by (simp_all add: selected_def)

lemma selected_Cons [simp]: "selected (p # ps) (x # xs) = (if p then x # selected ps xs else selected ps xs)"
  by (simp add: selected_def)

lemma selected_all [simp]: "selected (replicate (length xs) True) xs = xs"
  by (induction xs) auto

lemma selected_map: "selected ps (map k xs) = map k (selected ps xs)"
  by (induction ps xs rule: list_induct2') auto

lemma selected_filter:
  assumes "length ps = length xs"
  shows "selected (map2 (\<lambda>p x. p \<and> P x) ps xs) xs = filter P (selected ps xs)"
  using assms by (induction ps xs rule: list_induct2) auto

lemma subitem_scan_spec:
  assumes "\<And>m. m \<in> set ms \<Longrightarrow> f m = Ret (g m)" "i + length ms = length possible" "length scratch = length possible"
  shows "\<exists>best' scratch'. subitem_scan f i ms possible best scratch = Ret (best', scratch')
    \<and> length scratch' = length possible
    \<and> best' \<in> insert best (g ` set (selected (drop i possible) ms)) \<and> best \<le> best'
    \<and> (\<forall>m \<in> set (selected (drop i possible) ms). g m \<le> best')
    \<and> (\<forall>j < length possible. scratch' ! j = (if i \<le> j \<and> possible ! j then g (ms ! (j - i)) else scratch ! j))"
  using assms
proof (induction ms arbitrary: i best scratch)
  case (Cons m ms)
  have i: "i < length possible" and drop: "drop i possible = possible ! i # drop (Suc i) possible"
    using Cons.prems(2) by (auto simp: Cons_nth_drop_Suc)
  have shift: "(m # ms) ! (j - i) = ms ! (j - Suc i)" if "Suc i \<le> j" for j
  proof -
    have "j - i = Suc (j - Suc i)"
      using that by simp
    then show ?thesis by simp
  qed
  show ?case
  proof (cases "possible ! i")
    case True
    let ?b = "if g m > best then g m else best" and ?s = "scratch[i := g m]"
    obtain best' scratch' where IH: "subitem_scan f (Suc i) ms possible ?b ?s = Ret (best', scratch')"
      "length scratch' = length possible" "best' \<in> insert ?b (g ` set (selected (drop (Suc i) possible) ms))" "?b \<le> best'"
      "\<forall>m \<in> set (selected (drop (Suc i) possible) ms). g m \<le> best'"
      "\<forall>j < length possible. scratch' ! j = (if Suc i \<le> j \<and> possible ! j then g (ms ! (j - Suc i)) else ?s ! j)"
      using Cons.IH [of "Suc i" ?s ?b] Cons.prems by auto
    have "scratch' ! j = (if i \<le> j \<and> possible ! j then g ((m # ms) ! (j - i)) else scratch ! j)" if "j < length possible" for j
      using IH(6) that True Cons.prems(3) shift [of j] by (cases "j = i") (auto simp: not_less_eq_eq nth_list_update)
    moreover have "subitem_scan f i (m # ms) possible best scratch = Ret (best', scratch')"
      using True Cons.prems(1) IH(1) by simp
    moreover have "best' \<in> insert best (g ` set (selected (drop i possible) (m # ms)))" "best \<le> best'" "g m \<le> best'"
      using IH(3,4) True by (auto simp: drop split: if_splits)
    ultimately show ?thesis
      using IH(2,5) True by (auto simp: drop)
  next
    case False
    obtain best' scratch' where IH: "subitem_scan f (Suc i) ms possible best scratch = Ret (best', scratch')"
      "length scratch' = length possible" "best' \<in> insert best (g ` set (selected (drop (Suc i) possible) ms))" "best \<le> best'"
      "\<forall>m \<in> set (selected (drop (Suc i) possible) ms). g m \<le> best'"
      "\<forall>j < length possible. scratch' ! j = (if Suc i \<le> j \<and> possible ! j then g (ms ! (j - Suc i)) else scratch ! j)"
      using Cons.IH [of "Suc i" scratch best] Cons.prems by auto
    have "scratch' ! j = (if i \<le> j \<and> possible ! j then g ((m # ms) ! (j - i)) else scratch ! j)" if "j < length possible" for j
      using IH(6) that False shift [of j] by (cases "j = i") (auto simp: not_less_eq_eq)
    moreover have "subitem_scan f i (m # ms) possible best scratch = Ret (best', scratch')"
      using False IH(1) by simp
    ultimately show ?thesis
      using IH(2,3,4,5) False by (auto simp: drop)
  qed
qed simp

lemma subitem_trim_nth:
  assumes "length scratch = length possible"
  shows "length (subitem_trim best scratch possible) = length possible
    \<and> (\<forall>j < length possible. subitem_trim best scratch possible ! j
          \<longleftrightarrow> possible ! j \<and> scratch ! j = best \<and> scratch ! j \<noteq> FailedMatch)"
proof -
  let ?step = "\<lambda>ps i. if scratch ! i \<noteq> best \<or> scratch ! i = FailedMatch then ps[i := False] else ps"
  have "length (foldl ?step possible [0..<k]) = length possible
    \<and> (\<forall>j < length possible. foldl ?step possible [0..<k] ! j
        \<longleftrightarrow> possible ! j \<and> (j < k \<longrightarrow> scratch ! j = best \<and> scratch ! j \<noteq> FailedMatch))" for k
    by (induction k) (auto simp: list_update_nth less_Suc_eq)
  from this [of "length scratch"] assms show ?thesis
    by (simp add: subitem_trim_def)
qed

lemma match_subitem_spec:
  assumes f: "\<And>m. m \<in> set keys \<Longrightarrow> f m = Ret (g m)" and len: "length possible = length keys" "length scratch = length keys"
  shows "\<exists>scratch'. match_subitem f keys (scratch, possible)
      = Ret (scratch', map2 (\<lambda>p m. p \<and> g m \<noteq> FailedMatch \<and> (\<forall>y \<in> set (selected possible keys). g y \<le> g m)) possible keys)
    \<and> length scratch' = length keys"
proof -
  obtain best scratch' where scan: "subitem_scan f 0 keys possible FailedMatch scratch = Ret (best, scratch')"
    "length scratch' = length possible" "best \<in> insert FailedMatch (g ` set (selected possible keys))"
    "\<forall>m \<in> set (selected possible keys). g m \<le> best"
    "\<forall>j < length possible. possible ! j \<longrightarrow> scratch' ! j = g (keys ! j)"
    using subitem_scan_spec [of keys f g 0 possible scratch FailedMatch] f len by auto
  have sel: "keys ! j \<in> set (selected possible keys)" if "j < length possible" "possible ! j" for j
    using that len(1) by (force simp: selected_def set_zip)
  have "subitem_trim best scratch' possible
      = map2 (\<lambda>p m. p \<and> g m \<noteq> FailedMatch \<and> (\<forall>y \<in> set (selected possible keys). g y \<le> g m)) possible keys"
  proof (rule nth_equalityI)
    fix j assume "j < length (subitem_trim best scratch' possible)"
    then have j: "j < length possible"
      using subitem_trim_nth [OF scan(2)] by simp
    have "g (keys ! j) \<noteq> FailedMatch \<and> (\<forall>y \<in> set (selected possible keys). g y \<le> g (keys ! j))
        \<longleftrightarrow> g (keys ! j) = best \<and> g (keys ! j) \<noteq> FailedMatch" if "possible ! j"
      using sel [OF j that] scan(3,4) by (metis antisym empty_iff imageE insertE less_eq_match_result.simps(2))
    then show "subitem_trim best scratch' possible ! j
        = map2 (\<lambda>p m. p \<and> g m \<noteq> FailedMatch \<and> (\<forall>y \<in> set (selected possible keys). g y \<le> g m)) possible keys ! j"
      using j len(1) subitem_trim_nth [OF scan(2), of best] scan(5) by auto
  qed (use subitem_trim_nth [OF scan(2)] len in simp)
  then show ?thesis
    using scan(1,2) len by (simp add: match_subitem_def)
qed

lemma run_rounds_spec:
  assumes "list_all2 (\<lambda>f g. \<forall>m \<in> k ` set xs. f m = Ret (g m)) fs gs" "length possible = length xs" "length scratch = length xs"
  shows "\<exists>scratch' possible'. run_rounds fs (map k xs) (scratch, possible) = Ret (scratch', possible')
    \<and> selected possible' xs = survivors (map (\<lambda>g. g \<circ> k) gs) (selected possible xs)"
  using assms
proof (induction fs gs arbitrary: scratch possible rule: list_all2_induct)
  case Nil
  then show ?case by simp
next
  case (Cons f fs g gs)
  let ?P = "\<lambda>m. g m \<noteq> FailedMatch \<and> (\<forall>y \<in> set (selected possible (map k xs)). g y \<le> g m)"
  let ?possible1 = "map2 (\<lambda>p m. p \<and> ?P m) possible (map k xs)"
  obtain scratch1 where one: "match_subitem f (map k xs) (scratch, possible) = Ret (scratch1, ?possible1)"
    "length scratch1 = length (map k xs)"
    using match_subitem_spec [of "map k xs" f g possible scratch] Cons by auto
  have "length ?possible1 = length xs" "length scratch1 = length xs"
    using Cons.prems(1) one(2) by simp_all
  from Cons.IH [OF this] obtain scratch' possible' where
    rest: "run_rounds fs (map k xs) (scratch1, ?possible1) = Ret (scratch', possible')"
      "selected possible' xs = survivors (map (\<lambda>g. g \<circ> k) gs) (selected ?possible1 xs)"
    by blast
  have "selected ?possible1 xs = keep_best (g \<circ> k) (selected possible xs)"
    using Cons.prems(1) selected_filter [of possible xs "?P \<circ> k"]
    by (simp add: zip_map2 case_prod_beta' keep_best_def selected_map o_def)
  with one(1) rest show ?case by (simp add: o_def)
qed

section \<open>Properties of the abstract selection\<close>

text \<open>What survives is lexicographically best in the vector of the scores and fails nowhere.\<close>
lemma set_survivors:
  "set (survivors gs xs) = {x \<in> set xs. (\<forall>g \<in> set gs. g x \<noteq> FailedMatch)
     \<and> (\<forall>y \<in> set xs. map (\<lambda>g. g y) gs \<le> map (\<lambda>g. g x) gs)}"
proof (induction gs arbitrary: xs)
  case (Cons g gs)
  have keep: "set (keep_best g xs) = {x \<in> set xs. g x \<noteq> FailedMatch \<and> (\<forall>y \<in> set xs. g y \<le> g x)}"
    by (auto simp: keep_best_def)
  show ?case
  proof (intro set_eqI iffI)
    fix x assume "x \<in> set (survivors (g # gs) xs)"
    then have x: "x \<in> set xs" "g x \<noteq> FailedMatch" "\<forall>y \<in> set xs. g y \<le> g x" "\<forall>g \<in> set gs. g x \<noteq> FailedMatch"
      "\<forall>y \<in> set (keep_best g xs). map (\<lambda>g. g y) gs \<le> map (\<lambda>g. g x) gs"
      by (auto simp: Cons keep)
    have "map (\<lambda>g. g y) (g # gs) \<le> map (\<lambda>g. g x) (g # gs)" if y: "y \<in> set xs" for y
    proof (cases "g y = g x")
      case True
      then have "y \<in> set (keep_best g xs)"
        using x y by (auto simp: keep)
      with x(5) True show ?thesis by simp
    next
      case False
      with x(3) y show ?thesis by (simp add: less_le)
    qed
    with x show "x \<in> {x \<in> set xs. (\<forall>g \<in> set (g # gs). g x \<noteq> FailedMatch)
        \<and> (\<forall>y \<in> set xs. map (\<lambda>g. g y) (g # gs) \<le> map (\<lambda>g. g x) (g # gs))}"
      by auto
  next
    fix x assume "x \<in> {x \<in> set xs. (\<forall>g \<in> set (g # gs). g x \<noteq> FailedMatch)
        \<and> (\<forall>y \<in> set xs. map (\<lambda>g. g y) (g # gs) \<le> map (\<lambda>g. g x) (g # gs))}"
    then have x: "x \<in> set xs" "g x \<noteq> FailedMatch" "\<forall>g \<in> set gs. g x \<noteq> FailedMatch"
      "\<forall>y \<in> set xs. g y < g x \<or> g y = g x \<and> map (\<lambda>g. g y) gs \<le> map (\<lambda>g. g x) gs"
      by auto
    then have "x \<in> set (keep_best g xs)"
      by (force simp: keep)
    moreover have "map (\<lambda>g. g y) gs \<le> map (\<lambda>g. g x) gs" if "y \<in> set (keep_best g xs)" for y
      using that x by (fastforce simp: keep)
    ultimately show "x \<in> set (survivors (g # gs) xs)"
      using x(3) by (simp add: Cons)
  qed
qed simp

lemma survivors_filter: "\<exists>P. survivors gs xs = filter P xs"
proof (induction gs arbitrary: xs)
  case Nil
  show ?case by (rule exI [of _ "\<lambda>_. True"]) simp
next
  case (Cons g gs)
  obtain P where "survivors gs (keep_best g xs) = filter P (keep_best g xs)"
    using Cons by blast
  then show ?case
    unfolding survivors.simps keep_best_def filter_filter by blast
qed

lemma keep_best_mset:
  assumes "mset xs = mset ys"
  shows "mset (keep_best g xs) = mset (keep_best g ys)"
  by (simp add: keep_best_def mset_eq_setD [OF assms] assms)

lemma survivors_mset: "mset xs = mset ys \<Longrightarrow> mset (survivors gs xs) = mset (survivors gs ys)"
proof (induction gs arbitrary: xs ys)
  case (Cons g gs)
  show ?case
    unfolding survivors.simps by (rule Cons.IH [OF keep_best_mset [OF Cons.prems]])
qed simp

lemma pick_one_mset:
  assumes "mset xs = mset ys"
  shows "pick_one xs = pick_one ys"
proof -
  have "length xs = length ys"
    using assms by (rule mset_eq_length)
  with assms show ?thesis
    by (cases xs rule: remdups_adj.cases; cases ys rule: remdups_adj.cases) (simp_all add: pick_one_def)
qed

lemma pick_one_map: "pick_one (map f xs) = map_sum id (map_option f) (pick_one xs)"
  by (cases xs rule: remdups_adj.cases) (simp_all add: pick_one_def)

lemma pick_one_set:
  assumes "distinct xs"
  shows "pick_one xs = Inr None \<longleftrightarrow> set xs = {}" "pick_one xs = Inr (Some x) \<longleftrightarrow> set xs = {x}"
  using assms by (cases xs rule: remdups_adj.cases; auto simp: pick_one_def)+

lemma pick_survivor_selected: "pick_survivor possible entries = pick_one (map snd (selected possible entries))"
proof -
  have "map (\<lambda>(_, item). snd item) (filter fst (zip possible entries)) = map snd (selected possible entries)"
    by (simp add: selected_def case_prod_beta' o_def)
  then show ?thesis
    by (simp only: pick_survivor_def pick_one_def)
qed

section \<open>Scores\<close>

text \<open>Criteria whose subdomain patterns are not empty; \<open>ServerNameMatch::from_str\<close> produces no other.\<close>
definition wf_server_names :: "'n filter_chain_match \<Rightarrow> bool" where
  "wf_server_names m \<longleftrightarrow> (\<forall>nm \<in> set (server_names m). match_subdomains nm \<longrightarrow> snm_name nm \<noteq> [])"

definition server_name_value :: "'n filter_chain_match \<Rightarrow> str \<Rightarrow> match_result" where
  "server_name_value m sn = (case matches_server_name m sn of Ret r \<Rightarrow> r | Panic \<Rightarrow> FailedMatch)"

definition score_vector ::
  "('n \<Rightarrow> ip_addr \<Rightarrow> bool) \<Rightarrow> ('n \<Rightarrow> u8) \<Rightarrow> socket_addr \<Rightarrow> socket_addr \<Rightarrow> str option \<Rightarrow> detected_transport_protocol
     \<Rightarrow> 'n filter_chain_match \<Rightarrow> match_result list" where
  "score_vector contains prefix_len source_addr destination_addr server_name detected m =
     [matches_destination_port m (sa_port destination_addr),
      matches_destination_ip contains prefix_len m (sa_ip destination_addr),
      server_name_value m (case server_name of Some s \<Rightarrow> s | None \<Rightarrow> ''''),
      matches_detected_transport_protocol m detected,
      matches_source_ip contains prefix_len m (sa_ip source_addr),
      matches_source_port m (sa_port source_addr)]"

text \<open>The entries with the lexicographically greatest vector of scores, none of them a failure.\<close>
definition best_chains ::
  "('n \<Rightarrow> ip_addr \<Rightarrow> bool) \<Rightarrow> ('n \<Rightarrow> u8) \<Rightarrow> socket_addr \<Rightarrow> socket_addr \<Rightarrow> str option \<Rightarrow> detected_transport_protocol
     \<Rightarrow> ('n filter_chain_match \<times> 'c) list \<Rightarrow> ('n filter_chain_match \<times> 'c) set" where
  "best_chains contains prefix_len src dst sn det entries =
     {e \<in> set entries. FailedMatch \<notin> set (score_vector contains prefix_len src dst sn det (fst e))
        \<and> (\<forall>e' \<in> set entries. score_vector contains prefix_len src dst sn det (fst e')
             \<le> score_vector contains prefix_len src dst sn det (fst e))}"

lemma usize_sub_exact:
  assumes "b \<le> a" "a < 2 ^ 64"
  shows "usize_sub a b = a - b"
proof -
  have diff: "int a - int b = int (a - b)"
    using assms(1) by linarith
  have "a - b < 2 ^ 64"
    using assms(2) by (rule le_less_trans [OF diff_le_self])
  then have "int (a - b) < 2 ^ 64"
    by (metis of_nat_less_iff of_nat_numeral of_nat_power)
  then have "int (a - b) mod 2 ^ 64 = int (a - b)"
    by (intro mod_pos_pos_trivial) auto
  then show ?thesis
    unfolding usize_sub_def diff by (simp only: nat_int)
qed

lemma server_name_score_returns:
  assumes "is_ascii sn" "length sn < 2 ^ 64" "match_subdomains nm \<longrightarrow> snm_name nm \<noteq> []"
  shows "\<exists>r. server_name_score nm sn = Ret r"
proof (cases "match_subdomains nm \<and> ends_with sn (snm_name nm)")
  case True
  then have n: "1 \<le> length (snm_name nm)" "length (snm_name nm) \<le> length sn"
    using assms(3) by (auto simp: ends_with_iff Suc_le_eq)
  have "usize_sub (length (snm_name nm)) 1 = length (snm_name nm) - 1"
    using n assms(2) by (intro usize_sub_exact) linarith+
  moreover have "usize_sub (length sn) (length (snm_name nm) - 1) = length sn - (length (snm_name nm) - 1)"
    using n assms(2) by (intro usize_sub_exact) linarith+
  ultimately show ?thesis
    using True assms(1) by (simp add: server_name_score_def slice_ascii Let_def)
qed (auto simp: server_name_score_def)

lemma matches_server_name_value:
  assumes "is_ascii sn" "length sn < 2 ^ 64" "wf_server_names m"
  shows "matches_server_name m sn = Ret (server_name_value m sn)"
proof -
  obtain ys where "mapListP (\<lambda>nm. server_name_score nm sn) (server_names m) = Ret ys"
    using mapListP_Ret [of "server_names m" "\<lambda>nm. server_name_score nm sn"] server_name_score_returns [OF assms(1,2)] assms(3)
    by (auto simp: wf_server_names_def)
  then show ?thesis
    by (simp add: server_name_value_def matches_server_name_def)
qed

lemma select_filterchain_survivors:
  assumes "pred_option (\<lambda>s. is_ascii s \<and> length s < 2 ^ 64) sn" "\<forall>m \<in> fst ` set entries. wf_server_names m"
  shows "select_filterchain contains prefix_len entries src dst sn det
    = Ret (pick_one (map snd (survivors
        (map (\<lambda>i e. score_vector contains prefix_len src dst sn det (fst e) ! i) [0..<6]) entries)))"
proof -
  let ?name = "case sn of Some s \<Rightarrow> s | None \<Rightarrow> ''''"
  let ?gs = "[\<lambda>m. matches_destination_port m (sa_port dst), \<lambda>m. matches_destination_ip contains prefix_len m (sa_ip dst),
      \<lambda>m. server_name_value m ?name, \<lambda>m. matches_detected_transport_protocol m det,
      \<lambda>m. matches_source_ip contains prefix_len m (sa_ip src), \<lambda>m. matches_source_port m (sa_port src)]"
  have name: "is_ascii ?name" "length ?name < 2 ^ 64"
    using assms(1) by (auto simp: is_ascii_def split: option.split)
  have "list_all2 (\<lambda>f g. \<forall>m \<in> fst ` set entries. f m = Ret (g m)) (criteria contains prefix_len src dst sn det) ?gs"
    using matches_server_name_value [OF name] assms(2) by (auto simp: criteria_def)
  then have "\<exists>scratch' possible'. run_rounds (criteria contains prefix_len src dst sn det) (map fst entries)
       (replicate (length entries) NoRule, replicate (length entries) True) = Ret (scratch', possible')
    \<and> selected possible' entries = survivors (map (\<lambda>g. g \<circ> fst) ?gs) (selected (replicate (length entries) True) entries)"
    by (rule run_rounds_spec) simp_all
  then obtain scratch' possible' where run: "run_rounds (criteria contains prefix_len src dst sn det) (map fst entries)
       (replicate (length entries) NoRule, replicate (length entries) True) = Ret (scratch', possible')"
    "selected possible' entries = survivors (map (\<lambda>g. g \<circ> fst) ?gs) entries"
    unfolding selected_all by blast
  have gs: "map (\<lambda>g. g \<circ> fst) ?gs = map (\<lambda>i e. score_vector contains prefix_len src dst sn det (fst e) ! i) [0..<6]"
    by (simp add: score_vector_def upt_rec numeral_eq_Suc o_def)
  have "select_filterchain contains prefix_len entries src dst sn det = Ret (pick_one (map snd (selected possible' entries)))"
    using run(1) by (simp add: select_filterchain_def pick_survivor_selected Let_def)
  then show ?thesis
    unfolding run(2) gs .
qed

lemma set_survivors_best:
  "set (survivors (map (\<lambda>i e. score_vector contains prefix_len src dst sn det (fst e) ! i) [0..<6]) entries)
    = best_chains contains prefix_len src dst sn det entries"
proof -
  define gs :: "('a filter_chain_match \<times> 'b \<Rightarrow> match_result) list" where
    "gs = map (\<lambda>i e. score_vector contains prefix_len src dst sn det (fst e) ! i) [0..<6]"
  have vec: "map (\<lambda>g. g e) gs = score_vector contains prefix_len src dst sn det (fst e)" for e
    by (simp add: gs_def score_vector_def upt_rec numeral_eq_Suc)
  have fail: "(\<forall>g \<in> set gs. g e \<noteq> FailedMatch) \<longleftrightarrow> FailedMatch \<notin> set (score_vector contains prefix_len src dst sn det (fst e))" for e
  proof -
    have "(\<forall>g \<in> set gs. g e \<noteq> FailedMatch) \<longleftrightarrow> FailedMatch \<notin> set (map (\<lambda>g. g e) gs)"
      by (simp add: image_iff) metis
    then show ?thesis
      by (simp only: vec)
  qed
  show ?thesis
    unfolding gs_def [symmetric] set_survivors vec fail best_chains_def by simp
qed


lemma best_chains_two:
  assumes "score_vector contains prefix_len src dst sn det m2 < score_vector contains prefix_len src dst sn det m1"
    and "FailedMatch \<notin> set (score_vector contains prefix_len src dst sn det m1)"
  shows "best_chains contains prefix_len src dst sn det [(m1, c1), (m2, c2)] = {(m1, c1)}"
  using assms by (auto simp: best_chains_def)

section \<open>Properties\<close>

text \<open>C3: \<open>select_filterchain\<close> chooses the chain whose criteria match the connection best,
  comparing destination port, destination address, server name, transport protocol, source address
  and source port in this order, more specific first; a chain with a failing criterion is never
  chosen, no chain is chosen exactly when the best vector contains a failure (or there is no
  chain), and the error is returned exactly when several chains share the best vector.\<close>
theorem select_filterchain_most_specific:
  assumes "pred_option (\<lambda>s. is_ascii s \<and> length s < 2 ^ 64) sn" and "\<forall>m \<in> fst ` set entries. wf_server_names m"
    and "distinct (map fst entries)"
  shows "\<exists>res. select_filterchain contains prefix_len entries src dst sn det = Ret res
    \<and> (res = Inr None \<longleftrightarrow> best_chains contains prefix_len src dst sn det entries = {})
    \<and> (\<forall>c. res = Inr (Some c) \<longleftrightarrow> (\<exists>m. best_chains contains prefix_len src dst sn det entries = {(m, c)}))
    \<and> (res = Inl () \<longleftrightarrow> (\<exists>e e'. e \<noteq> e' \<and> {e, e'} \<subseteq> best_chains contains prefix_len src dst sn det entries))"
proof -
  let ?xs = "survivors (map (\<lambda>i e. score_vector contains prefix_len src dst sn det (fst e) ! i) [0..<6]) entries"
  let ?best = "best_chains contains prefix_len src dst sn det entries"
  have "distinct entries"
    using assms(3) by (simp add: distinct_map)
  then have dist: "distinct ?xs"
    using survivors_filter [of _ entries] by (metis distinct_filter)
  have set: "set ?xs = ?best"
    by (rule set_survivors_best)
  have sel: "select_filterchain contains prefix_len entries src dst sn det = Ret (pick_one (map snd ?xs))"
    using assms(1,2) by (rule select_filterchain_survivors)
  show ?thesis
  proof (cases ?xs rule: remdups_adj.cases)
    case 1
    with set have "?best = {}" by simp
    with sel 1 show ?thesis
      by (intro exI [of _ "Inr None"]) (simp add: pick_one_def)
  next
    case (2 e)
    with set have best: "?best = {e}" by simp
    show ?thesis
      using sel unfolding 2 best
      by (intro exI [of _ "Inr (Some (snd e))"]) (cases e, auto simp: pick_one_def)
  next
    case (3 e e' es)
    with set dist have best: "?best = insert e (insert e' (set es))" "e \<noteq> e'"
      by auto
    have two: "\<exists>x x'. x \<noteq> x' \<and> {x, x'} \<subseteq> ?best"
      using best by blast
    have "?best \<noteq> {}" "\<nexists>m. ?best = {(m, c)}" for c
      using best by auto
    with two show ?thesis
      using sel unfolding 3 by (intro exI [of _ "Inl ()"] conjI) (simp_all add: pick_one_def)
  qed
qed

theorem select_filterchain_most_specific_witness:
  "select_filterchain (\<lambda>(_ :: unit) _. True) (\<lambda>_. 8)
     [(\<lparr>destination_port = Some 443, destination_prefix_ranges = [], server_names = [], source_prefix_ranges = [],
        source_ports = [], transport_protocol = [], application_protocols = []\<rparr>, 1 :: nat),
      (\<lparr>destination_port = None, destination_prefix_ranges = [], server_names = [], source_prefix_ranges = [],
        source_ports = [], transport_protocol = [], application_protocols = []\<rparr>, 2)]
     \<lparr>sa_ip = V4 1, sa_port = 9\<rparr> \<lparr>sa_ip = V4 2, sa_port = 443\<rparr> None RawBuffer = Ret (Inr (Some 1))"
  (is "select_filterchain ?c ?p ?es ?s ?d None RawBuffer = _")
proof -
  have best: "best_chains ?c ?p ?s ?d None RawBuffer ?es = {hd ?es}"
    unfolding list.sel
    by (rule best_chains_two)
      (simp_all add: score_vector_def matches_destination_port_def matches_destination_ip_def
        matches_prefix_ranges_def max_or_norule_def server_name_value_def matches_server_name_def
        matches_detected_transport_protocol_def matches_source_ip_def matches_source_port_def less_match_result_def)
  have hyps: "pred_option (\<lambda>s. is_ascii s \<and> length s < 2 ^ 64) None" "\<forall>m \<in> fst ` set ?es. wf_server_names m" "distinct (map fst ?es)"
    by (simp_all add: wf_server_names_def)
  obtain res where res: "select_filterchain ?c ?p ?es ?s ?d None RawBuffer = Ret res"
    "\<forall>c. res = Inr (Some c) \<longleftrightarrow> (\<exists>m. {hd ?es} = {(m, c)})"
    using select_filterchain_most_specific [OF hyps, of ?c ?p ?s ?d RawBuffer] unfolding best by blast
  have "\<exists>m. {hd ?es} = {(m, 1)}"
    by simp
  with res(2) have "res = Inr (Some 1)"
    by blast
  with res(1) show ?thesis
    by (simp only:)
qed

text \<open>C13: the choice does not depend on the iteration order of the \<open>HashMap\<close> of chains.\<close>
theorem select_filterchain_order_independent:
  assumes "mset entries = mset entries'" and "pred_option (\<lambda>s. is_ascii s \<and> length s < 2 ^ 64) sn"
    and "\<forall>m \<in> fst ` set entries. wf_server_names m"
  shows "select_filterchain contains prefix_len entries src dst sn det
    = select_filterchain contains prefix_len entries' src dst sn det"
proof -
  have "\<forall>m \<in> fst ` set entries'. wf_server_names m"
    using assms(3) mset_eq_setD [OF assms(1)] by simp
  moreover have "pick_one (map snd (survivors gs entries)) = pick_one (map snd (survivors gs entries'))" for gs
    by (rule pick_one_mset) (simp add: survivors_mset [OF assms(1)])
  ultimately show ?thesis
    using assms(2,3) by (simp only: select_filterchain_survivors)
qed

theorem select_filterchain_order_independent_witness:
  "select_filterchain (\<lambda>(_ :: unit) _. True) (\<lambda>_. 8)
     [(\<lparr>destination_port = Some 443, destination_prefix_ranges = [()], server_names = [], source_prefix_ranges = [],
        source_ports = [], transport_protocol = [], application_protocols = []\<rparr>, 1 :: nat),
      (\<lparr>destination_port = None, destination_prefix_ranges = [], server_names = [], source_prefix_ranges = [],
        source_ports = [], transport_protocol = [], application_protocols = []\<rparr>, 2)]
     \<lparr>sa_ip = V4 1, sa_port = 9\<rparr> \<lparr>sa_ip = V4 2, sa_port = 443\<rparr> (Some ''a.b'') Ssl
   = select_filterchain (\<lambda>(_ :: unit) _. True) (\<lambda>_. 8)
     [(\<lparr>destination_port = None, destination_prefix_ranges = [], server_names = [], source_prefix_ranges = [],
        source_ports = [], transport_protocol = [], application_protocols = []\<rparr>, 2),
      (\<lparr>destination_port = Some 443, destination_prefix_ranges = [()], server_names = [], source_prefix_ranges = [],
        source_ports = [], transport_protocol = [], application_protocols = []\<rparr>, 1 :: nat)]
     \<lparr>sa_ip = V4 1, sa_port = 9\<rparr> \<lparr>sa_ip = V4 2, sa_port = 443\<rparr> (Some ''a.b'') Ssl"
  by (rule select_filterchain_order_independent) (simp_all add: wf_server_names_def is_ascii_def is_ascii_byte_def)

text \<open>The application protocols of a chain's criteria are never consulted: two chains that
  differ only there make every connection they match fail with the error for multiple matches.\<close>
theorem application_protocols_ignored:
  assumes "m1 = m\<lparr>application_protocols := ps1\<rparr>" and "m2 = m\<lparr>application_protocols := ps2\<rparr>" and "ps1 \<noteq> ps2"
    and "pred_option (\<lambda>s. is_ascii s \<and> length s < 2 ^ 64) sn" and "wf_server_names m"
    and "FailedMatch \<notin> set (score_vector contains prefix_len src dst sn det m)"
  shows "select_filterchain contains prefix_len [(m1, c1), (m2, c2)] src dst sn det = Ret (Inl ())"
proof -
  have "score_vector contains prefix_len src dst sn det m1 = score_vector contains prefix_len src dst sn det m"
    "score_vector contains prefix_len src dst sn det m2 = score_vector contains prefix_len src dst sn det m"
    by (simp_all add: assms(1,2) score_vector_def matches_destination_port_def matches_destination_ip_def server_name_value_def
        matches_server_name_def matches_detected_transport_protocol_def matches_source_ip_def matches_source_port_def)
  then have eq: "score_vector contains prefix_len src dst sn det m1 ! i = score_vector contains prefix_len src dst sn det m ! i"
    "score_vector contains prefix_len src dst sn det m2 ! i = score_vector contains prefix_len src dst sn det m ! i" for i
    by simp_all
  have nf: "score_vector contains prefix_len src dst sn det m ! i \<noteq> FailedMatch" if "i < 6" for i
    using assms(6) that nth_mem [of i "score_vector contains prefix_len src dst sn det m"] by (auto simp: score_vector_def)
  have "survivors (map (\<lambda>i e. score_vector contains prefix_len src dst sn det (fst e) ! i) is) [(m1, c1), (m2, c2)]
      = [(m1, c1), (m2, c2)]" if "\<forall>i \<in> set is. i < 6" for "is"
    using that by (induction "is") (auto simp: keep_best_def eq nf)
  from this [of "[0..<6]"] show ?thesis
    using select_filterchain_survivors [of sn "[(m1, c1), (m2, c2)]"] assms(1,2,4,5)
    by (simp add: wf_server_names_def pick_one_def)
qed

theorem application_protocols_ignored_witness:
  "select_filterchain (\<lambda>(_ :: unit) _. True) (\<lambda>_. 8)
     [(\<lparr>destination_port = None, destination_prefix_ranges = [], server_names = [], source_prefix_ranges = [],
        source_ports = [], transport_protocol = [], application_protocols = [''h2'']\<rparr>, 1 :: nat),
      (\<lparr>destination_port = None, destination_prefix_ranges = [], server_names = [], source_prefix_ranges = [],
        source_ports = [], transport_protocol = [], application_protocols = [''http/1.1'']\<rparr>, 2)]
     \<lparr>sa_ip = V4 1, sa_port = 9\<rparr> \<lparr>sa_ip = V4 2, sa_port = 443\<rparr> None Ssl = Ret (Inl ())"
  by (rule application_protocols_ignored [where m = "\<lparr>destination_port = None, destination_prefix_ranges = [], server_names = [],
        source_prefix_ranges = [], source_ports = [], transport_protocol = [], application_protocols = []\<rparr>"
      and ?ps1.0 = "[''h2'']" and ?ps2.0 = "[''http/1.1'']"])
    (simp_all add: wf_server_names_def score_vector_def matches_destination_port_def matches_destination_ip_def
      matches_prefix_ranges_def max_or_norule_def server_name_value_def matches_server_name_def
      matches_detected_transport_protocol_def matches_source_ip_def matches_source_port_def)

end
