(* ===== verification/Str_Matching.thy ===== *)
theory Str_Matching
  imports Orion_Prelude
begin

text \<open>
  String matching of the configuration layer: \<open>CaseSensitive\<close> and \<open>StringMatcher\<close>
  (\<open>orion-configuration/src/config/core.rs\<close>) and the full-match extension of \<open>Regex\<close>
  (\<open>common.rs\<close>).

  The regular expression engine is the crate \<open>regex\<close>: a value of type \<open>'r\<close> whose only use is
  \<open>find_at\<close>, an argument of the definitions that returns the bounds of the leftmost match.
  The case-insensitive branches slice the subject by the byte length of the pattern; the result
  type \<^typ>\<open>bool outcome\<close> keeps the panic of a slice inside a code point.
\<close>

datatype 'r string_matcher_pattern =
  Exact str | Prefix str | Suffix str | Contains str | Regex 'r

record 'r string_matcher =
  ignore_case :: bool
  pattern :: "'r string_matcher_pattern"

type_synonym 'r regex_find_at = "'r \<Rightarrow> str \<Rightarrow> nat \<Rightarrow> (nat \<times> nat) option"

definition matches_full :: "'r regex_find_at \<Rightarrow> 'r \<Rightarrow> str \<Rightarrow> bool" where
  "matches_full find_at r to_match \<longleftrightarrow>
     Some (length to_match) = map_option (\<lambda>(s, e). e - s) (find_at r to_match 0)"

text \<open>\<open>CaseSensitive(case, s)\<close>: the pair of the flag and the subject.\<close>
definition cs_equals :: "bool \<times> str \<Rightarrow> str \<Rightarrow> bool" where
  "cs_equals cs b = (if fst cs then snd cs = b else eq_ignore_ascii_case (snd cs) b)"

definition cs_starts_with :: "bool \<times> str \<Rightarrow> str \<Rightarrow> bool outcome" where
  "cs_starts_with cs prefix =
     (if fst cs then Ret (starts_with (snd cs) prefix)
      else andP (Ret (length prefix \<le> length (snd cs)))
                (mapP (eq_ignore_ascii_case prefix) (slice (snd cs) 0 (length prefix))))"

definition cs_ends_with :: "bool \<times> str \<Rightarrow> str \<Rightarrow> bool outcome" where
  "cs_ends_with cs suffix =
     (if fst cs then Ret (ends_with (snd cs) suffix)
      else let slen = length suffix in
        andP (Ret (slen \<le> length (snd cs)))
             (mapP (eq_ignore_ascii_case suffix) (slice (snd cs) (length (snd cs) - slen) (length (snd cs)))))"

text \<open>The \<open>for i in 0..=(len - needle.len())\<close> loop of \<open>find\<close>.\<close>
fun cs_find_loop :: "str \<Rightarrow> str \<Rightarrow> nat list \<Rightarrow> nat option outcome" where
  "cs_find_loop s needle [] = Ret None"
| "cs_find_loop s needle (i # is) =
     bindP (slice s i (i + length needle))
       (\<lambda>part. if eq_ignore_ascii_case part needle then Ret (Some i) else cs_find_loop s needle is)"

definition cs_find :: "bool \<times> str \<Rightarrow> str \<Rightarrow> nat option outcome" where
  "cs_find cs needle =
     (if fst cs then Ret (str_find (snd cs) needle)
      else if length needle \<le> length (snd cs)
      then cs_find_loop (snd cs) needle [0..<Suc (length (snd cs) - length needle)]
      else Ret None)"

definition cs_contains :: "bool \<times> str \<Rightarrow> str \<Rightarrow> bool outcome" where
  "cs_contains cs needle = mapP (\<lambda>r. r \<noteq> None) (cs_find cs needle)"

definition string_matches :: "'r regex_find_at \<Rightarrow> 'r string_matcher \<Rightarrow> str \<Rightarrow> bool outcome" where
  "string_matches find_at m to_match =
     (let casematcher = (\<not> ignore_case m, to_match) in
      case pattern m of
        Exact s \<Rightarrow> Ret (cs_equals casematcher s)
      | Prefix prefix \<Rightarrow> cs_starts_with casematcher prefix
      | Suffix suffix \<Rightarrow> cs_ends_with casematcher suffix
      | Contains needle \<Rightarrow> cs_contains casematcher needle
      | Regex r \<Rightarrow> Ret (matches_full find_at r to_match))"

text \<open>\<open>PartialEq for StringMatcherPattern\<close>: regular expressions compare by their source text.\<close>
fun pattern_eq :: "('r \<Rightarrow> str) \<Rightarrow> 'r string_matcher_pattern \<Rightarrow> 'r string_matcher_pattern \<Rightarrow> bool" where
  "pattern_eq as_str (Regex r1) (Regex r2) = (as_str r1 = as_str r2)"
| "pattern_eq as_str (Exact s1) (Exact s2) = (s1 = s2)"
| "pattern_eq as_str (Prefix s1) (Prefix s2) = (s1 = s2)"
| "pattern_eq as_str (Suffix s1) (Suffix s2) = (s1 = s2)"
| "pattern_eq as_str (Contains s1) (Contains s2) = (s1 = s2)"
| "pattern_eq as_str _ _ = False"

section \<open>Reference semantics\<close>

definition fold_case :: "bool \<Rightarrow> str \<Rightarrow> str" where
  "fold_case ignore s = (if ignore then to_ascii_lowercase s else s)"

text \<open>The decision as a relation between whole strings.  For a regular expression it is the one the code makes: the
  match the search returns spans the subject; \<open>string_matches_correct\<close> relates it to the language of the expression.\<close>
definition string_matcher_spec :: "'r regex_find_at \<Rightarrow> 'r string_matcher \<Rightarrow> str \<Rightarrow> bool" where
  "string_matcher_spec find_at m s =
     (let f = fold_case (ignore_case m) in
      case pattern m of
        Exact p \<Rightarrow> f s = f p
      | Prefix p \<Rightarrow> (\<exists>r. f s = f p @ r)
      | Suffix p \<Rightarrow> (\<exists>r. f s = r @ f p)
      | Contains p \<Rightarrow> (\<exists>a b. f s = a @ f p @ b)
      | Regex r \<Rightarrow> find_at r s 0 = Some (0, length s))"

text \<open>Documented behaviour of \<open>Regex::find_at\<close>: a match lies within the subject.\<close>
definition regex_laws :: "'r regex_find_at \<Rightarrow> bool" where
  "regex_laws find_at \<longleftrightarrow> (\<forall>r s i a b. find_at r s i = Some (a, b) \<longrightarrow> i \<le> a \<and> a \<le> b \<and> b \<le> length s)"

text \<open>The language of an expression, as the relation \<open>m r s a b\<close>: the expression matches the bytes of \<open>s\<close> from \<open>a\<close> to \<open>b\<close>.
  Documented behaviour of the search: it returns a match that starts at or after the given position, none starts
  further to the left, and it returns none only when there is none.  Which of several matches with the same start it
  returns is not fixed here (the crate prefers the alternative written first).\<close>
type_synonym 'r regex_relation = "'r \<Rightarrow> str \<Rightarrow> nat \<Rightarrow> nat \<Rightarrow> bool"

definition regex_search_laws :: "'r regex_find_at \<Rightarrow> 'r regex_relation \<Rightarrow> bool" where
  "regex_search_laws find_at m \<longleftrightarrow>
     (\<forall>r s a b. m r s a b \<longrightarrow> a \<le> b \<and> b \<le> length s) \<and>
     (\<forall>r s i. case find_at r s i of
        None \<Rightarrow> \<forall>a b. m r s a b \<longrightarrow> a < i
      | Some (a, b) \<Rightarrow> i \<le> a \<and> m r s a b \<and> (\<forall>a' b'. m r s a' b' \<longrightarrow> i \<le> a' \<longrightarrow> a \<le> a'))"

text \<open>What a matcher is documented to accept: a regular expression has to match the whole subject.\<close>
definition documented_match :: "'r regex_relation \<Rightarrow> 'r string_matcher \<Rightarrow> str \<Rightarrow> bool" where
  "documented_match rel m s =
     (let f = fold_case (ignore_case m) in
      case pattern m of
        Exact p \<Rightarrow> f s = f p
      | Prefix p \<Rightarrow> (\<exists>r. f s = f p @ r)
      | Suffix p \<Rightarrow> (\<exists>r. f s = r @ f p)
      | Contains p \<Rightarrow> (\<exists>a b. f s = a @ f p @ b)
      | Regex r \<Rightarrow> rel r s 0 (length s))"

text \<open>No match of a regular expression at the start of the subject is shorter than the subject.\<close>
definition no_shorter_match :: "'r regex_relation \<Rightarrow> 'r string_matcher \<Rightarrow> str \<Rightarrow> bool" where
  "no_shorter_match rel m s = (case pattern m of Regex r \<Rightarrow> (\<forall>b. rel r s 0 b \<longrightarrow> b = length s) | _ \<Rightarrow> True)"

section \<open>Lemmas\<close>

lemma length_fold_case [simp]: "length (fold_case i s) = length s"
  by (simp add: fold_case_def)

lemma cs_equals_iff: "cs_equals (\<not> i, s) b \<longleftrightarrow> fold_case i s = fold_case i b"
  by (simp add: cs_equals_def fold_case_def eq_ignore_ascii_case_def)

lemma eq_append_exists_take: "(\<exists>r. s = p @ r) \<longleftrightarrow> length p \<le> length s \<and> take (length p) s = p"
  by (metis append_eq_conv_conj append_take_drop_id length_append le_add1)

lemma eq_append_exists_drop: "(\<exists>r. s = r @ p) \<longleftrightarrow> length p \<le> length s \<and> drop (length s - length p) s = p"
  by (metis append_eq_conv_conj append_take_drop_id diff_add_inverse2 le_add2 length_append)

lemma cs_starts_with_ascii [panic_simps]:
  assumes "is_ascii s"
  shows "cs_starts_with (\<not> i, s) p = Ret (\<exists>r. fold_case i s = fold_case i p @ r)"
proof (cases i)
  case True
  have "take (length p) (to_ascii_lowercase s) = to_ascii_lowercase p
      \<longleftrightarrow> to_ascii_lowercase p = to_ascii_lowercase (take (length p) s)"
    by (auto simp: to_ascii_lowercase_take)
  with assms True show ?thesis
    by (cases "length p \<le> length s")
      (auto simp: cs_starts_with_def fold_case_def slice_ascii eq_append_exists_take eq_ignore_ascii_case_def andP_def)
qed (simp add: cs_starts_with_def fold_case_def starts_with_iff)

lemma cs_ends_with_ascii [panic_simps]:
  assumes "is_ascii s"
  shows "cs_ends_with (\<not> i, s) p = Ret (\<exists>r. fold_case i s = r @ fold_case i p)"
proof (cases i)
  case True
  have "drop (length s - length p) (to_ascii_lowercase s) = to_ascii_lowercase p
      \<longleftrightarrow> to_ascii_lowercase p = to_ascii_lowercase (drop (length s - length p) s)"
    by (auto simp: to_ascii_lowercase_drop)
  with assms True show ?thesis
    by (cases "length p \<le> length s")
      (auto simp: cs_ends_with_def fold_case_def slice_ascii eq_append_exists_drop eq_ignore_ascii_case_def andP_def)
qed (simp add: cs_ends_with_def fold_case_def ends_with_iff)

lemma cs_find_loop_ascii:
  assumes "is_ascii s" "\<forall>i \<in> set is. i + length p \<le> length s"
  shows "\<exists>r. cs_find_loop s p is = Ret r
    \<and> (r \<noteq> None \<longleftrightarrow> (\<exists>i \<in> set is. take (length p) (drop i (to_ascii_lowercase s)) = to_ascii_lowercase p))"
  using assms
  by (induction "is")
    (auto simp: slice_ascii eq_ignore_ascii_case_def to_ascii_lowercase_take to_ascii_lowercase_drop)

lemma contains_iff_index:
  "(\<exists>a b. s = a @ p @ b) \<longleftrightarrow> (\<exists>i. i + length p \<le> length s \<and> take (length p) (drop i s) = p)"
proof
  assume "\<exists>a b. s = a @ p @ b"
  then obtain a b where "s = a @ p @ b" by blast
  then have "length a + length p \<le> length s \<and> take (length p) (drop (length a) s) = p"
    by simp
  then show "\<exists>i. i + length p \<le> length s \<and> take (length p) (drop i s) = p" ..
next
  assume "\<exists>i. i + length p \<le> length s \<and> take (length p) (drop i s) = p"
  then obtain i where "take (length p) (drop i s) = p" by blast
  then have "s = take i s @ p @ drop (length p) (drop i s)"
    by (metis append_take_drop_id)
  then show "\<exists>a b. s = a @ p @ b" by blast
qed

lemma cs_contains_ascii [panic_simps]:
  assumes "is_ascii s"
  shows "cs_contains (\<not> i, s) p = Ret (\<exists>a b. fold_case i s = a @ fold_case i p @ b)"
proof (cases i)
  case True
  have "cs_contains (\<not> i, s) p = Ret (\<exists>j. j + length p \<le> length s \<and> take (length p) (drop j (to_ascii_lowercase s)) = to_ascii_lowercase p)"
  proof (cases "length p \<le> length s")
    case le: True
    define js where "js = [0..<Suc (length s - length p)]"
    have mem: "j \<in> set js \<longleftrightarrow> j + length p \<le> length s" for j
      using le by (auto simp: js_def)
    then obtain r where r: "cs_find_loop s p js = Ret r"
      "r \<noteq> None \<longleftrightarrow> (\<exists>j \<in> set js. take (length p) (drop j (to_ascii_lowercase s)) = to_ascii_lowercase p)"
      using cs_find_loop_ascii [OF assms, of js p] by blast
    have "cs_contains (\<not> i, s) p = Ret (r \<noteq> None)"
      using True le r(1) by (simp add: cs_contains_def cs_find_def flip: js_def del: upt_Suc)
    then show ?thesis
      unfolding r(2) by (simp only: Bex_def mem)
  qed (use True in \<open>auto simp: cs_contains_def cs_find_def\<close>)
  then show ?thesis
    using True by (simp add: fold_case_def contains_iff_index)
next
  case False
  have "(str_find s p \<noteq> None) \<longleftrightarrow> (\<exists>a b. s = a @ p @ b)"
  proof (induction s)
    case (Cons c s)
    have "(\<exists>a b. c # s = a @ p @ b) \<longleftrightarrow> starts_with (c # s) p \<or> (\<exists>a b. s = a @ p @ b)"
      by (metis Cons_eq_append_conv append_Cons append_Nil starts_with_iff)
    with Cons show ?case by auto
  qed auto
  with False show ?thesis
    by (simp add: cs_contains_def cs_find_def fold_case_def)
qed

lemma matches_full_iff:
  assumes "regex_laws find_at"
  shows "matches_full find_at r s \<longleftrightarrow> find_at r s 0 = Some (0, length s)"
proof
  assume "matches_full find_at r s"
  then obtain a b where f: "find_at r s 0 = Some (a, b)" "b - a = length s"
    by (cases "find_at r s 0") (auto simp: matches_full_def)
  with assms have "a \<le> b" "b \<le> length s"
    unfolding regex_laws_def by blast+
  with f show "find_at r s 0 = Some (0, length s)"
    by auto
qed (simp add: matches_full_def)

lemma regex_search_laws_bounds:
  assumes "regex_search_laws find_at rel"
  shows "regex_laws find_at"
  unfolding regex_laws_def
proof (intro allI impI)
  fix r s i a b
  assume found: "find_at r s i = Some (a, b)"
  have "i \<le> a" "rel r s a b"
    using assms [unfolded regex_search_laws_def, THEN conjunct2, THEN spec [of _ r], THEN spec [of _ s], THEN spec [of _ i]] found
    by simp_all
  moreover from this have "a \<le> b" "b \<le> length s"
    using assms [unfolded regex_search_laws_def, THEN conjunct1] by blast+
  ultimately show "i \<le> a \<and> a \<le> b \<and> b \<le> length s" by blast
qed

lemma regex_search_whole:
  assumes "regex_search_laws find_at rel"
  shows "find_at r s 0 = Some (0, length s) \<longrightarrow> rel r s 0 (length s)"
    and "rel r s 0 (length s) \<longrightarrow> (\<forall>b. rel r s 0 b \<longrightarrow> b = length s) \<longrightarrow> find_at r s 0 = Some (0, length s)"
proof -
  have found: "case find_at r s 0 of
      None \<Rightarrow> \<forall>a b. rel r s a b \<longrightarrow> a < 0
    | Some (a, b) \<Rightarrow> 0 \<le> a \<and> rel r s a b \<and> (\<forall>a' b'. rel r s a' b' \<longrightarrow> 0 \<le> a' \<longrightarrow> a \<le> a')"
    using assms unfolding regex_search_laws_def by blast
  then show "find_at r s 0 = Some (0, length s) \<longrightarrow> rel r s 0 (length s)" by auto
  show "rel r s 0 (length s) \<longrightarrow> (\<forall>b. rel r s 0 b \<longrightarrow> b = length s) \<longrightarrow> find_at r s 0 = Some (0, length s)"
  proof (intro impI)
    assume whole: "rel r s 0 (length s)" and sole: "\<forall>b. rel r s 0 b \<longrightarrow> b = length s"
    then obtain a b where f: "find_at r s 0 = Some (a, b)" "rel r s a b" "a \<le> 0"
      using found by (cases "find_at r s 0") auto
    with sole show "find_at r s 0 = Some (0, length s)" by simp
  qed
qed

lemma string_matches_ascii:
  assumes "is_ascii s" "regex_laws find_at"
  shows "string_matches find_at m s = Ret (string_matcher_spec find_at m s)"
  using assms
  by (simp add: string_matches_def string_matcher_spec_def Let_def cs_equals_iff cs_starts_with_ascii
      cs_ends_with_ascii cs_contains_ascii matches_full_iff split: string_matcher_pattern.split)

lemma string_matches_case_sensitive:
  assumes "\<not> ignore_case m"
  shows "string_matches find_at m s \<noteq> Panic"
  using assms
  by (simp add: string_matches_def cs_starts_with_def cs_ends_with_def cs_contains_def cs_find_def Let_def
      split: string_matcher_pattern.split)

section \<open>Properties\<close>

text \<open>C8: On an ASCII subject \<open>StringMatcher::matches\<close> never panics.  For a literal pattern it decides exactly the documented
  relation: equality, prefix, suffix or infix, up to ASCII case when \<open>ignore_case\<close> is set.  For a regular expression it accepts
  only subjects that the expression matches as a whole, and it accepts such a subject when the expression has no
  shorter match at its start; with a shorter match it may refuse (\<open>regex_alternation_missed\<close>).\<close>
theorem string_matches_correct:
  assumes "is_ascii s" and "regex_search_laws find_at rel"
  shows "\<exists>accepted. string_matches find_at m s = Ret accepted \<and>
    (accepted \<longrightarrow> documented_match rel m s) \<and>
    (documented_match rel m s \<longrightarrow> no_shorter_match rel m s \<longrightarrow> accepted)"
proof -
  note laws = regex_search_laws_bounds [OF assms(2)]
  have rel: "string_matcher_spec find_at m s \<longleftrightarrow> documented_match rel m s" if "\<nexists>r. pattern m = Regex r"
    using that by (simp add: string_matcher_spec_def documented_match_def Let_def split: string_matcher_pattern.split)
  show ?thesis
  proof (cases "\<exists>r. pattern m = Regex r")
    case True
    then obtain r where r: "pattern m = Regex r" by blast
    have "string_matches find_at m s = Ret (find_at r s 0 = Some (0, length s))"
      by (simp add: string_matches_ascii [OF assms(1) laws] string_matcher_spec_def r)
    moreover have "documented_match rel m s \<longleftrightarrow> rel r s 0 (length s)"
      "no_shorter_match rel m s \<longleftrightarrow> (\<forall>b. rel r s 0 b \<longrightarrow> b = length s)"
      by (simp_all add: documented_match_def no_shorter_match_def r)
    ultimately show ?thesis using regex_search_whole [OF assms(2), of r s] by blast
  qed (use string_matches_ascii [OF assms(1) laws, of m] rel in auto)
qed

text \<open>Alternations of literals as a concrete engine that prefers the alternative written first.\<close>
definition alternative_at :: "str list \<Rightarrow> str \<Rightarrow> nat \<Rightarrow> str option" where
  "alternative_at alts s a = find (\<lambda>p. take (length p) (drop a s) = p) alts"

definition alternation_find_at :: "str list regex_find_at" where
  "alternation_find_at alts s i =
     map_option (\<lambda>a. (a, a + length (the (alternative_at alts s a))))
       (find (\<lambda>a. alternative_at alts s a \<noteq> None) [i..<Suc (length s)])"

definition alternation_relation :: "str list regex_relation" where
  "alternation_relation alts s a b \<longleftrightarrow> a \<le> length s \<and> (\<exists>p \<in> set alts. take (length p) (drop a s) = p \<and> b = a + length p)"

lemma alternation_laws: "regex_search_laws alternation_find_at alternation_relation"
  unfolding regex_search_laws_def
proof (intro conjI allI impI)
  fix alts s a b
  assume "alternation_relation alts s a b"
  then obtain p where "a \<le> length s" "take (length p) (drop a s) = p" "b = a + length p"
    by (auto simp: alternation_relation_def)
  moreover from this have "length p \<le> length (drop a s)" by (metis length_take min.cobounded1 min.commute)
  ultimately show "a \<le> b" "b \<le> length s" by auto
next
  fix alts s i
  have at: "alternative_at alts s a \<noteq> None \<longleftrightarrow> (\<exists>b. alternation_relation alts s a b)" if "a \<le> length s" for a
    using that by (auto simp: alternative_at_def alternation_relation_def find_None_iff)
  show "case alternation_find_at alts s i of
      None \<Rightarrow> \<forall>a b. alternation_relation alts s a b \<longrightarrow> a < i
    | Some (a, b) \<Rightarrow> i \<le> a \<and> alternation_relation alts s a b \<and> (\<forall>a' b'. alternation_relation alts s a' b' \<longrightarrow> i \<le> a' \<longrightarrow> a \<le> a')"
  proof (cases "find (\<lambda>a. alternative_at alts s a \<noteq> None) [i..<Suc (length s)]")
    case None
    have "a < i" if "alternation_relation alts s a b" for a b
    proof (rule ccontr)
      assume ge: "\<not> a < i"
      have le: "a \<le> length s" using that by (simp add: alternation_relation_def)
      with ge have "a \<in> set [i..<Suc (length s)]" by auto
      then show False using None at [OF le] that unfolding find_None_iff by blast
    qed
    then show ?thesis using None by (simp add: alternation_find_at_def)
  next
    case (Some a)
    then obtain j where j: "j < length [i..<Suc (length s)]" "a = [i..<Suc (length s)] ! j" "alternative_at alts s a \<noteq> None"
      "\<And>k. k < j \<Longrightarrow> alternative_at alts s ([i..<Suc (length s)] ! k) = None"
      by (auto simp: find_Some_iff simp del: upt_Suc)
    then have a: "a = i + j" "a \<le> length s" by (auto simp del: upt_Suc)
    obtain p where p: "alternative_at alts s a = Some p" using j(3) by blast
    have "alternation_relation alts s a (a + length p)"
      using p a(2) by (auto simp: alternative_at_def alternation_relation_def find_Some_iff)
    moreover have "a \<le> a'" if "alternation_relation alts s a' b'" "i \<le> a'" for a' b'
    proof (rule ccontr)
      assume "\<not> a \<le> a'"
      then have k: "a' - i < j" "[i..<Suc (length s)] ! (a' - i) = a'" using that(2) a by (simp_all del: upt_Suc)
      have "a' \<le> length s" using that(1) by (simp add: alternation_relation_def)
      with that(1) at [of a'] j(4) [OF k(1)] k(2) show False by auto
    qed
    ultimately show ?thesis using Some p a by (auto simp: alternation_find_at_def simp del: upt_Suc)
  qed
qed

theorem string_matches_correct_witness:
  "string_matches alternation_find_at \<lparr>ignore_case = False, pattern = Regex [''b'', ''ab'']\<rparr> ''ab'' = Ret True \<and>
   string_matches alternation_find_at \<lparr>ignore_case = True, pattern = Contains ''OrIo''\<rparr> ''an orion'' = Ret True"
proof -
  have "is_ascii ''ab''" "is_ascii ''an orion''" by code_simp+
  moreover have "documented_match alternation_relation \<lparr>ignore_case = False, pattern = Regex [''b'', ''ab'']\<rparr> ''ab''"
    "no_shorter_match alternation_relation \<lparr>ignore_case = False, pattern = Regex [''b'', ''ab'']\<rparr> ''ab''"
    by (simp_all add: documented_match_def no_shorter_match_def alternation_relation_def)
  moreover have "\<exists>a b. to_ascii_lowercase ''an orion'' = a @ to_ascii_lowercase ''OrIo'' @ b"
    by (rule exI [of _ "''an ''"], rule exI [of _ "''n''"]) code_simp
  then have "documented_match alternation_relation \<lparr>ignore_case = True, pattern = Contains ''OrIo''\<rparr> ''an orion''"
    "no_shorter_match alternation_relation \<lparr>ignore_case = True, pattern = Contains ''OrIo''\<rparr> ''an orion''"
    by (simp_all add: documented_match_def no_shorter_match_def fold_case_def)
  ultimately show ?thesis
    using string_matches_correct [OF _ alternation_laws, of "''ab''" "\<lparr>ignore_case = False, pattern = Regex [''b'', ''ab'']\<rparr>"]
      string_matches_correct [OF _ alternation_laws, of "''an orion''" "\<lparr>ignore_case = True, pattern = Contains ''OrIo''\<rparr>"]
    by auto
qed

text \<open>The expression \<open>a|ab\<close> matches the subject \<open>ab\<close> as a whole, but the search returns the match of the first
  alternative, and the code refuses the subject.\<close>
lemma regex_alternation_missed:
  "alternation_relation [''a'', ''ab''] ''ab'' 0 2 \<and>
   string_matches alternation_find_at \<lparr>ignore_case = False, pattern = Regex [''a'', ''ab'']\<rparr> ''ab'' = Ret False"
  by (simp add: alternation_relation_def string_matches_def matches_full_def alternation_find_at_def alternative_at_def upt_rec)

text \<open>The case-insensitive branches panic on some non-ASCII subjects: the prefix \<open>a\<close> cuts the
  two-byte code point U+00E9 in the middle.  A case-sensitive matcher never panics.\<close>
theorem string_matches_may_panic:
  "string_matches find_at \<lparr>ignore_case = True, pattern = Prefix ''a''\<rparr> [CHR 0xC3, CHR 0xA9] = Panic
   \<and> string_matches find_at \<lparr>ignore_case = False, pattern = p\<rparr> s \<noteq> Panic"
  by (simp add: string_matches_case_sensitive)
     (simp add: string_matches_def cs_starts_with_def slice_def is_char_boundary_def andP_def)

end
