(* ===== verification/Http_Types.thy ===== *)
theory Http_Types
  imports Str_Matching
begin

text \<open>
  Requests, responses and header maps as the HTTP components see them.

  They come from the crate \<open>http\<close>, whose code is not part of the repository.  A \<open>Uri\<close> is the record
  of what its accessors return.  A \<open>HeaderMap\<close> is a value of a type \<open>'h\<close> with the operations the
  sources call, in a record passed to the definitions; \<open>header_map_laws\<close> states their documented
  behaviour (a multimap from header names to values in insertion order).  Header names are the
  lower-case names of \<open>HeaderName::as_str\<close>, header values byte strings.
\<close>

type_synonym header_name = str
type_synonym header_value = str

record path_and_query =
  paq_path :: str
  paq_query :: "str option"

record uri =
  uri_scheme :: "str option"
  uri_authority :: "str option"
  uri_host :: "str option"
  uri_port :: "u16 option"
  uri_path :: str
  uri_query :: "str option"
  uri_path_and_query :: "path_and_query option"

record 'h header_map_ops =
  hm_get_all :: "'h \<Rightarrow> header_name \<Rightarrow> header_value list"
  hm_get :: "'h \<Rightarrow> header_name \<Rightarrow> header_value option"
  hm_insert :: "'h \<Rightarrow> header_name \<Rightarrow> header_value \<Rightarrow> 'h"
  hm_append :: "'h \<Rightarrow> header_name \<Rightarrow> header_value \<Rightarrow> 'h"
  hm_remove :: "'h \<Rightarrow> header_name \<Rightarrow> 'h"
  hv_to_str :: "header_value \<Rightarrow> str option"
  hm_empty :: 'h
  hv_from_str :: "str \<Rightarrow> header_value option"

definition visible_ascii :: "header_value \<Rightarrow> bool" where
  "visible_ascii v = list_all (\<lambda>c. (32 \<le> (of_char c :: nat) \<and> (of_char c :: nat) < 127) \<or> c = CHR 9) v"

definition header_map_laws :: "'h header_map_ops \<Rightarrow> bool" where
  "header_map_laws H \<longleftrightarrow>
     (\<forall>h n. hm_get H h n = (case hm_get_all H h n of [] \<Rightarrow> None | v # _ \<Rightarrow> Some v)) \<and>
     (\<forall>h n v m. hm_get_all H (hm_insert H h n v) m = (if m = n then [v] else hm_get_all H h m)) \<and>
     (\<forall>h n v m. hm_get_all H (hm_append H h n v) m = hm_get_all H h m @ (if m = n then [v] else [])) \<and>
     (\<forall>h n m. hm_get_all H (hm_remove H h n) m = (if m = n then [] else hm_get_all H h m)) \<and>
     (\<forall>v s. hv_to_str H v = Some s \<longrightarrow> s = v \<and> visible_ascii v) \<and>
     (\<forall>n. hm_get_all H (hm_empty H) n = []) \<and>
     (\<forall>s. visible_ascii s \<longrightarrow> hv_from_str H s = Some s) \<and> (\<forall>s v. hv_from_str H s = Some v \<longrightarrow> v = s)"

record 'h request =
  req_method :: str
  req_uri :: uri
  req_headers :: 'h

record 'h response =
  resp_status :: u16
  resp_headers :: 'h

lemma hm_get_all_insert: "header_map_laws H \<Longrightarrow> hm_get_all H (hm_insert H h n v) m = (if m = n then [v] else hm_get_all H h m)"
  and hm_get_all_append: "header_map_laws H \<Longrightarrow> hm_get_all H (hm_append H h n v) m = hm_get_all H h m @ (if m = n then [v] else [])"
  and hm_get_all_remove: "header_map_laws H \<Longrightarrow> hm_get_all H (hm_remove H h n) m = (if m = n then [] else hm_get_all H h m)"
  and hm_get_hd: "header_map_laws H \<Longrightarrow> hm_get H h n = (case hm_get_all H h n of [] \<Rightarrow> None | v # _ \<Rightarrow> Some v)"
  and hv_to_str_visible: "header_map_laws H \<Longrightarrow> hv_to_str H v = Some s \<Longrightarrow> s = v \<and> visible_ascii s"
  and hv_from_str_visible: "header_map_laws H \<Longrightarrow> visible_ascii s \<Longrightarrow> hv_from_str H s = Some s"
  and hv_from_str_same: "header_map_laws H \<Longrightarrow> hv_from_str H s = Some v \<Longrightarrow> v = s"
  and hm_get_all_empty: "header_map_laws H \<Longrightarrow> hm_get_all H (hm_empty H) n = []"
  by (auto simp: header_map_laws_def)

lemma visible_ascii_is_ascii: "visible_ascii v \<Longrightarrow> is_ascii v"
  by (induction v) (auto simp: visible_ascii_def is_ascii_def is_ascii_byte_def)

lemma hv_to_str_ascii: "header_map_laws H \<Longrightarrow> hv_to_str H v = Some s \<Longrightarrow> s = v \<and> is_ascii s"
  using hv_to_str_visible visible_ascii_is_ascii by blast

lemmas header_map_simps = hm_get_all_insert hm_get_all_append hm_get_all_remove hm_get_all_empty

lemma hm_get_None: "header_map_laws H \<Longrightarrow> hm_get H h n = None \<longleftrightarrow> hm_get_all H h n = []"
  by (auto simp: hm_get_hd split: list.splits)

section \<open>A header map on association lists\<close>

text \<open>The laws are satisfiable: a list of name and value pairs in insertion order.\<close>
definition alist_headers :: "(header_name \<times> header_value) list header_map_ops" where
  "alist_headers =
     \<lparr>hm_get_all = (\<lambda>h n. map snd (filter (\<lambda>kv. fst kv = n) h)),
      hm_get = (\<lambda>h n. map_of h n),
      hm_insert = (\<lambda>h n v. filter (\<lambda>kv. fst kv \<noteq> n) h @ [(n, v)]),
      hm_append = (\<lambda>h n v. h @ [(n, v)]),
      hm_remove = (\<lambda>h n. filter (\<lambda>kv. fst kv \<noteq> n) h),
      hv_to_str = (\<lambda>v. if visible_ascii v then Some v else None),
      hm_empty = [],
      hv_from_str = (\<lambda>s. if visible_ascii s then Some s else None)\<rparr>"

lemma map_of_hd_filter:
  "map_of h n = (case map snd (filter (\<lambda>kv. fst kv = n) h) of [] \<Rightarrow> None | v # _ \<Rightarrow> Some v)"
  by (induction h) auto

lemma filter_filter_neq: "m \<noteq> n \<Longrightarrow> filter (\<lambda>kv. fst kv \<noteq> n \<and> fst kv = m) h = filter (\<lambda>kv. fst kv = m) h"
  by (induction h) auto

lemma alist_headers_laws: "header_map_laws alist_headers"
  using map_of_hd_filter visible_ascii_is_ascii
  by (auto simp: header_map_laws_def alist_headers_def filter_filter_neq filter_empty_conv)

end
