(* ===== verification/Header_Matching.thy ===== *)
theory Header_Matching
  imports Http_Types
begin

text \<open>
  Header matchers (\<open>header_matcher.rs\<close>) and header modifiers (\<open>header_modifer.rs\<close>) of the HTTP
  connection manager's configuration.
\<close>

section \<open>Header matchers\<close>

datatype header_names = Method | Path | Scheme | NormalHeader header_name

text \<open>\<open>FromStr for HeaderNames\<close>; \<open>HeaderName::from_str\<close> belongs to the crate \<open>http\<close>.\<close>
definition header_names_from_str :: "(str \<Rightarrow> header_name option) \<Rightarrow> str \<Rightarrow> header_names option" where
  "header_names_from_str parse_name s =
     (if s = '':method'' then Some Method
      else if s = '':scheme'' then Some Scheme
      else if s = '':path'' then Some Path
      else map_option NormalHeader (parse_name s))"

text \<open>\<open>Serialize for HeaderNames\<close>, the inverse direction.\<close>
fun header_names_serialize :: "header_names \<Rightarrow> str" where
  "header_names_serialize Method = '':method''"
| "header_names_serialize Path = '':path''"
| "header_names_serialize Scheme = '':scheme''"
| "header_names_serialize (NormalHeader n) = n"

text \<open>\<open>Deserialize for HeaderNames\<close> tests the pseudo headers in another order.\<close>
definition header_names_deserialize :: "(str \<Rightarrow> header_name option) \<Rightarrow> str \<Rightarrow> header_names option" where
  "header_names_deserialize parse_name s =
     (if s = '':path'' then Some Path
      else if s = '':method'' then Some Method
      else if s = '':scheme'' then Some Scheme
      else map_option NormalHeader (parse_name s))"

record 'r header_matcher =
  header_name_of :: header_names
  invert_match :: bool
  treat_missing_header_as_empty :: bool
  header_matcher_of :: "'r string_matcher"

text \<open>A possibly absent pseudo header: \<open>None if treat_missing\<close> is the empty string, another
  \<open>None\<close> returns false without inversion.\<close>
definition pseudo_match ::
  "'r regex_find_at \<Rightarrow> 'r header_matcher \<Rightarrow> str option \<Rightarrow> bool outcome" where
  "pseudo_match find_at m value =
     (case value of
        None \<Rightarrow> (if treat_missing_header_as_empty m
                  then mapP (\<lambda>b. b \<noteq> invert_match m) (string_matches find_at (header_matcher_of m) '''')
                  else Ret False)
      | Some v \<Rightarrow> mapP (\<lambda>b. b \<noteq> invert_match m) (string_matches find_at (header_matcher_of m) v))"

text \<open>One header value: values that are not visible ASCII count as not matching.\<close>
definition value_match ::
  "'h header_map_ops \<Rightarrow> 'r regex_find_at \<Rightarrow> 'r header_matcher \<Rightarrow> header_value \<Rightarrow> bool outcome" where
  "value_match H find_at m hv =
     (case hv_to_str H hv of None \<Rightarrow> Ret False | Some s \<Rightarrow> string_matches find_at (header_matcher_of m) s)"

text \<open>\<open>is_match\<close>.  \<open>first_result | header_values.any(...)\<close> uses the strict \<open>|\<close>: the remaining
  values are evaluated whatever the first one gave.\<close>
definition header_is_match ::
  "'h header_map_ops \<Rightarrow> 'r regex_find_at \<Rightarrow> 'r header_matcher \<Rightarrow> str option \<Rightarrow> uri option \<Rightarrow> 'h \<Rightarrow> bool outcome" where
  "header_is_match H find_at m method u header_map =
     (case header_name_of m of
        Method \<Rightarrow> pseudo_match find_at m method
      | Path \<Rightarrow> pseudo_match find_at m (map_option uri_path u)
      | Scheme \<Rightarrow> pseudo_match find_at m (Option.bind u uri_scheme)
      | NormalHeader header_name \<Rightarrow>
          (case hm_get_all H header_map header_name of
             [] \<Rightarrow> (if treat_missing_header_as_empty m
                     then mapP (\<lambda>b. b \<noteq> invert_match m) (string_matches find_at (header_matcher_of m) '''')
                     else Ret False)
           | first # header_values \<Rightarrow>
               bindP (value_match H find_at m first) (\<lambda>first_result.
               bindP (anyP (value_match H find_at m) header_values) (\<lambda>rest.
               Ret ((first_result \<or> rest) \<noteq> invert_match m)))))"

definition request_matches ::
  "'h header_map_ops \<Rightarrow> 'r regex_find_at \<Rightarrow> 'r header_matcher \<Rightarrow> 'h request \<Rightarrow> bool outcome" where
  "request_matches H find_at m req =
     header_is_match H find_at m (Some (req_method req)) (Some (req_uri req)) (req_headers req)"

definition response_matches ::
  "'h header_map_ops \<Rightarrow> 'r regex_find_at \<Rightarrow> 'r header_matcher \<Rightarrow> 'h response \<Rightarrow> bool outcome" where
  "response_matches H find_at m resp = header_is_match H find_at m None None (resp_headers resp)"

section \<open>Header modifiers\<close>

datatype header_append_action =
  AppendIfExistsOrAdd | AppendIfAbsent | OverwriteIfExistsOrAdd | OverwriteIfExists

record header_key_value =
  hkv_key :: header_name
  hkv_value :: header_value

record header_value_option =
  hvo_header :: header_key_value
  append_action :: header_append_action
  keep_empty_value :: bool

record header_modifier =
  hmod_remove :: "header_name list"
  hmod_add :: "header_value_option list"

definition header_value_option_apply :: "'h header_map_ops \<Rightarrow> header_value_option \<Rightarrow> 'h \<Rightarrow> bool \<times> 'h" where
  "header_value_option_apply H o' h =
     (let k = hkv_key (hvo_header o'); v = hkv_value (hvo_header o') in
      if v = [] \<and> \<not> keep_empty_value o' then (hm_get H h k \<noteq> None, hm_remove H h k)
      else case append_action o' of
             AppendIfExistsOrAdd \<Rightarrow> (True, hm_append H h k v)
           | AppendIfAbsent \<Rightarrow> (if hm_get H h k = None then (True, hm_append H h k v) else (False, h))
           | OverwriteIfExistsOrAdd \<Rightarrow> (True, hm_insert H h k v)
           | OverwriteIfExists \<Rightarrow> (if hm_get H h k \<noteq> None then (True, hm_insert H h k v) else (False, h)))"

definition header_modify :: "'h header_map_ops \<Rightarrow> header_modifier \<Rightarrow> 'h \<Rightarrow> 'h" where
  "header_modify H m h =
     (let h1 = foldl (\<lambda>h n. hm_remove H h n) h (hmod_remove m)
      in foldl (\<lambda>h v. snd (header_value_option_apply H v h)) h1 (hmod_add m))"

section \<open>Reference semantics\<close>

text \<open>What a matcher means on the values of its header: some value satisfies the string relation,
  inverted on request; an absent header is the empty string or no match at all.\<close>
definition header_values_spec :: "'r regex_find_at \<Rightarrow> 'r header_matcher \<Rightarrow> str list \<Rightarrow> bool" where
  "header_values_spec find_at m vs =
     (if vs = [] \<and> \<not> treat_missing_header_as_empty m then False
      else (\<exists>v \<in> set (if vs = [] then [''''] else vs). string_matcher_spec find_at (header_matcher_of m) v) \<noteq> invert_match m)"

lemma empty_is_ascii [simp]: "is_ascii ''''"
  by (simp add: is_ascii_def)

lemma value_match_ascii:
  assumes "header_map_laws H" "regex_laws find_at"
  shows "value_match H find_at m v
    = Ret (hv_to_str H v \<noteq> None \<and> string_matcher_spec find_at (header_matcher_of m) v)"
  using hv_to_str_ascii [OF assms(1), of v] string_matches_ascii [OF _ assms(2)]
  by (auto simp: value_match_def split: option.split)

lemma request_matches_normal:
  assumes laws: "header_map_laws H" "regex_laws find_at" and name: "header_name_of m = NormalHeader n"
    and vis: "\<forall>v \<in> set (hm_get_all H (req_headers req) n). hv_to_str H v \<noteq> None"
  shows "request_matches H find_at m req = Ret (header_values_spec find_at m (hm_get_all H (req_headers req) n))"
proof (cases "hm_get_all H (req_headers req) n")
  case Nil
  then show ?thesis
    using name string_matches_ascii [OF empty_is_ascii laws(2)]
    by (simp add: request_matches_def header_is_match_def header_values_spec_def)
next
  case (Cons v vs)
  have val: "value_match H find_at m x = Ret (string_matcher_spec find_at (header_matcher_of m) x)"
    if "x \<in> set (v # vs)" for x
    using that vis Cons by (auto simp: value_match_ascii [OF laws])
  then have "anyP (value_match H find_at m) vs
      = Ret (\<exists>x \<in> set vs. string_matcher_spec find_at (header_matcher_of m) x)"
    by (intro anyP_cong_Ret) simp
  with val [of v] Cons name show ?thesis
    by (simp add: request_matches_def header_is_match_def header_values_spec_def)
qed

text \<open>The effect of one added header on the values of every name.\<close>
definition header_value_option_spec :: "header_value_option \<Rightarrow> (header_name \<Rightarrow> header_value list) \<Rightarrow> header_name \<Rightarrow> header_value list" where
  "header_value_option_spec o' vals m =
     (let k = hkv_key (hvo_header o'); v = hkv_value (hvo_header o') in
      if m \<noteq> k then vals m
      else if v = [] \<and> \<not> keep_empty_value o' then []
      else case append_action o' of
             AppendIfExistsOrAdd \<Rightarrow> vals k @ [v]
           | AppendIfAbsent \<Rightarrow> (if vals k = [] then [v] else vals k)
           | OverwriteIfExistsOrAdd \<Rightarrow> [v]
           | OverwriteIfExists \<Rightarrow> (if vals k = [] then [] else [v]))"

lemma header_value_option_apply_spec:
  assumes "header_map_laws H"
  shows "hm_get_all H (snd (header_value_option_apply H o' h)) = header_value_option_spec o' (hm_get_all H h)"
  using assms
  by (intro ext)
    (simp add: header_value_option_apply_def header_value_option_spec_def Let_def header_map_simps hm_get_None
      split: header_append_action.split)

lemma foldl_remove_spec:
  assumes "header_map_laws H"
  shows "hm_get_all H (foldl (\<lambda>h n. hm_remove H h n) h ns) m = (if m \<in> set ns then [] else hm_get_all H h m)"
  using assms by (induction ns arbitrary: h) (auto simp: header_map_simps)

lemma foldl_apply_spec:
  assumes "header_map_laws H"
  shows "hm_get_all H (foldl (\<lambda>h v. snd (header_value_option_apply H v h)) h os)
    = foldl (\<lambda>vals o'. header_value_option_spec o' vals) (hm_get_all H h) os"
  by (induction os arbitrary: h) (simp_all add: header_value_option_apply_spec [OF assms])

lemma header_modify_spec:
  assumes "header_map_laws H"
  shows "hm_get_all H (header_modify H md h) =
    foldl (\<lambda>vals o'. header_value_option_spec o' vals)
      (\<lambda>m. if m \<in> set (hmod_remove md) then [] else hm_get_all H h m) (hmod_add md)"
proof -
  have "hm_get_all H (foldl (\<lambda>h n. hm_remove H h n) h (hmod_remove md))
      = (\<lambda>m. if m \<in> set (hmod_remove md) then [] else hm_get_all H h m)"
    using foldl_remove_spec [OF assms] by blast
  then show ?thesis
    by (simp add: header_modify_def foldl_apply_spec [OF assms] Let_def)
qed

section \<open>Properties\<close>

text \<open>C16: \<open>HeaderMatcher::request_matches\<close> on a regular header whose values are visible ASCII decides
  \<open>some value matches\<close>, xor the inversion flag; a missing header is matched as the empty string
  when configured so and otherwise never matches, inverted or not.\<close>
theorem request_matches_correct:
  assumes "header_map_laws H" and "regex_laws find_at" and "header_name_of m = NormalHeader n"
    and "\<forall>v \<in> set (hm_get_all H (req_headers req) n). hv_to_str H v \<noteq> None"
  shows "request_matches H find_at m req = Ret (header_values_spec find_at m (hm_get_all H (req_headers req) n))"
  using assms by (rule request_matches_normal)

theorem request_matches_correct_witness:
  "request_matches alist_headers (\<lambda>_ _ _. None)
     \<lparr>header_name_of = NormalHeader ''x'', invert_match = True, treat_missing_header_as_empty = False,
      header_matcher_of = \<lparr>ignore_case = False, pattern = (Exact ''v'' :: unit string_matcher_pattern)\<rparr>\<rparr>
     \<lparr>req_method = ''GET'', req_uri = undefined, req_headers = [(''x'', ''u''), (''x'', ''v'')]\<rparr> = Ret False"
proof -
  have vis: "\<forall>v \<in> set (hm_get_all alist_headers [(''x'', ''u''), (''x'', ''v'')] ''x''). hv_to_str alist_headers v \<noteq> None"
    by (simp add: alist_headers_def visible_ascii_def)
  have "regex_laws (\<lambda>_ _ _. None)"
    by (simp add: regex_laws_def)
  from request_matches_correct [OF alist_headers_laws this, where n = "''x''" and
      m = "\<lparr>header_name_of = NormalHeader ''x'', invert_match = True, treat_missing_header_as_empty = False,
      header_matcher_of = \<lparr>ignore_case = False, pattern = (Exact ''v'' :: unit string_matcher_pattern)\<rparr>\<rparr>"
      and req = "\<lparr>req_method = ''GET'', req_uri = undefined, req_headers = [(''x'', ''u''), (''x'', ''v'')]\<rparr>"] vis
  show ?thesis
    by (simp add: header_values_spec_def string_matcher_spec_def alist_headers_def fold_case_def)
qed

text \<open>C10: \<open>HeaderModifier::modify\<close> first removes the listed names, then applies the additions in
  order, each one touching only its own header and following its append action (an empty value
  without \<open>keep_empty_value\<close> deletes the header).\<close>
theorem header_modify_correct:
  assumes "header_map_laws H"
  shows "hm_get_all H (header_modify H md h) =
    foldl (\<lambda>vals o'. header_value_option_spec o' vals)
      (\<lambda>m. if m \<in> set (hmod_remove md) then [] else hm_get_all H h m) (hmod_add md)"
  by (rule header_modify_spec [OF assms])

theorem header_modify_correct_witness:
  "hm_get_all alist_headers
     (header_modify alist_headers
        \<lparr>hmod_remove = [''a''], hmod_add = [\<lparr>hvo_header = \<lparr>hkv_key = ''a'', hkv_value = ''2''\<rparr>,
           append_action = AppendIfAbsent, keep_empty_value = False\<rparr>]\<rparr> [(''a'', ''1'')]) ''a'' = [''2'']"
  by (simp add: header_modify_correct [OF alist_headers_laws] header_value_option_spec_def)

end
