(* ===== verification/Route_Matching.thy ===== *)
theory Route_Matching
  imports Header_Matching
begin

text \<open>
  Route matching and rewriting: path, method, header and query-parameter matchers, the match result
  with the matched range, and the path and authority rewrites
  (\<open>orion-configuration/src/config/network_filters/http_connection_manager/route.rs\<close>).

  Arguments that stand for third-party code: \<open>find_at\<close> and \<open>replace_all\<close> of \<open>regex\<close> (\<open>None\<close> is the
  borrowed result: nothing was replaced), \<open>parse_query\<close> (\<open>url::form_urlencoded::parse\<close>), \<open>parse_paq\<close>
  and \<open>parse_authority\<close> (\<open>FromStr\<close> of the crate \<open>http\<close>), \<open>empty_paq\<close> (\<open>PathAndQuery::from_static("")\<close>).
\<close>

section \<open>Path matchers\<close>

datatype 'r path_specifier =
    PathPrefix str
  | PathExact str
  | PathRegex 'r
  | PathSeparatedPrefix str

record 'r path_matcher =
  pm_specifier :: "'r path_specifier"
  pm_ignore_case :: bool

record path_matcher_result =
  pmr_inner :: "nat option"

definition pmr_matched :: "path_matcher_result \<Rightarrow> bool" where
  "pmr_matched r \<longleftrightarrow> pmr_inner r \<noteq> None"

definition pmr_matched_range :: "path_matcher_result \<Rightarrow> (nat \<times> nat) option" where
  "pmr_matched_range r = map_option (\<lambda>up_to. (0, up_to)) (pmr_inner r)"

text \<open>\<open>n - 1\<close> on \<open>usize\<close> without overflow checks.\<close>
definition usize_pred :: "nat \<Rightarrow> nat" where
  "usize_pred n = (if n = 0 then 2 ^ 64 - 1 else n - 1)"

definition path_matches :: "'r regex_find_at \<Rightarrow> 'r path_matcher \<Rightarrow> str \<Rightarrow> path_matcher_result outcome" where
  "path_matches find_at pm path =
     (let case_matcher = (\<not> pm_ignore_case pm, path) in
      mapP (\<lambda>inner. \<lparr>pmr_inner = inner\<rparr>)
        (case pm_specifier pm of
           PathExact s \<Rightarrow> Ret (if cs_equals case_matcher s then Some (length s) else None)
         | PathPrefix p \<Rightarrow> mapP (\<lambda>b. if b then Some (length p) else None) (cs_starts_with case_matcher p)
         | PathSeparatedPrefix psp \<Rightarrow>
             bindP (slice psp 0 (usize_pred (length psp))) (\<lambda>without_slash.
             if cs_equals case_matcher without_slash then Ret (Some (usize_pred (length psp)))
             else mapP (\<lambda>b. if b then Some (length psp) else None) (cs_starts_with case_matcher psp))
         | PathRegex r \<Rightarrow> Ret (if matches_full find_at r path then Some (length path) else None)))"

text \<open>Conversion from the control plane's path specifier; \<open>regex_from_envoy\<close> compiles a regular
  expression.\<close>
datatype 'er envoy_path_specifier =
    EnvoyPrefix str
  | EnvoyPath str
  | EnvoySafeRegex 'er
  | EnvoyPathSeparatedPrefix str
  | EnvoyConnectMatcher
  | EnvoyPathMatchPolicy

definition path_specifier_try_from ::
  "('er \<Rightarrow> 'r option) \<Rightarrow> 'er envoy_path_specifier \<Rightarrow> 'r path_specifier option" where
  "path_specifier_try_from regex_from_envoy value =
     (case value of
        EnvoyPrefix s \<Rightarrow> Some (PathPrefix s)
      | EnvoyPath s \<Rightarrow> Some (PathExact s)
      | EnvoySafeRegex r \<Rightarrow> map_option PathRegex (regex_from_envoy r)
      | EnvoyPathSeparatedPrefix s \<Rightarrow>
          (if ends_with s ''/'' \<or> CHR ''?'' \<in> set s then None else Some (PathSeparatedPrefix (s @ ''/'')))
      | EnvoyConnectMatcher \<Rightarrow> None
      | EnvoyPathMatchPolicy \<Rightarrow> None)"

section \<open>Method and query-parameter matchers\<close>

datatype method_specifier = MConnect | MGet | MPost | MPut | MDelete | MPatch | MHead | MOptions

fun method_specifier_matches :: "method_specifier \<Rightarrow> str \<Rightarrow> bool" where
  "method_specifier_matches MConnect m = (m = ''CONNECT'')"
| "method_specifier_matches MGet m = (m = ''GET'')"
| "method_specifier_matches MPost m = (m = ''POST'')"
| "method_specifier_matches MPut m = (m = ''PUT'')"
| "method_specifier_matches MDelete m = (m = ''DELETE'')"
| "method_specifier_matches MPatch m = (m = ''PATCH'')"
| "method_specifier_matches MHead m = (m = ''HEAD'')"
| "method_specifier_matches MOptions m = (m = ''OPTIONS'')"

record route_match_result =
  path_match :: "path_matcher_result option"
  headers_matched :: bool
  query_parameters_matched :: bool

definition method_matcher_matches :: "method_specifier \<Rightarrow> str option \<Rightarrow> route_match_result" where
  "method_matcher_matches spec method =
     (let m = (case method of None \<Rightarrow> False | Some m \<Rightarrow> method_specifier_matches spec m)
      in \<lparr>path_match = None, headers_matched = m, query_parameters_matched = m\<rparr>)"

definition rmr_matched :: "route_match_result \<Rightarrow> bool" where
  "rmr_matched r \<longleftrightarrow> headers_matched r \<and> query_parameters_matched r \<and>
     (case path_match r of None \<Rightarrow> True | Some pmr \<Rightarrow> pmr_matched pmr)"

definition rmr_matched_range :: "route_match_result \<Rightarrow> (nat \<times> nat) option" where
  "rmr_matched_range r =
     (if headers_matched r then (case path_match r of Some pmr \<Rightarrow> pmr_matched_range pmr | None \<Rightarrow> None) else None)"

datatype 'r query_parameter_match_specifier = PresentMatch bool | StringMatch "'r string_matcher"

record 'r query_parameter_matcher =
  qpm_name :: str
  match_specifier :: "'r query_parameter_match_specifier"

definition query_parameter_matches ::
  "(str \<Rightarrow> (str \<times> str) list) \<Rightarrow> 'r regex_find_at \<Rightarrow> 'r query_parameter_matcher \<Rightarrow> str option \<Rightarrow> bool outcome" where
  "query_parameter_matches parse_query find_at qpm query =
     (let param_value = (case query of
            None \<Rightarrow> None
          | Some q \<Rightarrow> map_option snd (List.find (\<lambda>(key, _). key = qpm_name qpm) (parse_query q)))
      in case match_specifier qpm of
           PresentMatch should_be_present \<Rightarrow> Ret ((param_value \<noteq> None) = should_be_present)
         | StringMatch m \<Rightarrow> (case param_value of None \<Rightarrow> Ret False | Some v \<Rightarrow> string_matches find_at m v))"

section \<open>Route match\<close>

record 'r route_match =
  rm_path_matcher :: "'r path_matcher option"
  rm_method_matcher :: "method_specifier option"
  rm_headers :: "'r header_matcher list"
  rm_query_parameters :: "'r query_parameter_matcher list"

definition route_match_default :: "'r route_match" where
  "route_match_default =
     \<lparr>rm_path_matcher = Some \<lparr>pm_specifier = PathPrefix '''', pm_ignore_case = False\<rparr>,
      rm_method_matcher = None, rm_headers = [], rm_query_parameters = []\<rparr>"

text \<open>The part of \<open>match_request\<close> after the method check.\<close>
definition match_request_rest ::
  "'h header_map_ops \<Rightarrow> 'r regex_find_at \<Rightarrow> (str \<Rightarrow> (str \<times> str) list) \<Rightarrow> path_and_query
     \<Rightarrow> 'r route_match \<Rightarrow> 'h request \<Rightarrow> route_match_result outcome" where
  "match_request_rest H find_at parse_query empty_paq rm req =
     bindP (case rm_path_matcher rm of
              None \<Rightarrow> Ret None
            | Some pm \<Rightarrow> mapP Some (path_matches find_at pm
                (paq_path (case uri_path_and_query (req_uri req) of Some p \<Rightarrow> p | None \<Rightarrow> empty_paq)))) (\<lambda>path_match.
     bindP (if (case path_match of None \<Rightarrow> True | Some pmr \<Rightarrow> pmr_matched pmr)
            then allP (\<lambda>m. request_matches H find_at m req) (rm_headers rm) else Ret False) (\<lambda>headers_matched.
     bindP (if headers_matched
            then let query = uri_query (req_uri req) in
                 orP (Ret (rm_query_parameters rm = []))
                     (allP (\<lambda>m. query_parameter_matches parse_query find_at m query) (rm_query_parameters rm))
            else Ret False) (\<lambda>query_parameters_matched.
     Ret \<lparr>path_match = path_match, headers_matched = headers_matched,
          query_parameters_matched = query_parameters_matched\<rparr>)))"

definition match_request ::
  "'h header_map_ops \<Rightarrow> 'r regex_find_at \<Rightarrow> (str \<Rightarrow> (str \<times> str) list) \<Rightarrow> path_and_query
     \<Rightarrow> 'r route_match \<Rightarrow> 'h request \<Rightarrow> route_match_result outcome" where
  "match_request H find_at parse_query empty_paq rm req =
     (case rm_method_matcher rm of
        Some spec \<Rightarrow>
          let method_result = method_matcher_matches spec (Some (req_method req)) in
          if \<not> rmr_matched method_result then Ret method_result
          else match_request_rest H find_at parse_query empty_paq rm req
      | None \<Rightarrow> match_request_rest H find_at parse_query empty_paq rm req)"

section \<open>Rewrites\<close>

record 'r regex_match_and_substitute =
  rms_pattern :: 'r
  rms_substitution :: str

datatype 'r path_rewrite_specifier =
    RewritePath path_and_query
  | RewritePrefix str
  | RewriteRegex "'r regex_match_and_substitute"

text \<open>\<open>PathRewriteSpecifier::apply\<close>: \<open>Inl ()\<close> is the \<open>InvalidUri\<close> error.\<close>
definition path_rewrite_apply ::
  "('r \<Rightarrow> str \<Rightarrow> str \<Rightarrow> str option) \<Rightarrow> (str \<Rightarrow> path_and_query option) \<Rightarrow> 'r path_rewrite_specifier
     \<Rightarrow> path_and_query option \<Rightarrow> route_match_result \<Rightarrow> (unit + path_and_query option) outcome" where
  "path_rewrite_apply replace_all parse_paq spec path_and_query rmr =
     (let old_path = (case path_and_query of None \<Rightarrow> '''' | Some p \<Rightarrow> paq_path p);
          old_query = (case path_and_query of None \<Rightarrow> None | Some p \<Rightarrow> paq_query p);
          parse = (\<lambda>s. case parse_paq s of None \<Rightarrow> Inl () | Some p \<Rightarrow> Inr (Some p));
          finish = (\<lambda>new_path. case old_query of
             Some q \<Rightarrow> if CHR ''?'' \<notin> set new_path then parse (new_path @ ''?'' @ q) else parse new_path
           | None \<Rightarrow> parse new_path)
      in case spec of
           RewritePath p \<Rightarrow> Ret (finish (paq_path p))
         | RewriteRegex r \<Rightarrow>
             (case replace_all (rms_pattern r) old_path (rms_substitution r) of
                None \<Rightarrow> Ret (Inr None)
              | Some replacement \<Rightarrow> Ret (finish replacement))
         | RewritePrefix prefix \<Rightarrow>
             (case rmr_matched_range rmr of
                Some (_, e) \<Rightarrow> mapP (\<lambda>orig. finish (prefix @ orig)) (slice old_path e (length old_path))
              | None \<Rightarrow> Ret (Inr None)))"

datatype ('a, 'r) authority_rewrite_specifier =
    RewriteAuthority 'a
  | RewriteHeader str
  | RewriteAuthorityRegex "'r regex_match_and_substitute"
  | AutoHostRewrite

definition authority_rewrite_apply ::
  "'h header_map_ops \<Rightarrow> ('r \<Rightarrow> str \<Rightarrow> str \<Rightarrow> str option) \<Rightarrow> (str \<Rightarrow> 'a option)
     \<Rightarrow> ('a, 'r) authority_rewrite_specifier \<Rightarrow> uri \<Rightarrow> 'h \<Rightarrow> 'a \<Rightarrow> 'a option" where
  "authority_rewrite_apply H replace_all parse_authority spec u headers upstream_authority =
     (case spec of
        RewriteAuthority authority \<Rightarrow> Some authority
      | RewriteHeader header_name \<Rightarrow>
          Option.bind (hm_get H headers header_name) (\<lambda>header_value.
          Option.bind (hv_to_str H header_value) parse_authority)
      | RewriteAuthorityRegex regex \<Rightarrow>
          (let current_authority =
             (case uri_authority u of
                Some a \<Rightarrow> a
              | None \<Rightarrow> (case Option.bind (hm_get H headers ''host'') (hv_to_str H) of Some h \<Rightarrow> h | None \<Rightarrow> ''''))
           in case replace_all (rms_pattern regex) current_authority (rms_substitution regex) of
                None \<Rightarrow> None
              | Some replacement \<Rightarrow> parse_authority replacement)
      | AutoHostRewrite \<Rightarrow> Some upstream_authority)"

section \<open>Lemmas\<close>

lemma usize_pred_Suc [simp]: "usize_pred (Suc n) = n"
  by (simp add: usize_pred_def)

lemma slice_prefix_ascii: "is_ascii (s @ t) \<Longrightarrow> slice (s @ t) 0 (length s) = Ret s"
  by (simp add: slice_ascii)

lemma is_ascii_append [simp]: "is_ascii (s @ t) \<longleftrightarrow> is_ascii s \<and> is_ascii t"
  by (simp add: is_ascii_def)

text \<open>The reference relation of a path specifier, and how much of the path it consumes.\<close>
definition path_spec :: "'r regex_find_at \<Rightarrow> 'r path_matcher \<Rightarrow> str \<Rightarrow> nat option \<Rightarrow> bool" where
  "path_spec find_at pm path res =
     (let f = fold_case (pm_ignore_case pm) in
      case pm_specifier pm of
        PathExact s \<Rightarrow> res = (if f path = f s then Some (length path) else None)
      | PathPrefix p \<Rightarrow> res = (if \<exists>r. f path = f p @ r then Some (length p) else None)
      | PathSeparatedPrefix psp \<Rightarrow>
          res = (if f path = f (butlast psp) then Some (length path)
                 else if \<exists>r. f path = f psp @ r then Some (length psp) else None)
      | PathRegex r \<Rightarrow> res = (if find_at r path 0 = Some (0, length path) then Some (length path) else None))"

lemma fold_case_length_eq: "fold_case i s = fold_case i t \<Longrightarrow> length s = length t"
  by (metis length_fold_case)

lemma fold_case_append: "fold_case i (s @ t) = fold_case i s @ fold_case i t"
  by (simp add: fold_case_def)

lemma path_matches_spec:
  assumes "is_ascii path" "regex_laws find_at"
    and "\<And>psp. pm_specifier pm = PathSeparatedPrefix psp \<Longrightarrow> is_ascii psp \<and> psp \<noteq> []"
  shows "\<exists>res. path_matches find_at pm path = Ret \<lparr>pmr_inner = res\<rparr> \<and> path_spec find_at pm path res"
proof (cases "pm_specifier pm")
  case (PathSeparatedPrefix psp)
  with assms(3) have psp: "is_ascii psp" "psp \<noteq> []"
    by auto
  then have "slice psp 0 (usize_pred (length psp)) = Ret (butlast psp)"
    by (cases psp rule: rev_cases) (auto simp: slice_prefix_ascii)
  moreover have "usize_pred (length psp) = length path" if "fold_case (pm_ignore_case pm) path = fold_case (pm_ignore_case pm) (butlast psp)"
    using fold_case_length_eq [OF that] psp by (cases psp rule: rev_cases) auto
  ultimately show ?thesis
    using PathSeparatedPrefix
    by (auto simp: path_matches_def path_spec_def Let_def cs_equals_iff cs_starts_with_ascii [OF assms(1)])
qed (use assms(1) in \<open>auto simp: path_matches_def path_spec_def Let_def cs_equals_iff cs_starts_with_ascii
    matches_full_iff [OF assms(2)] dest: fold_case_length_eq\<close>)

lemma path_matches_range:
  assumes "is_ascii path" "path_matches find_at pm path = Ret r" "pmr_matched_range r = Some (a, n)"
  shows "a = 0 \<and> n \<le> length path"
proof -
  have len: "length p \<le> length path" if "\<exists>r. fold_case i path = fold_case i p @ r" for i p
    using that by (metis le_add1 length_append length_fold_case)
  show ?thesis
    using assms(2,3) len
    by (auto simp: path_matches_def pmr_matched_range_def Let_def panic_simps cs_equals_iff cs_starts_with_ascii [OF assms(1)]
        split: path_specifier.splits if_splits dest!: fold_case_length_eq)
       (auto simp: slice_def usize_pred_def is_char_boundary_def split: if_splits)
qed

lemma match_request_matched_cases:
  assumes "match_request H find_at parse_query empty_paq rm req = Ret r" "rmr_matched r"
  shows "match_request_rest H find_at parse_query empty_paq rm req = Ret r
    \<and> (\<forall>spec. rm_method_matcher rm = Some spec \<longrightarrow> method_specifier_matches spec (req_method req))"
  using assms
  by (auto simp: match_request_def method_matcher_matches_def rmr_matched_def Let_def split: option.splits if_splits)

section \<open>Properties\<close>

text \<open>C11: a path-separated prefix accepted from the control plane matches exactly the prefix itself
  and the paths below it (up to ASCII case when \<open>ignore_case\<close>), so \<open>/api\<close> does not match \<open>/apiary\<close>.\<close>
theorem path_separated_prefix_correct:
  assumes "path_specifier_try_from rx (EnvoyPathSeparatedPrefix s) = Some spec"
    and "is_ascii s" and "is_ascii path" and "regex_laws find_at"
  shows "\<exists>r. path_matches find_at \<lparr>pm_specifier = spec, pm_ignore_case = i\<rparr> path = Ret r
    \<and> (pmr_matched r \<longleftrightarrow> fold_case i path = fold_case i s \<or> (\<exists>t. fold_case i path = fold_case i s @ ''/'' @ t))"
proof -
  have spec: "spec = PathSeparatedPrefix (s @ ''/'')"
    using assms(1) by (auto simp: path_specifier_try_from_def split: if_splits)
  have slash: "fold_case i ''/'' = ''/''" "is_ascii ''/''"
    by (auto simp: fold_case_def to_ascii_lowercase_def to_ascii_lowercase_byte_def is_ascii_def is_ascii_byte_def)
  obtain res where "path_matches find_at \<lparr>pm_specifier = spec, pm_ignore_case = i\<rparr> path = Ret \<lparr>pmr_inner = res\<rparr>"
    "path_spec find_at \<lparr>pm_specifier = spec, pm_ignore_case = i\<rparr> path res"
    using path_matches_spec [OF assms(3,4), of "\<lparr>pm_specifier = spec, pm_ignore_case = i\<rparr>"] spec assms(2) slash(2)
    by auto
  then show ?thesis
    using spec slash(1) by (auto simp: path_spec_def pmr_matched_def fold_case_append Let_def split: if_splits)
qed

theorem path_separated_prefix_correct_witness:
  "\<exists>r. path_matches (\<lambda>(_ :: unit) _ _. None) \<lparr>pm_specifier = PathSeparatedPrefix ''/api/'', pm_ignore_case = False\<rparr> ''/apiary'' = Ret r
     \<and> \<not> pmr_matched r"
proof -
  have "path_specifier_try_from Some (EnvoyPathSeparatedPrefix ''/api'' :: unit envoy_path_specifier) = Some (PathSeparatedPrefix ''/api/'')"
    by (simp add: path_specifier_try_from_def ends_with_def)
  moreover have "is_ascii ''/api''" "is_ascii ''/apiary''" "regex_laws (\<lambda>(_ :: unit) _ _. None)"
    by (simp_all add: is_ascii_def is_ascii_byte_def regex_laws_def)
  ultimately show ?thesis
    using path_separated_prefix_correct [of Some "''/api''" "PathSeparatedPrefix ''/api/''" "''/apiary''" "\<lambda>(_ :: unit) _ _. None" False]
    by (auto simp: fold_case_def)
qed

text \<open>C6: \<open>RouteMatch::match_request\<close> matches exactly when the method, the path, every header
  matcher and every query-parameter matcher match; the early returns and short circuits lose
  nothing.  (The header and query matchers enter through the values they return.)\<close>
theorem match_request_correct:
  assumes "regex_laws find_at" and "is_ascii (paq_path (case uri_path_and_query (req_uri req) of Some p \<Rightarrow> p | None \<Rightarrow> empty_paq))"
    and "\<forall>pm psp. rm_path_matcher rm = Some pm \<and> pm_specifier pm = PathSeparatedPrefix psp \<longrightarrow> is_ascii psp \<and> psp \<noteq> []"
    and "\<forall>m \<in> set (rm_headers rm). request_matches H find_at m req = Ret (hm m)"
    and "\<forall>m \<in> set (rm_query_parameters rm). query_parameter_matches parse_query find_at m (uri_query (req_uri req)) = Ret (qm m)"
  shows "\<exists>r. match_request H find_at parse_query empty_paq rm req = Ret r
    \<and> (rmr_matched r \<longleftrightarrow>
         (\<forall>spec. rm_method_matcher rm = Some spec \<longrightarrow> method_specifier_matches spec (req_method req))
       \<and> (\<forall>pm. rm_path_matcher rm = Some pm \<longrightarrow> \<not> path_spec find_at pm
             (paq_path (case uri_path_and_query (req_uri req) of Some p \<Rightarrow> p | None \<Rightarrow> empty_paq)) None)
       \<and> (\<forall>m \<in> set (rm_headers rm). hm m) \<and> (\<forall>m \<in> set (rm_query_parameters rm). qm m))"
proof -
  let ?path = "paq_path (case uri_path_and_query (req_uri req) of Some p \<Rightarrow> p | None \<Rightarrow> empty_paq)"
  have hs: "allP (\<lambda>m. request_matches H find_at m req) (rm_headers rm) = Ret (\<forall>m \<in> set (rm_headers rm). hm m)"
    using assms(4) by (intro allP_cong_Ret) simp
  have qs: "allP (\<lambda>m. query_parameter_matches parse_query find_at m (uri_query (req_uri req))) (rm_query_parameters rm)
      = Ret (\<forall>m \<in> set (rm_query_parameters rm). qm m)"
    using assms(5) by (intro allP_cong_Ret) simp
  have rest: "\<exists>r. match_request_rest H find_at parse_query empty_paq rm req = Ret r
    \<and> (rmr_matched r \<longleftrightarrow> (\<forall>pm. rm_path_matcher rm = Some pm \<longrightarrow> \<not> path_spec find_at pm ?path None)
       \<and> (\<forall>m \<in> set (rm_headers rm). hm m) \<and> (\<forall>m \<in> set (rm_query_parameters rm). qm m))"
  proof (cases "rm_path_matcher rm")
    case None
    then show ?thesis
      by (auto simp: match_request_rest_def hs qs rmr_matched_def Let_def)
  next
    case (Some pm)
    obtain res where res: "path_matches find_at pm ?path = Ret \<lparr>pmr_inner = res\<rparr>" "path_spec find_at pm ?path res"
      using path_matches_spec [OF assms(2,1), of pm] assms(3) Some by blast
    have "path_spec find_at pm ?path None \<longleftrightarrow> res = None"
      using res(2) by (auto simp: path_spec_def Let_def split: path_specifier.splits)
    with Some res(1) show ?thesis
      by (cases res) (auto simp: match_request_rest_def hs qs rmr_matched_def pmr_matched_def Let_def)
  qed
  show ?thesis
  proof (cases "\<exists>spec. rm_method_matcher rm = Some spec \<and> \<not> method_specifier_matches spec (req_method req)")
    case True
    then show ?thesis
      by (auto simp: match_request_def method_matcher_matches_def rmr_matched_def)
  next
    case False
    then have "match_request H find_at parse_query empty_paq rm req = match_request_rest H find_at parse_query empty_paq rm req"
      by (auto simp: match_request_def method_matcher_matches_def rmr_matched_def split: option.split)
    with rest False show ?thesis by auto
  qed
qed

theorem match_request_correct_witness:
  "\<exists>r. match_request alist_headers (\<lambda>_ _ _. None) (\<lambda>_. []) \<lparr>paq_path = ''/'', paq_query = None\<rparr>
     (route_match_default :: unit route_match) \<lparr>req_method = ''GET'',
       req_uri = \<lparr>uri_scheme = None, uri_authority = None, uri_host = None, uri_port = None, uri_path = ''/a'',
         uri_query = None, uri_path_and_query = Some \<lparr>paq_path = ''/a'', paq_query = None\<rparr>\<rparr>, req_headers = []\<rparr> = Ret r
     \<and> rmr_matched r"
  using match_request_correct [where find_at = "\<lambda>(_ :: unit) _ _. None" and req = "\<lparr>req_method = ''GET'',
       req_uri = \<lparr>uri_scheme = None, uri_authority = None, uri_host = None, uri_port = None, uri_path = ''/a'',
         uri_query = None, uri_path_and_query = Some \<lparr>paq_path = ''/a'', paq_query = None\<rparr>\<rparr>, req_headers = []\<rparr>"
       and empty_paq = "\<lparr>paq_path = ''/'', paq_query = None\<rparr>" and rm = route_match_default and H = alist_headers
       and hm = "\<lambda>_. True" and parse_query = "\<lambda>_. []" and qm = "\<lambda>_. True"]
  by (auto simp: regex_laws_def is_ascii_def is_ascii_byte_def route_match_default_def path_spec_def fold_case_def)

text \<open>C12: after a match of an ASCII path by prefix, the prefix rewrite replaces exactly the matched bytes of the
  path and keeps the rest.  It keeps the query when the replacement has no question mark and drops it when it has one.
  The slice it takes never panics.  The path of a request contains no question mark: that is where
  the query starts.\<close>
theorem prefix_rewrite_correct:
  assumes "uri_path_and_query (req_uri req) = Some paq" and "is_ascii (paq_path paq)"
    and "rm_path_matcher rm = Some \<lparr>pm_specifier = PathPrefix p, pm_ignore_case = i\<rparr>"
    and "match_request H find_at parse_query empty_paq rm req = Ret r" and "rmr_matched r"
    and "CHR ''?'' \<notin> set (paq_path paq)"
  shows "fold_case i (take (length p) (paq_path paq)) = fold_case i p
    \<and> path_rewrite_apply replace_all parse_paq (RewritePrefix p') (Some paq) r =
        Ret (case parse_paq (p' @ drop (length p) (paq_path paq) @
                  (if CHR ''?'' \<in> set p' then [] else case paq_query paq of None \<Rightarrow> [] | Some q \<Rightarrow> ''?'' @ q)) of
               None \<Rightarrow> Inl () | Some new \<Rightarrow> Inr (Some new))"
proof -
  let ?path = "paq_path paq"
  have rest: "match_request_rest H find_at parse_query empty_paq rm req = Ret r"
    using match_request_matched_cases [OF assms(4,5)] by blast
  obtain pmr where pmr: "path_match r = Some pmr"
    "path_matches find_at \<lparr>pm_specifier = PathPrefix p, pm_ignore_case = i\<rparr> ?path = Ret pmr"
    using rest assms(1,3) by (auto simp: match_request_rest_def panic_simps)
  have m: "headers_matched r" "pmr_matched pmr"
    using assms(5) pmr(1) by (auto simp: rmr_matched_def)
  have inner: "pmr_inner pmr = Some (length p)" "\<exists>t. fold_case i ?path = fold_case i p @ t"
    using pmr(2) m(2) by (auto simp: path_matches_def cs_starts_with_ascii [OF assms(2)] pmr_matched_def split: if_splits)
  then have len: "length p \<le> length ?path"
    by (metis le_add1 length_append length_fold_case)
  have "fold_case i (take (length p) ?path) = take (length p) (fold_case i ?path)"
    by (simp add: fold_case_def to_ascii_lowercase_take)
  with inner(2) have take: "fold_case i (take (length p) ?path) = fold_case i p"
    by (metis append_eq_conv_conj length_fold_case)
  have "rmr_matched_range r = Some (0, length p)"
    using m(1) pmr(1) inner(1) by (simp add: rmr_matched_range_def pmr_matched_range_def)
  moreover have "slice ?path (length p) (length ?path) = Ret (drop (length p) ?path)"
    using len by (simp add: slice_ascii assms(2))
  moreover have "CHR ''?'' \<notin> set (drop (length p) ?path)"
    using assms(6) by (auto dest: in_set_dropD)
  ultimately show ?thesis
    using take by (cases "CHR ''?'' \<in> set p'") (auto simp: path_rewrite_apply_def Let_def split: option.split)
qed

theorem prefix_rewrite_correct_witness:
  "\<exists>r. match_request alist_headers (\<lambda>_ _ _. None) (\<lambda>_. []) \<lparr>paq_path = ''/'', paq_query = None\<rparr>
     \<lparr>rm_path_matcher = Some \<lparr>pm_specifier = (PathPrefix ''/v1'' :: unit path_specifier), pm_ignore_case = False\<rparr>,
      rm_method_matcher = None, rm_headers = [], rm_query_parameters = []\<rparr>
     \<lparr>req_method = ''GET'', req_uri = \<lparr>uri_scheme = None, uri_authority = None, uri_host = None, uri_port = None,
        uri_path = ''/v1/x'', uri_query = Some ''q'', uri_path_and_query = Some \<lparr>paq_path = ''/v1/x'', paq_query = Some ''q''\<rparr>\<rparr>,
      req_headers = []\<rparr> = Ret r
   \<and> path_rewrite_apply (\<lambda>(_ :: unit) _ _. None) (\<lambda>s. Some \<lparr>paq_path = s, paq_query = None\<rparr>) (RewritePrefix ''/v2'')
       (Some \<lparr>paq_path = ''/v1/x'', paq_query = Some ''q''\<rparr>) r
     = Ret (Inr (Some \<lparr>paq_path = ''/v2/x?q'', paq_query = None\<rparr>))"
proof -
  let ?paq = "\<lparr>paq_path = ''/v1/x'', paq_query = Some ''q''\<rparr>"
  let ?req = "\<lparr>req_method = ''GET'', req_uri = \<lparr>uri_scheme = None, uri_authority = None, uri_host = None, uri_port = None,
        uri_path = ''/v1/x'', uri_query = Some ''q'', uri_path_and_query = Some ?paq\<rparr>, req_headers = []\<rparr>"
  let ?rm = "\<lparr>rm_path_matcher = Some \<lparr>pm_specifier = (PathPrefix ''/v1'' :: unit path_specifier), pm_ignore_case = False\<rparr>,
      rm_method_matcher = None, rm_headers = [], rm_query_parameters = []\<rparr>"
  have m: "match_request alist_headers (\<lambda>_ _ _. None) (\<lambda>_. []) \<lparr>paq_path = ''/'', paq_query = None\<rparr> ?rm ?req
      = Ret \<lparr>path_match = Some \<lparr>pmr_inner = Some 3\<rparr>, headers_matched = True, query_parameters_matched = True\<rparr>"
    by (simp add: match_request_def match_request_rest_def path_matches_def cs_starts_with_def pmr_matched_def)
  moreover have "is_ascii ''/v1/x''"
    by (simp add: is_ascii_def is_ascii_byte_def)
  ultimately show ?thesis
    using prefix_rewrite_correct [of ?req ?paq ?rm "''/v1''" False, OF _ _ _ m, of "\<lambda>(_ :: unit) _ _. None"
        "\<lambda>s. Some \<lparr>paq_path = s, paq_query = None\<rparr>" "''/v2''"]
    by (simp add: rmr_matched_def pmr_matched_def)
qed

end
