(* ===== verification/Event_Error.thy ===== *)
theory Event_Error
  imports Http_Types
begin

text \<open>
  Upstream failures and the responses the proxy makes itself: \<open>orion-lib/src/event_error.rs\<close> (the kinds
  of events, their inference from a chain of errors, the details that are logged) and
  \<open>orion-lib/src/listeners/synthetic_http_response.rs\<close>.

  An error is the list of the errors of its \<open>source()\<close> chain, outermost first; an element says what
  the downcasts find there.
\<close>

section \<open>Events\<close>

datatype io_error_kind =
  ConnectionRefused | NotConnected | AddrInUse | AddrNotAvailable | NetworkUnreachable | PermissionDenied
  | ConnectionAborted | ConnectionReset | TimedOut | InvalidData | OtherKind

datatype event_error =
  IoError io_error_kind | ConnectTimeout | PerTryTimeout | RouteTimeout | Reset | RefusedStream | Http3PostConnectFailure

datatype event_kind =
  EvError event_error | AdminFilterResponse | ClusterNotFound | EvDirectResponse | FilterChainNotFound
  | InternalRedirect | NoHealthyUpstream | RouteNotFound | UpgradeFailed | RbacAccessDenied str | RateLimited
  | ViaUpstream | ExtProcError

definition io_response_code_details :: "io_error_kind \<Rightarrow> str" where
  "io_response_code_details k =
     (case k of
        ConnectionRefused \<Rightarrow> ''upstream_reset_before_response_started{CONNECTION_REFUSED}''
      | NotConnected \<Rightarrow> ''upstream_reset_after_response_started{NOT_CONNECTED}''
      | AddrInUse \<Rightarrow> ''upstream_reset_before_response_started{ADDR_IN_USE}''
      | AddrNotAvailable \<Rightarrow> ''upstream_reset_before_response_started{ADDR_NOT_AVAILABLE}''
      | NetworkUnreachable \<Rightarrow> ''upstream_reset_before_response_started{NETWORK_UNREACHABLE}''
      | PermissionDenied \<Rightarrow> ''upstream_reset_before_response_started{PERMISSION_DENIED}''
      | ConnectionAborted \<Rightarrow> ''upstream_reset_after_response_started{CONNECTION_ABORTED}''
      | ConnectionReset \<Rightarrow> ''upstream_reset_after_response_started{TCP_RESET}''
      | TimedOut \<Rightarrow> ''streaming_timeout''
      | _ \<Rightarrow> ''connection_reset'')"

definition io_termination_details :: "io_error_kind \<Rightarrow> str" where
  "io_termination_details k = (case k of TimedOut \<Rightarrow> ''transport socket timeout was reached'' | _ \<Rightarrow> ''I/O error'')"

definition io_transport_event_error :: "io_error_kind \<Rightarrow> str" where
  "io_transport_event_error k =
     (case k of
        ConnectionRefused \<Rightarrow> ''connection_refused''
      | NotConnected \<Rightarrow> ''not_connected''
      | AddrInUse \<Rightarrow> ''addr_in_use''
      | AddrNotAvailable \<Rightarrow> ''addr_not_available''
      | NetworkUnreachable \<Rightarrow> ''network_unreachable''
      | PermissionDenied \<Rightarrow> ''permission_denied''
      | ConnectionAborted \<Rightarrow> ''connection_aborted''
      | ConnectionReset \<Rightarrow> ''connection_reset''
      | TimedOut \<Rightarrow> ''connection_timed_out''
      | _ \<Rightarrow> ''connect_failure'')"

definition transport_event_error_try_from :: "event_error \<Rightarrow> str option" where
  "transport_event_error_try_from e =
     (case e of
        IoError k \<Rightarrow> Some (io_transport_event_error k)
      | ConnectTimeout \<Rightarrow> Some ''connect_timeout''
      | Reset \<Rightarrow> Some ''upstream_reset''
      | _ \<Rightarrow> None)"

definition code_details :: "event_kind \<Rightarrow> str option" where
  "code_details ev =
     (case ev of
        EvError err \<Rightarrow>
          (case err of
             IoError k \<Rightarrow> Some (io_response_code_details k)
           | ConnectTimeout \<Rightarrow> Some ''connect_timeout''
           | PerTryTimeout \<Rightarrow> Some ''upstream_per_try_timeout''
           | RouteTimeout \<Rightarrow> Some ''upstream_response_timeout''
           | Reset \<Rightarrow> Some ''upstream_reset_after_response_started{TCP_RESET}''
           | RefusedStream \<Rightarrow> Some ''http2.remote_refuse''
           | Http3PostConnectFailure \<Rightarrow> Some ''http3.remote_reset'')
      | AdminFilterResponse \<Rightarrow> Some ''admin_filter_response''
      | ClusterNotFound \<Rightarrow> Some ''cluster_not_found''
      | EvDirectResponse \<Rightarrow> Some ''direct_response''
      | FilterChainNotFound \<Rightarrow> Some ''filter_chain_not_found''
      | InternalRedirect \<Rightarrow> Some ''internal_redirect''
      | NoHealthyUpstream \<Rightarrow> Some ''no_healthy_upstream''
      | RouteNotFound \<Rightarrow> Some ''route_not_found''
      | UpgradeFailed \<Rightarrow> Some ''upgrade_failed''
      | RbacAccessDenied i \<Rightarrow> Some (''rbac_access_denied['' @ i @ '']'')
      | RateLimited \<Rightarrow> Some ''rate_limited''
      | ViaUpstream \<Rightarrow> Some ''via_upstream''
      | ExtProcError \<Rightarrow> Some ''ext_proc_error'')"

definition termination_details :: "event_kind \<Rightarrow> str option" where
  "termination_details ev =
     (case ev of
        EvError err \<Rightarrow>
          (case err of
             IoError k \<Rightarrow> Some (io_termination_details k)
           | RouteTimeout \<Rightarrow> Some ''route timeout was reached''
           | _ \<Rightarrow> None)
      | RbacAccessDenied i \<Rightarrow> Some (''rbac_access_denied_matched_policy['' @ i @ '']'')
      | _ \<Rightarrow> None)"

section \<open>Response flags\<close>

text \<open>The bit flags the sources set, by name; a \<open>ResponseFlags\<close> value is the set of those that are on.\<close>
datatype response_flag =
  UpstreamConnectionFailure | UpstreamRequestTimeout | UpstreamRemoteReset | FlagRateLimited | NoRouteFound
  | UpstreamConnectionTermination | DownstreamConnectionTermination | DownstreamRemoteReset | StreamIdleTimeout
  | InvalidEnvoyRequestHeaders | UpstreamProtocolError | LocalReset | NoFilterConfigFound | UnauthorizedExternalService

type_synonym response_flags = "response_flag set"

datatype body_kind = KindRequest | KindResponse

text \<open>What the accessors of \<open>hyper::Error\<close> say.\<close>
record hyper_error =
  is_body_write_aborted :: bool
  is_canceled :: bool
  is_closed :: bool
  is_incomplete_message :: bool
  is_timeout :: bool
  is_parse :: bool
  is_parse_status :: bool
  is_parse_too_large :: bool
  is_user :: bool

definition hyper_response_flags :: "hyper_error \<Rightarrow> body_kind \<Rightarrow> response_flags" where
  "hyper_response_flags err kind =
     (let pick = (\<lambda>req resp. case kind of KindRequest \<Rightarrow> {req} | KindResponse \<Rightarrow> {resp}) in
      (if is_body_write_aborted err then pick UpstreamConnectionTermination DownstreamConnectionTermination else {}) \<union>
      (if is_canceled err then pick UpstreamRemoteReset DownstreamRemoteReset else {}) \<union>
      (if is_closed err then pick UpstreamConnectionTermination DownstreamConnectionTermination else {}) \<union>
      (if is_incomplete_message err \<or> is_timeout err then pick UpstreamRequestTimeout StreamIdleTimeout else {}) \<union>
      (if is_parse err \<or> is_parse_status err \<or> is_parse_too_large err
       then pick InvalidEnvoyRequestHeaders UpstreamProtocolError else {}) \<union>
      (if is_user err then pick LocalReset DownstreamConnectionTermination else {}))"

datatype poly_body_error = BodyHyper hyper_error | BodyInfallible | BodyGrpc | BodyBoxed | BodyTimedOut | BodyTrailers str | BodyBadVariant

definition poly_body_response_flags :: "poly_body_error \<Rightarrow> body_kind \<Rightarrow> response_flags" where
  "poly_body_response_flags err kind =
     (case err of
        BodyHyper e \<Rightarrow> hyper_response_flags e kind
      | BodyTimedOut \<Rightarrow> (case kind of KindRequest \<Rightarrow> {UpstreamRequestTimeout} | KindResponse \<Rightarrow> {StreamIdleTimeout})
      | _ \<Rightarrow> {})"

definition event_response_flags :: "event_error \<Rightarrow> response_flags" where
  "event_response_flags err =
     (case err of
        IoError _ \<Rightarrow> {UpstreamConnectionFailure}
      | ConnectTimeout \<Rightarrow> {UpstreamConnectionFailure}
      | PerTryTimeout \<Rightarrow> {UpstreamRequestTimeout}
      | RouteTimeout \<Rightarrow> {}
      | Reset \<Rightarrow> {UpstreamRemoteReset}
      | RefusedStream \<Rightarrow> {UpstreamRemoteReset}
      | Http3PostConnectFailure \<Rightarrow> {UpstreamRemoteReset})"

section \<open>Inference from a chain of errors\<close>

datatype h2_reason = REFUSED_STREAM | CONNECT_ERROR | OtherReason

datatype error_node =
  ElapsedError | EventNode event_error | H2Error "h2_reason option" | IoNode io_error_kind | OtherError

type_synonym error_chain = "error_node list"

fun event_try_infer_from :: "error_chain \<Rightarrow> event_error option" where
  "event_try_infer_from (ElapsedError # source) = Some PerTryTimeout"
| "event_try_infer_from (EventNode failure # source) = Some failure"
| "event_try_infer_from (H2Error (Some REFUSED_STREAM) # source) = Some RefusedStream"
| "event_try_infer_from (H2Error (Some CONNECT_ERROR) # source) = Some (IoError ConnectionRefused)"
| "event_try_infer_from (H2Error (Some OtherReason) # source) = Some Reset"
| "event_try_infer_from (IoNode kind # source) = Some (IoError kind)"
| "event_try_infer_from (_ # source) = (if source = [] then Some Reset else event_try_infer_from source)"
| "event_try_infer_from [] = Some Reset"

text \<open>\<open>find_error_in_chain\<close>: the first error of the chain of a given type.\<close>
fun find_error_in_chain :: "(error_node \<Rightarrow> 'e option) \<Rightarrow> error_chain \<Rightarrow> 'e option" where
  "find_error_in_chain downcast [] = None"
| "find_error_in_chain downcast (err # source) =
     (case downcast err of Some found \<Rightarrow> Some found | None \<Rightarrow> find_error_in_chain downcast source)"

section \<open>Synthetic responses\<close>

datatype http_version = HTTP_09 | HTTP_10 | HTTP_11 | HTTP_2 | HTTP_3

record synthetic_http_response =
  syn_status :: u16
  syn_event :: event_kind
  syn_flags :: response_flags
  syn_body :: str
  close_connection :: bool

definition internal_error :: "event_kind \<Rightarrow> response_flags \<Rightarrow> synthetic_http_response" where
  "internal_error ev flags = \<lparr>syn_status = 500, syn_event = ev, syn_flags = flags, syn_body = [], close_connection = True\<rparr>"

definition internal_error_with_msg :: "str \<Rightarrow> event_kind \<Rightarrow> response_flags \<Rightarrow> synthetic_http_response" where
  "internal_error_with_msg msg ev flags =
     \<lparr>syn_status = 500, syn_event = ev, syn_flags = flags, syn_body = msg, close_connection = True\<rparr>"

definition bad_gateway :: "event_kind \<Rightarrow> response_flags \<Rightarrow> synthetic_http_response" where
  "bad_gateway ev flags = \<lparr>syn_status = 502, syn_event = ev, syn_flags = flags, syn_body = [], close_connection = True\<rparr>"

definition forbidden :: "event_kind \<Rightarrow> str \<Rightarrow> synthetic_http_response" where
  "forbidden ev msg = \<lparr>syn_status = 403, syn_event = ev, syn_flags = {}, syn_body = msg, close_connection = True\<rparr>"

definition service_unavailable :: "event_kind \<Rightarrow> response_flags \<Rightarrow> synthetic_http_response" where
  "service_unavailable ev flags =
     \<lparr>syn_status = 503, syn_event = ev, syn_flags = flags, syn_body = [], close_connection = True\<rparr>"

definition gateway_timeout :: "event_kind \<Rightarrow> response_flags \<Rightarrow> synthetic_http_response" where
  "gateway_timeout ev flags =
     \<lparr>syn_status = 504, syn_event = ev, syn_flags = flags, syn_body = [], close_connection = True\<rparr>"

definition not_found :: "event_kind \<Rightarrow> response_flags \<Rightarrow> synthetic_http_response" where
  "not_found ev flags = \<lparr>syn_status = 404, syn_event = ev, syn_flags = flags, syn_body = [], close_connection = False\<rparr>"

definition upgrade_required :: "event_kind \<Rightarrow> synthetic_http_response" where
  "upgrade_required ev = \<lparr>syn_status = 426, syn_event = ev, syn_flags = {}, syn_body = [], close_connection = True\<rparr>"

definition bad_request :: "event_kind \<Rightarrow> synthetic_http_response" where
  "bad_request ev = \<lparr>syn_status = 400, syn_event = ev, syn_flags = {}, syn_body = [], close_connection = True\<rparr>"

definition not_allowed :: "event_kind \<Rightarrow> response_flags \<Rightarrow> synthetic_http_response" where
  "not_allowed ev flags = \<lparr>syn_status = 405, syn_event = ev, syn_flags = flags, syn_body = [], close_connection = True\<rparr>"

definition custom_error :: "u16 \<Rightarrow> event_kind \<Rightarrow> response_flags \<Rightarrow> synthetic_http_response" where
  "custom_error status ev flags =
     \<lparr>syn_status = status, syn_event = ev, syn_flags = flags, syn_body = [], close_connection = False\<rparr>"

text \<open>A response with what the proxy keeps beside its head.\<close>
record 'h full_response = "'h response" +
  resp_version :: http_version
  resp_body :: str
  resp_flags :: response_flags
  resp_event :: "event_kind option"

definition into_response :: "'h header_map_ops \<Rightarrow> synthetic_http_response \<Rightarrow> http_version \<Rightarrow> 'h full_response" where
  "into_response H syn version =
     \<lparr>resp_status = syn_status syn,
      resp_headers = (if close_connection syn \<and> (version = HTTP_10 \<or> version = HTTP_11)
                      then hm_insert H (hm_empty H) ''connection'' ''close'' else hm_empty H),
      resp_version = version, resp_body = syn_body syn, resp_flags = syn_flags syn, resp_event = Some (syn_event syn)\<rparr>"

section \<open>Facts\<close>

text \<open>Every chain of errors is some event: the fallback is a reset.\<close>
lemma event_try_infer_total: "\<exists>ev. event_try_infer_from err = Some ev"
  by (induction err rule: event_try_infer_from.induct) auto

text \<open>What decides is the first element of the chain that carries a reason.\<close>
definition node_event :: "error_node \<Rightarrow> event_error option" where
  "node_event n =
     (case n of ElapsedError \<Rightarrow> Some PerTryTimeout | EventNode e \<Rightarrow> Some e
      | H2Error (Some REFUSED_STREAM) \<Rightarrow> Some RefusedStream
      | H2Error (Some CONNECT_ERROR) \<Rightarrow> Some (IoError ConnectionRefused)
      | H2Error (Some OtherReason) \<Rightarrow> Some Reset
      | H2Error None \<Rightarrow> None | IoNode k \<Rightarrow> Some (IoError k) | OtherError \<Rightarrow> None)"

lemma event_try_infer_first:
  "event_try_infer_from err =
     Some (case find_error_in_chain node_event err of Some ev \<Rightarrow> ev | None \<Rightarrow> Reset)"
  by (induction err rule: event_try_infer_from.induct) (auto simp: node_event_def)

end
