(* ===== verification/Ip_Text.thy ===== *)
theory Ip_Text
  imports Orion_Prelude
begin

text \<open>
  The text form of IP addresses: what \<open>Display\<close> and \<open>FromStr\<close> of \<open>std::net::IpAddr\<close> compute, for the sources
  that print addresses into headers and read them back, and the splitting and trimming of strings.
\<close>

section \<open>Splitting and trimming\<close>

text \<open>\<open>str::split\<close> with a character: always at least one piece.\<close>
fun split_on :: "char \<Rightarrow> str \<Rightarrow> str list" where
  "split_on c [] = [[]]"
| "split_on c (x # xs) =
     (if x = c then [] # split_on c xs
      else case split_on c xs of p # ps \<Rightarrow> (x # p) # ps | [] \<Rightarrow> [[x]])"

definition is_ascii_whitespace :: "char \<Rightarrow> bool" where
  "is_ascii_whitespace c \<longleftrightarrow> c \<in> {CHR 9, CHR 10, CHR 11, CHR 12, CHR 13, CHR 32}"

text \<open>\<open>str::trim\<close> on ASCII strings.\<close>
definition trim :: "str \<Rightarrow> str" where
  "trim s = rev (dropWhile is_ascii_whitespace (rev (dropWhile is_ascii_whitespace s)))"

section \<open>Octets and segments\<close>

definition v4_octets :: "32 word \<Rightarrow> nat list" where
  "v4_octets w = map (\<lambda>i. unat w div 256 ^ i mod 256) [3, 2, 1, 0]"

definition v4_of_octets :: "nat list \<Rightarrow> 32 word" where
  "v4_of_octets os = word_of_nat (foldl (\<lambda>a o'. a * 256 + o') 0 os)"

definition v6_segments :: "128 word \<Rightarrow> nat list" where
  "v6_segments w = map (\<lambda>i. unat w div 65536 ^ i mod 65536) [7, 6, 5, 4, 3, 2, 1, 0]"

definition v6_of_segments :: "nat list \<Rightarrow> 128 word" where
  "v6_of_segments ss = word_of_nat (foldl (\<lambda>a s. a * 65536 + s) 0 ss)"

section \<open>Printing\<close>

definition digit_char :: "nat \<Rightarrow> char" where
  "digit_char d = (if d < 10 then char_of (48 + d) else char_of (87 + d))"

fun show_radix :: "nat \<Rightarrow> nat \<Rightarrow> str" where
  "show_radix r n = (if r < 2 \<or> n < r then [digit_char n] else show_radix r (n div r) @ [digit_char (n mod r)])"

declare show_radix.simps [simp del]

fun join_with :: "str \<Rightarrow> str list \<Rightarrow> str" where
  "join_with sep [] = []"
| "join_with sep [x] = x"
| "join_with sep (x # y # zs) = x @ sep @ join_with sep (y # zs)"

definition show_v4 :: "32 word \<Rightarrow> str" where
  "show_v4 w = join_with ''.'' (map (show_radix 10) (v4_octets w))"

text \<open>The first longest run of zero segments, as its start and length.\<close>
fun longest_zeroes :: "nat \<Rightarrow> nat list \<Rightarrow> nat \<times> nat \<Rightarrow> nat \<times> nat \<Rightarrow> nat \<times> nat" where
  "longest_zeroes i [] current longest = longest"
| "longest_zeroes i (s # ss) current longest =
     (if s = 0 then
        let current = (if snd current = 0 then (i, 1) else (fst current, snd current + 1))
        in longest_zeroes (i + 1) ss current (if snd current > snd longest then current else longest)
      else longest_zeroes (i + 1) ss (0, 0) longest)"

definition show_v6 :: "128 word \<Rightarrow> str" where
  "show_v6 w =
     (let segments = v6_segments w;
          subslice = (\<lambda>ss. join_with '':'' (map (show_radix 16) ss)) in
      if take 6 segments = [0, 0, 0, 0, 0, 65535] then ''::ffff:'' @ show_v4 (ucast w)
      else let (start, len) = longest_zeroes 0 segments (0, 0) (0, 0) in
           if len > 1 then subslice (take start segments) @ ''::'' @ subslice (drop (start + len) segments)
           else subslice segments)"

definition show_ip :: "ip_addr \<Rightarrow> str" where
  "show_ip ip = (case ip of V4 w \<Rightarrow> show_v4 w | V6 w \<Rightarrow> show_v6 w)"

section \<open>Parsing\<close>

definition to_digit :: "nat \<Rightarrow> char \<Rightarrow> nat option" where
  "to_digit radix c =
     (let n = of_char c :: nat;
          d = (if 48 \<le> n \<and> n \<le> 57 then n - 48 else if 97 \<le> n \<and> n \<le> 122 then n - 87
               else if 65 \<le> n \<and> n \<le> 90 then n - 55 else 99)
      in if d < radix then Some d else None)"

text \<open>The digits read: \<^const>\<open>None\<close> when the value leaves \<open>bound\<close> or there are more than \<open>max_digits\<close>.\<close>
fun read_digits :: "nat \<Rightarrow> nat \<Rightarrow> nat \<Rightarrow> nat \<Rightarrow> nat \<Rightarrow> str \<Rightarrow> (nat \<times> nat \<times> str) option" where
  "read_digits radix max_digits bound count acc [] = Some (count, acc, [])"
| "read_digits radix max_digits bound count acc (c # cs) =
     (case to_digit radix c of
        None \<Rightarrow> Some (count, acc, c # cs)
      | Some d \<Rightarrow>
          let acc' = acc * radix + d in
          if acc' > bound \<or> count + 1 > max_digits then None
          else read_digits radix max_digits bound (count + 1) acc' cs)"

definition read_number :: "nat \<Rightarrow> nat \<Rightarrow> nat \<Rightarrow> bool \<Rightarrow> str \<Rightarrow> (nat \<times> str) option" where
  "read_number radix max_digits bound allow_zero_prefix s =
     (case read_digits radix max_digits bound 0 0 s of
        None \<Rightarrow> None
      | Some (count, v, rest) \<Rightarrow>
          if count = 0 then None
          else if \<not> allow_zero_prefix \<and> hd s = CHR ''0'' \<and> count > 1 then None
          else Some (v, rest))"

definition read_given_char :: "char \<Rightarrow> str \<Rightarrow> str option" where
  "read_given_char c s = (case s of x # xs \<Rightarrow> if x = c then Some xs else None | [] \<Rightarrow> None)"

text \<open>\<open>read_separator\<close>: the separator is read before every element but the first.\<close>
definition read_separator :: "char \<Rightarrow> nat \<Rightarrow> (str \<Rightarrow> ('a \<times> str) option) \<Rightarrow> str \<Rightarrow> ('a \<times> str) option" where
  "read_separator sep index p s = (if index > 0 then Option.bind (read_given_char sep s) p else p s)"

fun read_octets :: "nat \<Rightarrow> nat \<Rightarrow> str \<Rightarrow> (nat list \<times> str) option" where
  "read_octets i 0 s = Some ([], s)"
| "read_octets i (Suc n) s =
     (case read_separator (CHR ''.'') i (read_number 10 3 255 False) s of
        None \<Rightarrow> None
      | Some (o', rest) \<Rightarrow> map_option (\<lambda>(os, rest'). (o' # os, rest')) (read_octets (i + 1) n rest))"

definition read_ipv4 :: "str \<Rightarrow> (nat list \<times> str) option" where
  "read_ipv4 s = read_octets 0 4 s"

text \<open>\<open>read_groups\<close>: the groups read, whether they end in an embedded IPv4 address, and the rest.\<close>
fun read_groups :: "nat \<Rightarrow> nat \<Rightarrow> str \<Rightarrow> nat list \<times> bool \<times> str" where
  "read_groups i 0 s = ([], False, s)"
| "read_groups i (Suc n) s =
     (case (if n > 0 then read_separator (CHR '':'') i read_ipv4 s else None) of
        Some (os, rest) \<Rightarrow> ([os ! 0 * 256 + os ! 1, os ! 2 * 256 + os ! 3], True, rest)
      | None \<Rightarrow>
          (case read_separator (CHR '':'') i (read_number 16 4 65535 True) s of
             None \<Rightarrow> ([], False, s)
           | Some (g, rest) \<Rightarrow> let (gs, v4, rest') = read_groups (i + 1) n rest in (g # gs, v4, rest')))"

definition read_ipv6 :: "str \<Rightarrow> (nat list \<times> str) option" where
  "read_ipv6 s =
     (let (head, head_ipv4, rest) = read_groups 0 8 s in
      if length head = 8 then Some (head, rest)
      else if head_ipv4 then None
      else Option.bind (Option.bind (read_given_char (CHR '':'') rest) (read_given_char (CHR '':''))) (\<lambda>rest.
             let (tail, _, rest') = read_groups 0 (8 - (length head + 1)) rest
             in Some (head @ replicate (8 - length head - length tail) 0 @ tail, rest')))"

definition parse_ip :: "str \<Rightarrow> ip_addr option" where
  "parse_ip s =
     (case read_ipv4 s of
        Some (os, rest) \<Rightarrow> if rest = [] then Some (V4 (v4_of_octets os)) else None
      | None \<Rightarrow>
          (case read_ipv6 s of
             Some (ss, rest) \<Rightarrow> if rest = [] then Some (V6 (v6_of_segments ss)) else None
           | None \<Rightarrow> None))"

section \<open>Facts\<close>

lemma split_on_nonempty [simp]: "split_on c s \<noteq> []"
  by (induction s) (auto split: list.splits)


section \<open>The characters and the length of printed addresses\<close>

definition address_chars :: "char set" where
  "address_chars = digit_char ` {..<16} \<union> {CHR ''.'', CHR '':''}"

lemma address_char_visible: "c \<in> address_chars \<Longrightarrow> 32 \<le> (of_char c :: nat) \<and> (of_char c :: nat) < 127"
  by (auto simp: address_chars_def digit_char_def)

lemma show_radix_chars: "2 \<le> r \<Longrightarrow> r \<le> 16 \<Longrightarrow> set (show_radix r n) \<subseteq> digit_char ` {..<16}"
proof (induction r n rule: show_radix.induct)
  case (1 r n)
  show ?case
  proof (cases "n < r")
    case True
    then show ?thesis using 1(3) by (subst show_radix.simps) auto
  next
    case False
    have "n mod r < r" using 1(2) by (intro mod_less_divisor) simp
    then have "n mod r < 16" using 1(3) by simp
    moreover have "set (show_radix r (n div r)) \<subseteq> digit_char ` {..<16}" using 1 False by simp
    ultimately show ?thesis using False 1(2) by (subst show_radix.simps) auto
  qed
qed

lemma join_with_chars: "set sep \<subseteq> A \<Longrightarrow> \<forall>x \<in> set xs. set x \<subseteq> A \<Longrightarrow> set (join_with sep xs) \<subseteq> A"
  by (induction sep xs rule: join_with.induct) auto

lemma show_radix_address: "2 \<le> r \<Longrightarrow> r \<le> 16 \<Longrightarrow> set (show_radix r n) \<subseteq> address_chars"
  using show_radix_chars [of r n] by (auto simp: address_chars_def)

lemma show_v4_chars: "set (show_v4 w) \<subseteq> address_chars"
  unfolding show_v4_def
proof (rule join_with_chars)
  show "set ''.'' \<subseteq> address_chars" by (simp add: address_chars_def)
qed (use show_radix_address [of 10] in auto)

lemma show_v6_chars: "set (show_v6 w) \<subseteq> address_chars"
proof -
  have sub: "set (join_with '':'' (map (show_radix 16) ss)) \<subseteq> address_chars" for ss
  proof (rule join_with_chars)
    show "set '':'' \<subseteq> address_chars" by (simp add: address_chars_def)
  qed (use show_radix_address [of 16] in auto)
  have f: "CHR ''f'' \<in> address_chars"
  proof -
    have "CHR ''f'' = digit_char 15" by code_simp
    then show ?thesis unfolding address_chars_def by (intro UnI1 image_eqI [of _ _ 15]) simp_all
  qed
  have colon: "CHR '':'' \<in> address_chars" by (simp add: address_chars_def)
  show ?thesis
    using sub f colon show_v4_chars [of "ucast w"] by (simp add: show_v6_def Let_def split_beta)
qed

lemma length_show_radix: "2 \<le> r \<Longrightarrow> n < r ^ Suc k \<Longrightarrow> length (show_radix r n) \<le> Suc k"
proof (induction k arbitrary: n)
  case 0
  then show ?case by (subst show_radix.simps) simp
next
  case (Suc k)
  have "n div r < r ^ Suc k"
    using Suc.prems by (simp add: less_mult_imp_div_less mult.commute)
  with Suc.IH [OF Suc.prems(1)] show ?case by (subst show_radix.simps) simp
qed

lemma length_join_with: "\<forall>x \<in> set xs. length x \<le> m \<Longrightarrow> length (join_with sep xs) + length sep \<le> length xs * (m + length sep) + length sep * (if xs = [] then 1 else 0)"
  by (induction sep xs rule: join_with.induct) (auto simp: algebra_simps)

lemma length_show_v4: "length (show_v4 w) \<le> 15"
proof -
  have "length (show_radix 10 n) \<le> 3" if "n < 256" for n
    using length_show_radix [of 10 n 2] that by simp
  then have "\<forall>x \<in> set (map (show_radix 10) (v4_octets w)). length x \<le> 3"
    by (auto simp: v4_octets_def)
  from length_join_with [OF this, of "''.''"] show ?thesis
    by (simp add: show_v4_def v4_octets_def)
qed

lemma longest_zeroes_bound:
  "\<lbrakk>snd c = 0 \<or> fst c + snd c = i; fst l + snd l \<le> i; longest_zeroes i ss c l = (start, len)\<rbrakk> \<Longrightarrow> start + len \<le> i + length ss"
  by (induction i ss c l rule: longest_zeroes.induct) (fastforce simp: Let_def split: if_splits)+

lemma length_show_v6: "length (show_v6 w) \<le> 39"
proof -
  have seg: "length (show_radix 16 n) \<le> 4" if "n < 65536" for n
    using length_show_radix [of 16 n 3] that by simp
  have sub: "length (join_with '':'' (map (show_radix 16) ss)) \<le> 5 * length ss - 1" if "set ss \<subseteq> set (v6_segments w)" for ss
  proof -
    have "\<forall>x \<in> set (map (show_radix 16) ss). length x \<le> 4"
      using that seg by (fastforce simp: v6_segments_def)
    from length_join_with [OF this, of "'':''"] show ?thesis by (cases ss) auto
  qed
  have len: "length (v6_segments w) = 8" by (simp add: v6_segments_def)
  obtain start n where z: "longest_zeroes 0 (v6_segments w) (0, 0) (0, 0) = (start, n)" by fastforce
  have "start + n \<le> 8" using longest_zeroes_bound [OF _ _ z] len by simp
  moreover have "length (join_with '':'' (map (show_radix 16) (take start (v6_segments w)))) \<le> 5 * start"
    using sub [OF set_take_subset [of start]] len by simp
  moreover have "length (join_with '':'' (map (show_radix 16) (drop (start + n) (v6_segments w)))) \<le> 5 * (8 - (start + n))"
    using sub [OF set_drop_subset [of "start + n"]] len by simp
  ultimately show ?thesis
    using z sub [OF subset_refl] len length_show_v4 [of "ucast w"] by (auto simp: show_v6_def Let_def)
qed

end
