(* ===== verification/Http_Modifiers.thy ===== *)
theory Http_Modifiers
  imports Event_Error Ip_Text
begin

unbundle bit_operations_syntax

text \<open>
  What the connection manager does to the head of a request: the \<open>x-forwarded-for\<close> processing and the
  removal of hop-by-hop headers (\<open>orion-lib/src/listeners/http_connection_manager/http_modifiers.rs\<close>), the
  websocket upgrade checks (\<open>upgrades.rs\<close>), and the change of URI and version for the upstream
  (\<open>orion-lib/src/transport/http_channel.rs\<close>).

  Building a URI from parts is code of the crate \<open>http\<close> and an argument.
\<close>

section \<open>Addresses\<close>

definition v4_is_private :: "32 word \<Rightarrow> bool" where
  "v4_is_private w \<longleftrightarrow> w AND 0xFF000000 = 0x0A000000 \<or> w AND 0xFFF00000 = 0xAC100000 \<or> w AND 0xFFFF0000 = 0xC0A80000"

definition v4_is_loopback :: "32 word \<Rightarrow> bool" where
  "v4_is_loopback w \<longleftrightarrow> w AND 0xFF000000 = 0x7F000000"

definition v6_first_segment :: "128 word \<Rightarrow> 16 word" where
  "v6_first_segment w = ucast (drop_bit 112 w)"

definition is_internal_ip :: "ip_addr \<Rightarrow> bool" where
  "is_internal_ip ip =
     (case ip of
        V4 ipv4 \<Rightarrow> v4_is_private ipv4 \<or> v4_is_loopback ipv4
      | V6 ipv6 \<Rightarrow>
          v6_first_segment ipv6 AND 0xfe00 = 0xfc00
          \<or> ipv6 = 0
          \<or> ipv6 = 1
          \<or> v6_first_segment ipv6 AND 0xfe00 = 0xfc00
          \<or> v6_first_segment ipv6 AND 0xffc0 = 0xfe80)"

section \<open>x-forwarded-for\<close>

record xff_settings =
  use_remote_address :: bool
  skip_xff_append :: bool
  xff_num_trusted_hops :: u32

definition append_hop_to_xff :: "str option \<Rightarrow> ip_addr \<Rightarrow> str" where
  "append_hop_to_xff existing_xff downstream_ip =
     (let ip_str = show_ip downstream_ip in
      case existing_xff of
        Some existing_str \<Rightarrow> if existing_str = [] then ip_str else existing_str @ '', '' @ ip_str
      | None \<Rightarrow> ip_str)"

definition xff_addresses :: "str option \<Rightarrow> ip_addr list" where
  "xff_addresses existing_xff =
     (case existing_xff of None \<Rightarrow> []
      | Some value \<Rightarrow> List.map_filter (\<lambda>ip_str. parse_ip (trim ip_str)) (split_on (CHR '','') value))"

definition determine_trusted_client_address :: "str option \<Rightarrow> socket_addr \<Rightarrow> xff_settings \<Rightarrow> ip_addr \<times> bool" where
  "determine_trusted_client_address existing_xff downstream_addr s =
     (let xff_ips = xff_addresses existing_xff;
          num_xff_ips = length xff_ips;
          hops = unat (xff_num_trusted_hops s);
          from_right = (\<lambda>i. if num_xff_ips \<ge> i then xff_ips ! (num_xff_ips - i) else sa_ip downstream_addr)
      in if \<not> use_remote_address s \<and> xff_ips \<noteq> [] then
           (if hops > 0 then (from_right (hops + 1), False)
            else (xff_ips ! (num_xff_ips - 1), num_xff_ips = 1))
         else if use_remote_address s \<and> hops > 0 \<and> xff_ips \<noteq> [] then (from_right hops, False)
         else (sa_ip downstream_addr, False))"

definition process_xff_headers :: "'h header_map_ops \<Rightarrow> 'h \<Rightarrow> socket_addr \<Rightarrow> xff_settings \<Rightarrow> 'h" where
  "process_xff_headers H headers downstream_addr s =
     (let downstream_is_internal = is_internal_ip (sa_ip downstream_addr);
          downstream_is_external = (\<not> downstream_is_internal);
          headers = (if downstream_is_external
                     then hm_remove H (hm_remove H headers ''x-envoy-external-address'') ''x-envoy-internal''
                     else headers);
          transparent_mode = (\<not> use_remote_address s \<and> skip_xff_append s)
      in if transparent_mode then headers
         else
          let existing_xff = Option.bind (hm_get H headers ''x-forwarded-for'') (hv_to_str H);
              (trusted_client_address, xff_contains_single_ip) =
                determine_trusted_client_address existing_xff downstream_addr s;
              xff_contains_single_internal_ip = (xff_contains_single_ip \<and> is_internal_ip trusted_client_address);
              xff_contains_single_external_ip = (xff_contains_single_ip \<and> \<not> is_internal_ip trusted_client_address);
              has_incoming_xff = existing_xff \<noteq> None;
              should_update_xff = (use_remote_address s \<and> \<not> skip_xff_append s);
              should_set_envoy_external = (use_remote_address s
                \<and> hm_get H headers ''x-envoy-external-address'' = None
                \<and> \<not> is_internal_ip trusted_client_address);
              should_set_envoy_internal =
                ((use_remote_address s \<and> downstream_is_internal \<and> \<not> has_incoming_xff) \<or> xff_contains_single_internal_ip);
              should_mark_envoy_internal_false =
                ((use_remote_address s \<and> downstream_is_external \<and> \<not> has_incoming_xff) \<or> xff_contains_single_external_ip);
              headers = (if should_update_xff then
                           (case hv_from_str H (append_hop_to_xff existing_xff (sa_ip downstream_addr)) of
                              Some updated_xff \<Rightarrow> hm_insert H headers ''x-forwarded-for'' updated_xff
                            | None \<Rightarrow> headers)
                         else headers);
              headers = (if should_set_envoy_external then
                           (case hv_from_str H (show_ip trusted_client_address) of
                              Some addr \<Rightarrow> hm_insert H headers ''x-envoy-external-address'' addr
                            | None \<Rightarrow> headers)
                         else headers)
          in if should_set_envoy_internal then hm_insert H headers ''x-envoy-internal'' ''true''
             else if should_mark_envoy_internal_false then hm_insert H headers ''x-envoy-internal'' ''false''
             else headers)"

section \<open>Upgrades\<close>

definition is_upgrade_connection :: "str \<Rightarrow> bool" where
  "is_upgrade_connection header_value \<longleftrightarrow> to_ascii_lowercase header_value = ''upgrade''"

definition is_websocket_upgrade :: "str \<Rightarrow> bool" where
  "is_websocket_upgrade header_value \<longleftrightarrow> to_ascii_lowercase header_value = ''websocket''"

text \<open>\<^const>\<open>None\<close> is the error for a header that is not ASCII or an upgrade to something else.\<close>
definition is_valid_websocket_upgrade_request :: "'h header_map_ops \<Rightarrow> 'h \<Rightarrow> bool option" where
  "is_valid_websocket_upgrade_request H headers =
     (case (hm_get H headers ''connection'', hm_get H headers ''upgrade'') of
        (Some connection_header, Some upgrade_header) \<Rightarrow>
          Option.bind (hv_to_str H connection_header) (\<lambda>connection_header.
          Option.bind (hv_to_str H upgrade_header) (\<lambda>upgrade_header.
            let is_upgrade = is_upgrade_connection connection_header;
                is_websocket = is_websocket_upgrade upgrade_header
            in if is_upgrade \<and> is_websocket then Some True else if is_upgrade then None else Some False))
      | _ \<Rightarrow> Some False)"

datatype upgrade_type = UpgradeWebsocket | UpgradeConnect

definition is_websocket_enabled_by_hcm :: "upgrade_type list \<Rightarrow> bool" where
  "is_websocket_enabled_by_hcm hcm_enabled_upgrades = list_ex (\<lambda>u. u = UpgradeWebsocket) hcm_enabled_upgrades"

datatype switch = Enabled | Disabled

record upgrade_config =
  uc_websocket :: "switch option"
  uc_connect :: "bool option option"

definition is_websocket_enabled :: "upgrade_config \<Rightarrow> bool \<Rightarrow> bool" where
  "is_websocket_enabled c enabled_via_hcm =
     (let locally_enabled = (uc_websocket c = Some Enabled); locally_disabled = (uc_websocket c = Some Disabled)
      in locally_enabled \<or> (enabled_via_hcm \<and> \<not> locally_disabled))"

section \<open>Preflight\<close>

record 'h versioned_request = "'h request" +
  req_version :: http_version

definition hop_by_hop_headers :: "header_name list" where
  "hop_by_hop_headers =
     [''connection'', ''proxy-authenticate'', ''proxy-authorization'', ''transfer-encoding'', ''upgrade'']"

definition strip_hop_headers :: "'h header_map_ops \<Rightarrow> 'h \<Rightarrow> 'h" where
  "strip_hop_headers H headers = foldl (hm_remove H) headers hop_by_hop_headers"

definition filter_disallowed_requests :: "'h header_map_ops \<Rightarrow> 'h versioned_request \<Rightarrow> 'h full_response option" where
  "filter_disallowed_requests H req =
     (if req_method req = ''CONNECT''
      then Some (into_response H (forbidden UpgradeFailed ''CONNECT not permitted'') (req_version req))
      else case hm_get H (req_headers req) ''connection'' of
             None \<Rightarrow> None
           | Some connection_header \<Rightarrow>
               Option.bind (hv_to_str H connection_header) (\<lambda>v.
                 if is_upgrade_connection v
                 then Some (into_response H (forbidden UpgradeFailed ''upgrade not permitted'') (req_version req))
                 else None))"

definition apply_preflight_functions ::
  "'h header_map_ops \<Rightarrow> 'h versioned_request \<Rightarrow> 'h full_response + 'h versioned_request" where
  "apply_preflight_functions H req =
     (case filter_disallowed_requests H req of
        Some direct_response \<Rightarrow> Inl direct_response
      | None \<Rightarrow> Inr (req\<lparr>req_headers := strip_hop_headers H (req_headers req)\<rparr>))"

datatype codec = Http1 | Http2

definition strip_trailers_headers :: "'h header_map_ops \<Rightarrow> codec \<Rightarrow> 'h \<Rightarrow> 'h" where
  "strip_trailers_headers H http_version headers =
     (case http_version of
        Http1 \<Rightarrow> hm_remove H (hm_remove H headers ''te'') ''trailer''
      | Http2 \<Rightarrow>
          (let headers = hm_remove H headers ''trailer'' in
           case hm_get H headers ''te'' of
             Some hdr_value \<Rightarrow> if hdr_value \<noteq> ''trailers'' then hm_remove H headers ''te'' else headers
           | None \<Rightarrow> headers))"

definition apply_prerouting_functions ::
  "'h header_map_ops \<Rightarrow> 'h versioned_request \<Rightarrow> socket_addr \<Rightarrow> xff_settings \<Rightarrow> 'h versioned_request" where
  "apply_prerouting_functions H req downstream_addr s =
     req\<lparr>req_headers := process_xff_headers H (req_headers req) downstream_addr s\<rparr>"

section \<open>The upstream's URI and version\<close>

definition is_absolute :: "uri \<Rightarrow> bool" where
  "is_absolute u \<longleftrightarrow> uri_authority u \<noteq> None \<and> uri_scheme u \<noteq> None"

definition select_scheme :: "http_version \<Rightarrow> bool \<Rightarrow> str option" where
  "select_scheme version is_tls =
     (case version of
        HTTP_2 \<Rightarrow> Some ''https''
      | HTTP_3 \<Rightarrow> None
      | _ \<Rightarrow> Some (if is_tls then ''https'' else ''http''))"

definition maybe_rewrite_version :: "'h versioned_request \<Rightarrow> codec \<Rightarrow> 'h versioned_request" where
  "maybe_rewrite_version req version = req\<lparr>req_version := (case version of Http1 \<Rightarrow> HTTP_11 | Http2 \<Rightarrow> HTTP_2)\<rparr>"

datatype http_channel_error = UnsupportedVersion | BadHostHeader | BadAuthority | CannotNormalize | BadHeaderValue

definition maybe_update_host ::
  "'h header_map_ops \<Rightarrow> 'h versioned_request \<Rightarrow> codec \<Rightarrow> http_channel_error + 'h versioned_request" where
  "maybe_update_host H req version =
     (case (req_version req, version) of
        (HTTP_11, Http2) \<Rightarrow> Inr (req\<lparr>req_headers := hm_remove H (req_headers req) ''host''\<rparr>)
      | (HTTP_2, Http1) \<Rightarrow>
          (case uri_authority (req_uri req) of
             Some authority \<Rightarrow>
               (case hv_from_str H authority of
                  Some v \<Rightarrow> Inr (req\<lparr>req_headers := hm_append H (req_headers req) ''host'' v\<rparr>)
                | None \<Rightarrow> Inl BadHeaderValue)
           | None \<Rightarrow> Inr req)
      | (HTTP_11, Http1) \<Rightarrow> Inr req
      | (HTTP_2, Http2) \<Rightarrow> Inr req
      | _ \<Rightarrow> Inl UnsupportedVersion)"

definition maybe_change_http_protocol_version ::
  "'h header_map_ops \<Rightarrow> 'h versioned_request \<Rightarrow> codec \<Rightarrow> http_channel_error + 'h versioned_request" where
  "maybe_change_http_protocol_version H req version =
     (case maybe_update_host H req version of
        Inl e \<Rightarrow> Inl e
      | Inr req' \<Rightarrow> Inr (maybe_rewrite_version req' version))"

type_synonym uri_builder = "str option \<Rightarrow> str option \<Rightarrow> path_and_query option \<Rightarrow> uri option"

definition maybe_normalize_uri ::
  "'h header_map_ops \<Rightarrow> (str \<Rightarrow> str option) \<Rightarrow> uri_builder \<Rightarrow> 'h versioned_request \<Rightarrow> bool
     \<Rightarrow> http_channel_error + 'h versioned_request" where
  "maybe_normalize_uri H parse_authority uri_from_parts req is_tls =
     (let u = req_uri req in
      if is_absolute u then Inr req
      else case hm_get H (req_headers req) ''host'' of
             None \<Rightarrow> Inr req
           | Some host_header \<Rightarrow>
               (case hv_to_str H host_header of
                  None \<Rightarrow> Inl BadHostHeader
                | Some s \<Rightarrow>
                    (case parse_authority s of
                       None \<Rightarrow> Inl BadAuthority
                     | Some authority \<Rightarrow>
                         (let scheme = (case uri_scheme u of Some s \<Rightarrow> Some s | None \<Rightarrow> select_scheme (req_version req) is_tls)
                          in case uri_from_parts scheme (Some authority) (uri_path_and_query u) of
                               None \<Rightarrow> Inl CannotNormalize
                             | Some new \<Rightarrow> Inr (req\<lparr>req_uri := new\<rparr>)))))"

section \<open>Addresses print as visible ASCII\<close>

lemma show_ip_visible: "visible_ascii (show_ip ip)"
proof -
  have "set (show_ip ip) \<subseteq> address_chars" using show_v4_chars show_v6_chars by (simp add: show_ip_def split: ip_addr.splits)
  then show ?thesis using address_char_visible by (auto simp: visible_ascii_def list_all_iff)
qed

lemma visible_ascii_append [simp]: "visible_ascii (s @ t) \<longleftrightarrow> visible_ascii s \<and> visible_ascii t"
  by (simp add: visible_ascii_def)

lemma append_hop_visible: "pred_option visible_ascii xff \<Longrightarrow> visible_ascii (append_hop_to_xff xff ip)"
  using show_ip_visible [of ip]
  by (auto simp: append_hop_to_xff_def Let_def visible_ascii_def split: option.splits)

section \<open>Trust in forwarded addresses\<close>

lemma determine_trusted_edge:
  "use_remote_address s \<Longrightarrow> xff_num_trusted_hops s = 0 \<Longrightarrow>
   determine_trusted_client_address xff addr s = (sa_ip addr, False)"
  by (simp add: determine_trusted_client_address_def Let_def)

lemma determine_trusted_not_single:
  "use_remote_address s \<Longrightarrow> snd (determine_trusted_client_address xff addr s) = False"
  by (simp add: determine_trusted_client_address_def Let_def)

text \<open>The address is one of the forwarded ones, counted from the right, or the peer's.\<close>
lemma determine_trusted_index:
  assumes "hops = unat (xff_num_trusted_hops s)" and "ips = xff_addresses xff"
  shows "fst (determine_trusted_client_address xff addr s) =
    (let k = (if use_remote_address s then hops else hops + 1) in
     if 0 < k \<and> k \<le> length ips then rev ips ! (k - 1) else sa_ip addr)"
  using assms
  by (auto simp: determine_trusted_client_address_def Let_def rev_nth Suc_le_eq)

text \<open>C24: At the edge (the remote address is trusted, no trusted hops) a request from an external peer cannot
  pass for an internal one, whatever headers it brings: \<open>x-envoy-internal\<close> is never \<open>true\<close>,
  \<open>x-envoy-external-address\<close> is exactly the peer's address, the peer's address is appended to the first
  \<open>x-forwarded-for\<close> unless that is switched off, and no other header changes.\<close>
theorem external_peer_not_internal:
  assumes laws: "header_map_laws H" and edge: "use_remote_address s" "xff_num_trusted_hops s = 0"
    and external: "\<not> is_internal_ip (sa_ip addr)"
    and h': "h' = process_xff_headers H h addr s"
  shows "hm_get_all H h' ''x-envoy-internal'' \<in> {[], [''false'']} \<and>
    hm_get_all H h' ''x-envoy-external-address'' = [show_ip (sa_ip addr)] \<and>
    hm_get_all H h' ''x-forwarded-for'' =
      (if skip_xff_append s then hm_get_all H h ''x-forwarded-for''
       else [append_hop_to_xff (Option.bind (hm_get H h ''x-forwarded-for'') (hv_to_str H)) (sa_ip addr)]) \<and>
    (\<forall>n. n \<notin> {''x-envoy-internal'', ''x-envoy-external-address'', ''x-forwarded-for''} \<longrightarrow>
      hm_get_all H h' n = hm_get_all H h n)"
proof -
  define h1 where "h1 = hm_remove H (hm_remove H h ''x-envoy-external-address'') ''x-envoy-internal''"
  define xff where "xff = Option.bind (hm_get H h ''x-forwarded-for'') (hv_to_str H)"
  have get1: "hm_get_all H h1 n = (if n \<in> {''x-envoy-internal'', ''x-envoy-external-address''} then [] else hm_get_all H h n)" for n
    by (simp add: h1_def header_map_simps [OF laws])
  have xff1: "Option.bind (hm_get H h1 ''x-forwarded-for'') (hv_to_str H) = xff"
    by (simp add: xff_def hm_get_hd [OF laws] get1)
  have none1: "hm_get H h1 ''x-envoy-external-address'' = None" by (simp add: hm_get_None [OF laws] get1)
  have "pred_option visible_ascii xff"
    using hv_to_str_visible [OF laws] by (cases xff) (auto simp: xff_def bind_eq_Some_conv)
  then have from1: "hv_from_str H (append_hop_to_xff xff (sa_ip addr)) = Some (append_hop_to_xff xff (sa_ip addr))"
    by (intro hv_from_str_visible [OF laws] append_hop_visible)
  have from2: "hv_from_str H (show_ip (sa_ip addr)) = Some (show_ip (sa_ip addr))"
    by (rule hv_from_str_visible [OF laws show_ip_visible])
  define h2 where "h2 = (if skip_xff_append s then h1 else hm_insert H h1 ''x-forwarded-for'' (append_hop_to_xff xff (sa_ip addr)))"
  have "h' = (let h3 = hm_insert H h2 ''x-envoy-external-address'' (show_ip (sa_ip addr))
      in if xff = None then hm_insert H h3 ''x-envoy-internal'' ''false'' else h3)"
    unfolding h' process_xff_headers_def Let_def
    using edge external from1
    by (cases xff) (simp_all add: xff1 [unfolded h1_def] none1 [unfolded h1_def] from2 h1_def h2_def determine_trusted_edge)
  then show ?thesis
    by (auto simp: Let_def h2_def header_map_simps [OF laws] get1 xff_def)
qed

theorem external_peer_not_internal_witness:
  "hm_get_all alist_headers (process_xff_headers alist_headers [(''x-envoy-internal'', ''true''), (''x-forwarded-for'', ''10.0.0.1'')]
      \<lparr>sa_ip = V4 0x08080808, sa_port = 1\<rparr> \<lparr>use_remote_address = True, skip_xff_append = False, xff_num_trusted_hops = 0\<rparr>)
    ''x-envoy-internal'' \<in> {[], [''false'']}"
  using external_peer_not_internal [OF alist_headers_laws _ _ _ refl,
      of "\<lparr>use_remote_address = True, skip_xff_append = False, xff_num_trusted_hops = 0\<rparr>" "\<lparr>sa_ip = V4 0x08080808, sa_port = 1\<rparr>"
         "[(''x-envoy-internal'', ''true''), (''x-forwarded-for'', ''10.0.0.1'')]"]
  by (simp add: is_internal_ip_def v4_is_private_def v4_is_loopback_def)

section \<open>Hop-by-hop headers\<close>

lemma foldl_hm_remove:
  "header_map_laws H \<Longrightarrow> hm_get_all H (foldl (hm_remove H) h ns) n = (if n \<in> set ns then [] else hm_get_all H h n)"
  by (induction ns arbitrary: h) (simp_all add: header_map_simps)

lemma strip_hop_headers_get:
  "header_map_laws H \<Longrightarrow>
   hm_get_all H (strip_hop_headers H h) n = (if n \<in> set hop_by_hop_headers then [] else hm_get_all H h n)"
  by (simp add: strip_hop_headers_def foldl_hm_remove)

text \<open>A request whose connection header, read as text, is the word upgrade in any case.\<close>
definition asks_upgrade :: "'h header_map_ops \<Rightarrow> 'h \<Rightarrow> bool" where
  "asks_upgrade H h \<longleftrightarrow>
     (\<exists>v vs s. hm_get_all H h ''connection'' = v # vs \<and> hv_to_str H v = Some s \<and> eq_ignore_ascii_case s ''Upgrade'')"

lemma is_upgrade_connection_iff: "is_upgrade_connection s \<longleftrightarrow> eq_ignore_ascii_case s ''Upgrade''"
proof -
  have "to_ascii_lowercase ''Upgrade'' = ''upgrade''" by code_simp
  then show ?thesis by (simp add: is_upgrade_connection_def eq_ignore_ascii_case_def)
qed

lemma filter_disallowed_iff:
  assumes "header_map_laws H"
  shows "filter_disallowed_requests H req = None \<longleftrightarrow> req_method req \<noteq> ''CONNECT'' \<and> \<not> asks_upgrade H (req_headers req)"
proof (cases "hm_get_all H (req_headers req) ''connection''")
  case (Cons v vs)
  then have "hm_get H (req_headers req) ''connection'' = Some v" by (simp add: hm_get_hd [OF assms])
  with Cons show ?thesis
    by (cases "hv_to_str H v") (simp_all add: filter_disallowed_requests_def asks_upgrade_def is_upgrade_connection_iff)
qed (simp add: filter_disallowed_requests_def asks_upgrade_def hm_get_hd [OF assms])

text \<open>C25: The preflight step.  It refuses a request, with 403, exactly when its method is CONNECT or its first connection header is the
  single word upgrade.  What it lets through loses the headers connection, proxy-authenticate, proxy-authorization, transfer-encoding and
  upgrade, and keeps everything else; so no upgrade is asked of the upstream, not even by a request such as
  \<open>Connection: keep-alive, Upgrade\<close>, which is not refused.\<close>
theorem preflight_strips_hop_headers:
  assumes "header_map_laws H"
  shows "case apply_preflight_functions H req of
      Inl response \<Rightarrow> (req_method req = ''CONNECT'' \<or> asks_upgrade H (req_headers req)) \<and> resp_status response = 403
    | Inr req' \<Rightarrow> req_method req \<noteq> ''CONNECT'' \<and> \<not> asks_upgrade H (req_headers req) \<and>
        (\<forall>n. hm_get_all H (req_headers req') n =
           (if n \<in> {''connection'', ''proxy-authenticate'', ''proxy-authorization'', ''transfer-encoding'', ''upgrade''} then []
            else hm_get_all H (req_headers req) n)) \<and>
        req' = req\<lparr>req_headers := req_headers req'\<rparr> \<and>
        is_valid_websocket_upgrade_request H (req_headers req') = Some False"
proof (cases "filter_disallowed_requests H req")
  case None
  have "hm_get H (strip_hop_headers H (req_headers req)) ''connection'' = None"
    by (simp add: hm_get_None [OF assms] strip_hop_headers_get [OF assms] hop_by_hop_headers_def)
  then show ?thesis
    using None filter_disallowed_iff [OF assms, of req] strip_hop_headers_get [OF assms]
    by (simp add: apply_preflight_functions_def hop_by_hop_headers_def is_valid_websocket_upgrade_request_def)
next
  case (Some response)
  have "resp_status response = 403"
    using Some by (auto simp: filter_disallowed_requests_def into_response_def forbidden_def bind_eq_Some_conv split: if_splits option.splits)
  with Some filter_disallowed_iff [OF assms, of req] show ?thesis
    by (auto simp: apply_preflight_functions_def)
qed

theorem preflight_strips_hop_headers_witness:
  "\<exists>req'. apply_preflight_functions alist_headers
      \<lparr>req_method = ''GET'',
       req_uri = \<lparr>uri_scheme = None, uri_authority = None, uri_host = None, uri_port = None, uri_path = ''/'', uri_query = None,
                  uri_path_and_query = None\<rparr>,
       req_headers = [(''connection'', ''keep-alive, Upgrade''), (''upgrade'', ''websocket''), (''host'', ''a'')], req_version = HTTP_11\<rparr> = Inr req' \<and>
     hm_get_all alist_headers (req_headers req') ''upgrade'' = [] \<and> hm_get_all alist_headers (req_headers req') ''host'' = [''a'']"
proof -
  let ?req = "\<lparr>req_method = ''GET'',
       req_uri = \<lparr>uri_scheme = None, uri_authority = None, uri_host = None, uri_port = None, uri_path = ''/'', uri_query = None,
                  uri_path_and_query = None\<rparr>,
       req_headers = [(''connection'', ''keep-alive, Upgrade''), (''upgrade'', ''websocket''), (''host'', ''a'')], req_version = HTTP_11\<rparr>"
  have "to_ascii_lowercase ''keep-alive, Upgrade'' \<noteq> to_ascii_lowercase ''Upgrade''" by code_simp
  then have "\<not> asks_upgrade alist_headers (req_headers ?req)"
    by (auto simp: asks_upgrade_def alist_headers_def eq_ignore_ascii_case_def split: if_splits)
  then obtain req' where req': "apply_preflight_functions alist_headers ?req = Inr req'"
    using preflight_strips_hop_headers [OF alist_headers_laws, of ?req] by (cases "apply_preflight_functions alist_headers ?req") auto
  have stripped: "hm_get_all alist_headers (req_headers req') n =
      (if n \<in> {''connection'', ''proxy-authenticate'', ''proxy-authorization'', ''transfer-encoding'', ''upgrade''} then []
       else hm_get_all alist_headers (req_headers ?req) n)" for n
    using preflight_strips_hop_headers [OF alist_headers_laws, of ?req] unfolding req' by simp
  have "hm_get_all alist_headers (req_headers req') ''upgrade'' = []" by (simp add: stripped)
  moreover have "hm_get_all alist_headers (req_headers req') ''host'' = [''a'']"
    unfolding stripped by (simp add: alist_headers_def)
  ultimately show ?thesis using req' by blast
qed

end
