(* ===== verification/Token_Bucket.thy ===== *)
theory Token_Bucket
  imports Http_Types
begin

text \<open>
  The token bucket of the local rate limiter (\<open>orion-lib/src/listeners/rate_limiter/token_bucket.rs\<close>,
  \<open>mod.rs\<close>) and the durations and instants it computes with.

  A \<open>Duration\<close> is its number of nanoseconds, an \<open>Instant\<close> an integer number of nanoseconds; both have
  the bounds of the standard library, and an operator that leaves them panics, a checked method gives
  \<^const>\<open>None\<close>.  The clock is an argument.  Threads share the bucket through one atomic instant: the loop
  of \<open>consume\<close> is a step relation in which threads interleave freely and a weak compare-exchange may
  fail for no reason.
\<close>

section \<open>Durations and instants\<close>

type_synonym nanos = nat
type_synonym instant = int

definition duration_max :: nanos where
  "duration_max = (2 ^ 64 - 1) * 10 ^ 9 + 999999999"

definition instant_min :: instant where
  "instant_min = - (2 ^ 63) * 10 ^ 9"

definition instant_max :: instant where
  "instant_max = (2 ^ 63 - 1) * 10 ^ 9 + 999999999"

definition duration_checked_mul :: "nanos \<Rightarrow> u32 \<Rightarrow> nanos option" where
  "duration_checked_mul d k = (if d * unat k \<le> duration_max then Some (d * unat k) else None)"

definition duration_mul :: "nanos \<Rightarrow> u32 \<Rightarrow> nanos outcome" where
  "duration_mul d k = (case duration_checked_mul d k of Some r \<Rightarrow> Ret r | None \<Rightarrow> Panic)"

definition duration_div :: "nanos \<Rightarrow> u32 \<Rightarrow> nanos outcome" where
  "duration_div d k = (if k = 0 then Panic else Ret (d div unat k))"

definition instant_checked_sub :: "instant \<Rightarrow> nanos \<Rightarrow> instant option" where
  "instant_checked_sub t d = (if t - int d < instant_min then None else Some (t - int d))"

definition instant_add :: "instant \<Rightarrow> nanos \<Rightarrow> instant outcome" where
  "instant_add t d = (if t + int d > instant_max then Panic else Ret (t + int d))"

text \<open>\<open>now.checked_sub(d).unwrap_or(now)\<close>\<close>
definition sub_or_same :: "instant \<Rightarrow> nanos \<Rightarrow> instant" where
  "sub_or_same now d = (case instant_checked_sub now d of Some t \<Rightarrow> t | None \<Rightarrow> now)"

section \<open>The bucket\<close>

record token_bucket =
  tb_time :: instant
  time_per_token :: nanos
  time_per_bucket :: nanos
  tb_max_tokens :: nat

definition token_bucket_new :: "u32 \<Rightarrow> u32 \<Rightarrow> nanos \<Rightarrow> instant \<Rightarrow> token_bucket outcome" where
  "token_bucket_new max_tokens tokens_per_fill fill_interval now =
     bindP (duration_mul fill_interval max_tokens) (\<lambda>full.
     bindP (duration_div full tokens_per_fill) (\<lambda>per_bucket.
     bindP (duration_mul per_bucket 2) (\<lambda>twice.
     bindP (duration_div fill_interval tokens_per_fill) (\<lambda>per_token.
       Ret \<lparr>tb_time = sub_or_same now twice, time_per_token = per_token,
            time_per_bucket = per_bucket, tb_max_tokens = unat max_tokens\<rparr>))))"

text \<open>One turn of the loop of \<open>consume\<close>, up to the compare-exchange: the value to store, or \<^const>\<open>None\<close>
  to return \<open>false\<close>.\<close>
definition consume_attempt :: "instant \<Rightarrow> instant \<Rightarrow> nanos \<Rightarrow> instant \<Rightarrow> instant option outcome" where
  "consume_attempt now min_time req_fill_period old_time =
     (let new_time = (if min_time > old_time then min_time else old_time) in
      bindP (instant_add new_time req_fill_period) (\<lambda>new_time. Ret (if new_time > now then None else Some new_time)))"

text \<open>\<open>consume\<close> with nobody else at the bucket: the first compare-exchange succeeds.\<close>
definition consume :: "token_bucket \<Rightarrow> u32 \<Rightarrow> instant \<Rightarrow> (bool \<times> token_bucket) outcome" where
  "consume tb tokens now =
     bindP (duration_mul (time_per_token tb) tokens) (\<lambda>req_fill_period.
     bindP (consume_attempt now (sub_or_same now (time_per_bucket tb)) req_fill_period (tb_time tb)) (\<lambda>attempt.
       Ret (case attempt of None \<Rightarrow> (False, tb) | Some new_time \<Rightarrow> (True, tb\<lparr>tb_time := new_time\<rparr>))))"

definition tb_capacity :: "token_bucket \<Rightarrow> nat" where
  "tb_capacity tb = tb_max_tokens tb"

definition tb_size :: "token_bucket \<Rightarrow> instant \<Rightarrow> nat outcome" where
  "tb_size tb now =
     (if now < tb_time tb then Ret 0
      else if time_per_token tb = 0 then Panic
      else let n = (nat (now - tb_time tb) div time_per_token tb) mod 2 ^ 64
           in Ret (if n > tb_max_tokens tb then tb_max_tokens tb else n))"

definition tb_eq :: "token_bucket \<Rightarrow> token_bucket \<Rightarrow> bool" where
  "tb_eq a b \<longleftrightarrow> time_per_token a = time_per_token b \<and> time_per_bucket a = time_per_bucket b"

section \<open>The local rate limiter\<close>

record token_bucket_config =
  cfg_max_tokens :: u32
  cfg_tokens_per_fill :: u32
  cfg_fill_interval :: nanos

record local_rate_limit_config =
  lrl_cfg_status :: u16
  lrl_cfg_token_bucket :: "token_bucket_config option"

record local_rate_limit =
  lrl_status :: u16
  lrl_token_bucket :: "token_bucket option"

text \<open>What a filter decides; a direct response of this filter is a \<open>custom_error\<close> with its status.\<close>
datatype rate_limit_decision = RlContinue | RlDirectResponse u16

definition local_rate_limit_run ::
  "local_rate_limit \<Rightarrow> instant \<Rightarrow> (rate_limit_decision \<times> local_rate_limit) outcome" where
  "local_rate_limit_run l now =
     (case lrl_token_bucket l of
        None \<Rightarrow> Ret (RlContinue, l)
      | Some token_bucket \<Rightarrow>
          bindP (consume token_bucket 1 now) (\<lambda>(ok, tb').
            Ret (if ok then RlContinue else RlDirectResponse (lrl_status l), l\<lparr>lrl_token_bucket := Some tb'\<rparr>)))"

definition local_rate_limit_from :: "nat \<Rightarrow> local_rate_limit_config \<Rightarrow> instant \<Rightarrow> local_rate_limit outcome" where
  "local_rate_limit_from num_runtimes cfg now =
     (case lrl_cfg_token_bucket cfg of
        Some tb \<Rightarrow>
          let fill_interval = (case duration_checked_mul (cfg_fill_interval tb) (word_of_nat num_runtimes) of
                 Some v \<Rightarrow> v | None \<Rightarrow> cfg_fill_interval tb)
          in bindP (token_bucket_new (cfg_max_tokens tb) (cfg_tokens_per_fill tb) fill_interval now) (\<lambda>b.
               Ret \<lparr>lrl_status = lrl_cfg_status cfg, lrl_token_bucket = Some b\<rparr>)
      | None \<Rightarrow> Ret \<lparr>lrl_status = lrl_cfg_status cfg, lrl_token_bucket = None\<rparr>)"

text \<open>The conversion of the configuration: a required integer must not be zero, the number of tokens per
  fill defaults to one, and the fill interval is a message with signed seconds and nanoseconds.\<close>
datatype rate_limit_error = MissingMaxTokens | ZeroTokensPerFill | MissingFillInterval | BadFillInterval

definition duration_from_envoy :: "int \<Rightarrow> int \<Rightarrow> nanos outcome option" where
  "duration_from_envoy seconds ns =
     (if seconds < 0 \<or> ns < 0 then None
      else Some (let d = nat seconds * 10 ^ 9 + nat ns in if d \<le> duration_max then Ret d else Panic))"

definition token_bucket_config_try_from ::
  "u32 \<Rightarrow> u32 option \<Rightarrow> (int \<times> int) option \<Rightarrow> (rate_limit_error + token_bucket_config) outcome" where
  "token_bucket_config_try_from max_tokens tokens_per_fill fill_interval =
     (if max_tokens = 0 then Ret (Inl MissingMaxTokens)
      else let t = (case tokens_per_fill of Some t \<Rightarrow> t | None \<Rightarrow> 1) in
        if t = 0 then Ret (Inl ZeroTokensPerFill)
        else case fill_interval of
               None \<Rightarrow> Ret (Inl MissingFillInterval)
             | Some (seconds, ns) \<Rightarrow>
                 (case duration_from_envoy seconds ns of
                    None \<Rightarrow> Ret (Inl BadFillInterval)
                  | Some d \<Rightarrow> mapP (\<lambda>i. Inr \<lparr>cfg_max_tokens = max_tokens, cfg_tokens_per_fill = t, cfg_fill_interval = i\<rparr>) d))"

section \<open>Threads at one bucket\<close>

datatype consumer = Idle | Consuming u32 instant instant nanos instant

record tb_system =
  sys_bucket :: token_bucket
  sys_threads :: "nat \<Rightarrow> consumer"
  sys_granted :: "(instant \<times> nat) list"

text \<open>A thread reads the clock and the atomic, then takes turns of the loop.  \<open>sys_granted\<close> records each
  call that returned \<open>true\<close>, with the clock reading it used.\<close>
inductive tb_step :: "tb_system \<Rightarrow> tb_system \<Rightarrow> bool" where
  start: "sys_threads s i = Idle \<Longrightarrow> duration_mul (time_per_token (sys_bucket s)) tokens = Ret req \<Longrightarrow>
    tb_step s (s\<lparr>sys_threads := (sys_threads s)(i := Consuming tokens now
      (sub_or_same now (time_per_bucket (sys_bucket s))) req (tb_time (sys_bucket s)))\<rparr>)"
| refuse: "sys_threads s i = Consuming tokens now min_time req old_time \<Longrightarrow>
    consume_attempt now min_time req old_time = Ret None \<Longrightarrow>
    tb_step s (s\<lparr>sys_threads := (sys_threads s)(i := Idle)\<rparr>)"
| grant: "sys_threads s i = Consuming tokens now min_time req old_time \<Longrightarrow>
    consume_attempt now min_time req old_time = Ret (Some new_time) \<Longrightarrow>
    tb_time (sys_bucket s) = old_time \<Longrightarrow>
    tb_step s (s\<lparr>sys_bucket := (sys_bucket s)\<lparr>tb_time := new_time\<rparr>,
                 sys_threads := (sys_threads s)(i := Idle),
                 sys_granted := (now, unat tokens) # sys_granted s\<rparr>)"
| retry: "sys_threads s i = Consuming tokens now min_time req old_time \<Longrightarrow>
    consume_attempt now min_time req old_time = Ret (Some new_time) \<Longrightarrow>
    tb_step s (s\<lparr>sys_threads := (sys_threads s)(i := Consuming tokens now min_time req (tb_time (sys_bucket s)))\<rparr>)"

definition tb_initial :: "token_bucket \<Rightarrow> tb_system" where
  "tb_initial tb = \<lparr>sys_bucket = tb, sys_threads = (\<lambda>_. Idle), sys_granted = []\<rparr>"

text \<open>The tokens granted to calls whose clock reading lies between two instants.\<close>
definition granted_between :: "instant \<Rightarrow> instant \<Rightarrow> (instant \<times> nat) list \<Rightarrow> nat" where
  "granted_between a b log = sum_list (map snd (filter (\<lambda>(now, _). a \<le> now \<and> now \<le> b) log))"

section \<open>Facts on the operations\<close>

lemma sub_or_same_ge: "now - int d \<le> sub_or_same now d"
  by (simp add: sub_or_same_def instant_checked_sub_def)

lemma consume_attempt_Some:
  assumes "consume_attempt now min_time req old_time = Ret (Some new_time)"
  shows "new_time = max min_time old_time + int req \<and> new_time \<le> now"
  using assms by (auto simp: consume_attempt_def Let_def instant_add_def max_def split: if_splits)

lemma duration_mul_Ret: "duration_mul d k = Ret r \<Longrightarrow> r = d * unat k"
  by (auto simp: duration_mul_def duration_checked_mul_def split: if_splits)

section \<open>The rate over any interval of time\<close>

lemma granted_between_Cons:
  "granted_between a b ((now, k) # log) = (if a \<le> now \<and> now \<le> b then k else 0) + granted_between a b log"
  by (simp add: granted_between_def)

text \<open>The invariant: what was granted in a window is bounded by how far the stored instant is past the
  start of the window, and by the end of the window.\<close>
definition window_bound :: "token_bucket \<Rightarrow> (instant \<times> nat) list \<Rightarrow> instant \<Rightarrow> instant \<Rightarrow> bool" where
  "window_bound tb log a b \<longleftrightarrow>
     (\<exists>now k. (now, k) \<in> set log \<and> a \<le> now \<and> now \<le> b) \<longrightarrow>
     a - int (time_per_bucket tb) + int (granted_between a b log * time_per_token tb) \<le> min (tb_time tb) b"

definition thread_ok :: "token_bucket \<Rightarrow> consumer \<Rightarrow> bool" where
  "thread_ok tb c \<longleftrightarrow> (case c of Idle \<Rightarrow> True | Consuming tokens now min_time req old_time \<Rightarrow>
     now - int (time_per_bucket tb) \<le> min_time \<and> req = time_per_token tb * unat tokens)"

definition tb_inv :: "nanos \<Rightarrow> nanos \<Rightarrow> tb_system \<Rightarrow> bool" where
  "tb_inv tpt tpb s \<longleftrightarrow> time_per_token (sys_bucket s) = tpt \<and> time_per_bucket (sys_bucket s) = tpb \<and>
     (\<forall>i. thread_ok (sys_bucket s) (sys_threads s i)) \<and> (\<forall>a b. window_bound (sys_bucket s) (sys_granted s) a b)"

lemma thread_ok_time [simp]: "thread_ok (tb\<lparr>tb_time := t\<rparr>) c = thread_ok tb c"
  by (cases c) (simp_all add: thread_ok_def)

lemma thread_ok_Idle [simp]: "thread_ok tb Idle"
  by (simp add: thread_ok_def)

lemma granted_between_none:
  "\<not> (\<exists>now k. (now, k) \<in> set log \<and> a \<le> now \<and> now \<le> b) \<Longrightarrow> granted_between a b log = 0"
  by (induction log) (auto simp: granted_between_def)

lemma window_bound_grant:
  assumes bound: "window_bound tb log a b"
    and new: "new_time = max min_time (tb_time tb) + int (time_per_token tb * k)" "new_time \<le> now"
    and "now - int (time_per_bucket tb) \<le> min_time"
  shows "window_bound (tb\<lparr>tb_time := new_time\<rparr>) ((now, k) # log) a b"
proof (cases "a \<le> now \<and> now \<le> b")
  case inside: True
  have cost: "int (granted_between a b ((now, k) # log) * time_per_token tb) =
      int (time_per_token tb * k) + int (granted_between a b log * time_per_token tb)"
    using inside by (simp add: granted_between_Cons algebra_simps)
  have "a - int (time_per_bucket tb) + int (granted_between a b log * time_per_token tb) \<le> max min_time (tb_time tb)"
  proof (cases "\<exists>now k. (now, k) \<in> set log \<and> a \<le> now \<and> now \<le> b")
    case True
    then have "a - int (time_per_bucket tb) + int (granted_between a b log * time_per_token tb) \<le> tb_time tb"
      using bound unfolding window_bound_def by (metis (no_types, lifting) min.bounded_iff)
    then show ?thesis by linarith
  next
    case False
    then have "granted_between a b log = 0" by (rule granted_between_none)
    moreover have "a - int (time_per_bucket tb) \<le> min_time" using assms(4) inside by linarith
    ultimately show ?thesis by simp
  qed
  then have "a - int (time_per_bucket tb) + int (granted_between a b ((now, k) # log) * time_per_token tb) \<le> new_time"
    unfolding cost new(1) by linarith
  moreover have "new_time \<le> b" using new(2) inside by linarith
  ultimately show ?thesis by (simp add: window_bound_def)
next
  case False
  have "tb_time tb \<le> new_time" unfolding new(1) by linarith
  then show ?thesis using bound False by (auto simp: window_bound_def granted_between_Cons)
qed

lemma tb_step_inv:
  assumes "tb_step s t" "tb_inv tpt tpb s"
  shows "tb_inv tpt tpb t"
  using assms
proof (cases rule: tb_step.cases)
  case (start i tokens req now)
  then show ?thesis using assms(2) sub_or_same_ge [of now tpb]
    by (auto simp: tb_inv_def thread_ok_def dest: duration_mul_Ret)
next
  case (refuse i tokens now min_time req old_time)
  then show ?thesis using assms(2) by (auto simp: tb_inv_def thread_ok_def)
next
  case (grant i tokens now min_time req old_time new_time)
  have ok: "thread_ok (sys_bucket s) (Consuming tokens now min_time req old_time)"
    using assms(2) grant(2) unfolding tb_inv_def by metis
  have "window_bound ((sys_bucket s)\<lparr>tb_time := new_time\<rparr>) ((now, unat tokens) # sys_granted s) a b" for a b
  proof (rule window_bound_grant [of _ _ _ _ _ min_time])
    show "window_bound (sys_bucket s) (sys_granted s) a b" using assms(2) by (simp add: tb_inv_def)
  qed (use consume_attempt_Some [OF grant(3)] ok grant(4) in \<open>auto simp: thread_ok_def\<close>)
  moreover have "thread_ok ((sys_bucket s)\<lparr>tb_time := new_time\<rparr>) (sys_threads s j)" for j
    using assms(2) by (simp add: tb_inv_def)
  ultimately show ?thesis using assms(2) grant(1) by (simp add: tb_inv_def)
next
  case (retry i tokens now min_time req old_time new_time)
  have "thread_ok (sys_bucket s) (Consuming tokens now min_time req old_time)"
    using assms(2) retry(2) unfolding tb_inv_def by metis
  then show ?thesis using assms(2) retry(1) by (auto simp: tb_inv_def thread_ok_def)
qed

lemma tb_reachable_inv:
  "tb_step\<^sup>*\<^sup>* (tb_initial tb) s \<Longrightarrow> tb_inv (time_per_token tb) (time_per_bucket tb) s"
proof (induction rule: rtranclp_induct)
  case base
  then show ?case by (simp add: tb_inv_def tb_initial_def thread_ok_def window_bound_def)
next
  case (step s t)
  then show ?case by (blast intro: tb_step_inv)
qed

text \<open>C18: However threads interleave and however often a compare-exchange fails, the tokens granted to
  calls that read the clock between two instants cost at most the time between them plus one bucket:
  the rate limit holds over every interval, not only on average.\<close>
theorem token_bucket_rate_limit:
  assumes "tb_step\<^sup>*\<^sup>* (tb_initial tb) s" and "a \<le> b"
  shows "int (granted_between a b (sys_granted s) * time_per_token tb) \<le> (b - a) + int (time_per_bucket tb)"
proof (cases "\<exists>now k. (now, k) \<in> set (sys_granted s) \<and> a \<le> now \<and> now \<le> b")
  case True
  moreover have "window_bound (sys_bucket s) (sys_granted s) a b"
    and "time_per_token (sys_bucket s) = time_per_token tb" "time_per_bucket (sys_bucket s) = time_per_bucket tb"
    using tb_reachable_inv [OF assms(1)] by (simp_all add: tb_inv_def)
  ultimately show ?thesis by (auto simp: window_bound_def)
next
  case False
  then show ?thesis using assms(2) by (simp add: granted_between_none)
qed

theorem token_bucket_rate_limit_witness:
  "\<exists>s. tb_step\<^sup>*\<^sup>* (tb_initial \<lparr>tb_time = 0, time_per_token = 10, time_per_bucket = 50, tb_max_tokens = 5\<rparr>) s \<and>
     sys_granted s = [(100, 1)] \<and> int (granted_between 100 100 (sys_granted s) * 10) \<le> (100 - 100) + 50"
proof -
  let ?tb = "\<lparr>tb_time = 0, time_per_token = 10, time_per_bucket = 50, tb_max_tokens = 5\<rparr>"
  let ?s1 = "(tb_initial ?tb)\<lparr>sys_threads := (sys_threads (tb_initial ?tb))(0 := Consuming 1 100
      (sub_or_same 100 (time_per_bucket (sys_bucket (tb_initial ?tb)))) 10 (tb_time (sys_bucket (tb_initial ?tb))))\<rparr>"
  let ?s2 = "?s1\<lparr>sys_bucket := (sys_bucket ?s1)\<lparr>tb_time := 60\<rparr>, sys_threads := (sys_threads ?s1)(0 := Idle),
      sys_granted := (100, unat (1 :: u32)) # sys_granted ?s1\<rparr>"
  have "tb_step (tb_initial ?tb) ?s1"
    by (rule tb_step.start) (simp_all add: tb_initial_def duration_mul_def duration_checked_mul_def duration_max_def)
  moreover have "tb_step ?s1 ?s2"
    by (rule tb_step.grant [where min_time = 50 and req = 10 and old_time = 0 and i = 0])
      (simp_all add: tb_initial_def sub_or_same_def instant_checked_sub_def instant_min_def consume_attempt_def
        instant_add_def instant_max_def)
  ultimately have run: "tb_step\<^sup>*\<^sup>* (tb_initial ?tb) ?s2" by (meson r_into_rtranclp rtranclp_trans)
  have "sys_granted ?s2 = [(100, 1)]" by (simp add: tb_initial_def)
  then show ?thesis using run token_bucket_rate_limit [OF run, of 100 100] by auto
qed

section \<open>One caller\<close>

lemma consume_one:
  assumes "instant_min \<le> now - int (time_per_bucket tb)" and "tb_time tb \<le> now"
    and "now + int (time_per_token tb) \<le> instant_max" and "time_per_token tb \<le> duration_max"
  shows "consume tb 1 now =
    (let t = max (now - int (time_per_bucket tb)) (tb_time tb) + int (time_per_token tb)
     in Ret (if t \<le> now then (True, tb\<lparr>tb_time := t\<rparr>) else (False, tb)))"
  using assms
  by (auto simp: consume_def duration_mul_def duration_checked_mul_def sub_or_same_def instant_checked_sub_def
      consume_attempt_def instant_add_def Let_def max_def)

primrec consume_seq :: "token_bucket \<Rightarrow> instant \<Rightarrow> nat \<Rightarrow> bool list outcome" where
  "consume_seq tb now 0 = Ret []"
| "consume_seq tb now (Suc n) = bindP (consume tb 1 now) (\<lambda>(ok, tb'). mapP ((#) ok) (consume_seq tb' now n))"

lemma consume_seq_burst:
  assumes "instant_min \<le> now - int (time_per_bucket tb)" "now + int (time_per_token tb) \<le> instant_max"
    and "time_per_token tb \<le> duration_max"
    and "tb_time tb \<le> now - int (time_per_bucket tb) + int (m * time_per_token tb)" "tb_time tb \<le> now"
    and "(m + n) * time_per_token tb \<le> time_per_bucket tb"
  shows "\<exists>tb'. consume_seq tb now (n + r) = mapP (\<lambda>bs. replicate n True @ bs) (consume_seq tb' now r) \<and>
    tb_time tb' \<le> now \<and> time_per_token tb' = time_per_token tb \<and> time_per_bucket tb' = time_per_bucket tb \<and>
    tb_time tb' = (if n = 0 then tb_time tb else max (now - int (time_per_bucket tb)) (tb_time tb) + int (n * time_per_token tb))"
  using assms
proof (induction n arbitrary: tb m)
  case 0
  then show ?case by (intro exI [of _ tb]) (cases "consume_seq tb now r", simp_all)
next
  case (Suc n)
  define t where "t = max (now - int (time_per_bucket tb)) (tb_time tb) + int (time_per_token tb)"
  define tb' where "tb' = tb\<lparr>tb_time := t\<rparr>"
  have tb'_sel: "tb_time tb' = t" "time_per_token tb' = time_per_token tb" "time_per_bucket tb' = time_per_bucket tb"
    by (simp_all add: tb'_def)
  have fits: "int (Suc m * time_per_token tb) + int (n * time_per_token tb) \<le> int (time_per_bucket tb)"
    using Suc.prems(6) by (simp add: algebra_simps flip: of_nat_add of_nat_mult)
  have upper: "t \<le> now - int (time_per_bucket tb) + int (Suc m * time_per_token tb)"
    using Suc.prems(4) by (auto simp: t_def)
  with fits have "t \<le> now" by (smt (verit) of_nat_0_le_iff)
  then have step: "consume tb 1 now = Ret (True, tb')"
    using consume_one [OF Suc.prems(1) Suc.prems(5,2,3)] by (simp add: t_def tb'_def Let_def)
  have "\<exists>tb''. consume_seq tb' now (n + r) = mapP (\<lambda>bs. replicate n True @ bs) (consume_seq tb'' now r) \<and>
      tb_time tb'' \<le> now \<and> time_per_token tb'' = time_per_token tb' \<and> time_per_bucket tb'' = time_per_bucket tb' \<and>
      tb_time tb'' = (if n = 0 then tb_time tb' else max (now - int (time_per_bucket tb')) (tb_time tb') + int (n * time_per_token tb'))"
    by (rule Suc.IH [of tb' "Suc m"]) (use Suc.prems upper \<open>t \<le> now\<close> in \<open>auto simp: tb'_def\<close>)
  then obtain tb'' where tb'': "consume_seq tb' now (n + r) = mapP (\<lambda>bs. replicate n True @ bs) (consume_seq tb'' now r)"
      "tb_time tb'' \<le> now" "time_per_token tb'' = time_per_token tb" "time_per_bucket tb'' = time_per_bucket tb"
      "tb_time tb'' = (if n = 0 then t else max (now - int (time_per_bucket tb)) t + int (n * time_per_token tb))"
    unfolding tb'_sel by blast
  have "max (now - int (time_per_bucket tb)) t = t" by (simp add: t_def)
  then have "tb_time tb'' = max (now - int (time_per_bucket tb)) (tb_time tb) + int (Suc n * time_per_token tb)"
    using tb''(5) by (simp add: t_def)
  then show ?case using step tb''(1-4) by (intro exI [of _ tb'']) simp
qed

text \<open>C19: A new bucket serves its burst at once: the first \<open>max_tokens\<close> requests for one token at the
  instant of its creation are granted, and when the fill interval divides evenly the next one is not.\<close>
theorem token_bucket_burst:
  assumes "token_bucket_new max_tokens tokens_per_fill fill_interval now = Ret tb"
    and "fill_interval \<le> duration_max"
    and "instant_min \<le> now - 2 * int (time_per_bucket tb)" and "now + int (time_per_token tb) \<le> instant_max"
  shows "consume_seq tb now (unat max_tokens) = Ret (replicate (unat max_tokens) True) \<and>
    (unat tokens_per_fill dvd fill_interval \<and> fill_interval > 0 \<and> max_tokens \<noteq> 0 \<longrightarrow>
      consume_seq tb now (unat max_tokens + 1) = Ret (replicate (unat max_tokens) True @ [False]))"
proof -
  let ?m = "unat max_tokens" and ?q = "unat tokens_per_fill"
  have tpf: "tokens_per_fill \<noteq> 0" and tpb: "time_per_bucket tb = fill_interval * ?m div ?q"
    and tpt: "time_per_token tb = fill_interval div ?q" and time: "tb_time tb = now - 2 * int (time_per_bucket tb)"
    using assms(1,3) by (auto simp: token_bucket_new_def duration_div_def sub_or_same_def instant_checked_sub_def
        panic_simps split: if_splits dest!: duration_mul_Ret)
  have q: "?q > 0" using tpf by (simp add: unat_gt_0)
  have small: "time_per_token tb \<le> duration_max" using assms(2) tpt div_le_dividend [of fill_interval ?q] by linarith
  have fits: "(0 + ?m) * time_per_token tb \<le> time_per_bucket tb"
    using q div_times_less_eq_dividend [of fill_interval ?q] mult_le_mono2 [of "fill_interval div ?q * ?q" fill_interval ?m]
    by (simp add: tpb tpt less_eq_div_iff_mult_less_eq algebra_simps)
  have burst: "\<exists>tb'. consume_seq tb now (?m + r) = mapP (\<lambda>bs. replicate ?m True @ bs) (consume_seq tb' now r) \<and>
      tb_time tb' \<le> now \<and> time_per_token tb' = time_per_token tb \<and> time_per_bucket tb' = time_per_bucket tb \<and>
      tb_time tb' = (if ?m = 0 then tb_time tb else max (now - int (time_per_bucket tb)) (tb_time tb) + int (?m * time_per_token tb))" for r
    by (rule consume_seq_burst [where m = 0]) (use assms(3,4) small time fits in auto)
  have "consume_seq tb now (?m + 1) = Ret (replicate ?m True @ [False])"
    if even: "?q dvd fill_interval" "fill_interval > 0" "max_tokens \<noteq> 0"
  proof -
    obtain tb' where tb': "consume_seq tb now (?m + 1) = mapP (\<lambda>bs. replicate ?m True @ bs) (consume_seq tb' now 1)"
      "time_per_token tb' = time_per_token tb" "time_per_bucket tb' = time_per_bucket tb" "tb_time tb' \<le> now"
      "tb_time tb' = (if ?m = 0 then tb_time tb else max (now - int (time_per_bucket tb)) (tb_time tb) + int (?m * time_per_token tb))"
      using burst [of 1] by blast
    have full: "time_per_bucket tb = ?m * time_per_token tb" using even(1) q by (auto simp: tpb tpt)
    have pos: "time_per_token tb > 0" using even(1,2) q by (auto simp: tpt)
    have "?m \<noteq> 0" using even(3) by (simp add: unat_eq_0)
    moreover have "max (now - int (time_per_bucket tb)) (tb_time tb) = now - int (time_per_bucket tb)"
      using time by linarith
    ultimately have "tb_time tb' = now" using tb'(5) full by simp
    then have "consume tb' 1 now = Ret (False, tb')"
      using consume_one [of now tb'] tb' assms(3,4) small pos by (simp add: Let_def max_def)
    then show ?thesis using tb'(1) by simp
  qed
  moreover have "consume_seq tb now ?m = Ret (replicate ?m True)" using burst [of 0] by auto
  ultimately show ?thesis by blast
qed

theorem token_bucket_burst_witness:
  "\<exists>tb. token_bucket_new 2 1 1000 0 = Ret tb \<and> consume_seq tb 0 (Suc (Suc 0) + 1) = Ret [True, True, False]"
proof -
  let ?tb = "\<lparr>tb_time = - 4000, time_per_token = 1000, time_per_bucket = 2000, tb_max_tokens = 2\<rparr>"
  have new: "token_bucket_new 2 1 1000 0 = Ret ?tb"
    by (simp add: token_bucket_new_def duration_mul_def duration_checked_mul_def duration_div_def duration_max_def
        sub_or_same_def instant_checked_sub_def instant_min_def)
  have "consume_seq ?tb 0 (unat (2 :: u32) + 1) = Ret (replicate (unat (2 :: u32)) True @ [False])"
    using token_bucket_burst [OF new]
    by (simp add: duration_max_def instant_min_def instant_max_def)
  moreover have "unat (2 :: u32) = Suc (Suc 0)" by simp
  ultimately have "consume_seq ?tb 0 (Suc (Suc 0) + 1) = Ret [True, True, False]"
    by (simp only: replicate.simps append.simps)
  then show ?thesis using new by blast
qed

text \<open>A bucket nobody has taken from grants a token at any later time.\<close>
lemma fresh_bucket_grants:
  assumes new: "token_bucket_new max_tokens tokens_per_fill fill_interval start = Ret tb" and "max_tokens \<noteq> 0"
    and "fill_interval \<le> duration_max" "instant_min \<le> start - 2 * int (time_per_bucket tb)"
    and "start \<le> now" "now + int (time_per_token tb) \<le> instant_max"
  shows "\<exists>tb'. consume tb 1 now = Ret (True, tb')"
proof -
  let ?m = "unat max_tokens" and ?q = "unat tokens_per_fill"
  have tpf: "tokens_per_fill \<noteq> 0" and tpb: "time_per_bucket tb = fill_interval * ?m div ?q"
    and tpt: "time_per_token tb = fill_interval div ?q" and time: "tb_time tb = start - 2 * int (time_per_bucket tb)"
    using new assms(4) by (auto simp: token_bucket_new_def duration_div_def sub_or_same_def instant_checked_sub_def
        panic_simps split: if_splits dest!: duration_mul_Ret)
  have "?m \<ge> 1" using assms(2) by (simp add: Suc_le_eq unat_gt_0)
  then have le: "time_per_token tb \<le> time_per_bucket tb" unfolding tpb tpt by (intro div_le_mono) simp
  have small: "time_per_token tb \<le> duration_max" using assms(3) tpt div_le_dividend [of fill_interval ?q] by linarith
  have "max (now - int (time_per_bucket tb)) (tb_time tb) + int (time_per_token tb) \<le> now" using le time assms(5) by linarith
  then show ?thesis
    using consume_one [of now tb] assms(4,5,6) small time by (simp add: Let_def)
qed

end
