(* ===== verification/Retry.thy ===== *)
theory Retry
  imports Header_Matching Event_Error Token_Bucket
begin

text \<open>
  Retries and timeouts of upstream requests: the retry policy
  (\<open>orion-configuration/src/config/network_filters/http_connection_manager.rs\<close>), the retry conditions
  (\<open>orion-lib/src/clusters/retry_policy.rs\<close>) and the sending of a request with retries, timeouts and
  failover (\<open>orion-lib/src/transport/http_channel.rs\<close>).

  The upstream is an argument: what it answers to the attempt of a given number, and how long it takes.
  The schedule of back-offs comes from the crate \<open>exponential-backoff\<close> and is an argument too.  The body of
  a request is collected before it is sent with retries; that may fail and is an argument.
\<close>

section \<open>Policies\<close>

datatype retry_on =
  Err5xx | GatewayError | OnReset | ConnectFailure | EnvoyRateLimited | Retriable4xx | OnRefusedStream
  | RetriableStatusCodes | RetriableHeaders | OnHttp3PostConnectFailure | GRPCCancelled | GRPCDeadlineExceeded
  | GRPCInternal | GRPCResourceExhausted | GRPCUnavailable

definition retry_on_from_str :: "str \<Rightarrow> retry_on option" where
  "retry_on_from_str s = map_of
     [(''5xx'', Err5xx), (''gateway-error'', GatewayError), (''reset'', OnReset), (''reset-before-request'', OnReset),
      (''connect-failure'', ConnectFailure), (''envoy-ratelimited'', EnvoyRateLimited), (''retriable-4xx'', Retriable4xx),
      (''refused-stream'', OnRefusedStream), (''retriable-status-codes'', RetriableStatusCodes),
      (''retriable-headers'', RetriableHeaders), (''http3-post-connect-failure'', OnHttp3PostConnectFailure),
      (''cancelled'', GRPCCancelled), (''deadline-exceeded'', GRPCDeadlineExceeded), (''internal'', GRPCInternal),
      (''resource-exhausted'', GRPCResourceExhausted), (''unavailable'', GRPCUnavailable)] s"

record retry_backoff =
  base_interval :: nanos
  max_interval :: nanos

definition retry_backoff_default :: retry_backoff where
  "retry_backoff_default = \<lparr>base_interval = 25 * 10 ^ 6, max_interval = 250 * 10 ^ 6\<rparr>"

text \<open>The conversion of the back-off: at least a millisecond, at most ten times that by default.\<close>
datatype backoff_error = MissingBaseInterval | BadBaseInterval | BadMaxInterval | MaxLessThanBase

definition retry_backoff_try_from ::
  "(int \<times> int) option \<Rightarrow> (int \<times> int) option \<Rightarrow> (backoff_error + retry_backoff) outcome" where
  "retry_backoff_try_from base mx =
     (case base of
        None \<Rightarrow> Ret (Inl MissingBaseInterval)
      | Some (bs, bn) \<Rightarrow>
          (case duration_from_envoy bs bn of
             None \<Rightarrow> Ret (Inl BadBaseInterval)
           | Some d \<Rightarrow> bindP d (\<lambda>b. let b' = max b (10 ^ 6) in
               let finish = (\<lambda>m. Ret (if m < b' then Inl MaxLessThanBase else Inr \<lparr>base_interval = b', max_interval = m\<rparr>)) in
               case mx of
                 None \<Rightarrow> bindP (duration_mul b' 10) finish
               | Some (ms, mn) \<Rightarrow>
                   (case duration_from_envoy ms mn of
                      None \<Rightarrow> Ret (Inl BadMaxInterval)
                    | Some d' \<Rightarrow> bindP d' (\<lambda>m. bindP (duration_mul b' 10) (\<lambda>_. finish m))))))"

record 'r retry_policy =
  rp_retry_on :: "retry_on list"
  rp_num_retries :: u32
  rp_per_try_timeout :: "nanos option"
  rp_retriable_status_codes :: "u16 list"
  rp_retry_backoff :: retry_backoff
  rp_retriable_headers :: "'r header_matcher list"
  rp_retriable_request_headers :: "'r header_matcher list"

definition is_retriable :: "'h header_map_ops \<Rightarrow> 'r regex_find_at \<Rightarrow> 'r retry_policy \<Rightarrow> 'h request \<Rightarrow> bool outcome" where
  "is_retriable H find_at p req =
     orP (Ret (rp_retriable_request_headers p = []))
       (anyP (\<lambda>hm. request_matches H find_at hm req) (rp_retriable_request_headers p))"

section \<open>Retry conditions\<close>

datatype 'h retry_condition = CondError event_error | CondResponse "'h response"

fun inner_response :: "'h retry_condition \<Rightarrow> 'h response option" where
  "inner_response (CondResponse resp) = Some resp"
| "inner_response (CondError _) = None"

fun cond_is_error :: "'h retry_condition \<Rightarrow> bool" where
  "cond_is_error (CondError _) = True"
| "cond_is_error (CondResponse _) = False"

definition is_per_try_timeout :: "'h retry_condition \<Rightarrow> bool" where
  "is_per_try_timeout c \<longleftrightarrow> c = CondError PerTryTimeout"

definition is_timeout_condition :: "'h retry_condition \<Rightarrow> bool" where
  "is_timeout_condition c \<longleftrightarrow> c = CondError ConnectTimeout \<or> c = CondError RouteTimeout"

text \<open>The body of the loop of \<open>should_retry\<close> for one policy: \<^const>\<open>Some\<close> when it returns.\<close>
definition should_retry_policy ::
  "'h header_map_ops \<Rightarrow> 'r regex_find_at \<Rightarrow> 'r retry_policy \<Rightarrow> 'h retry_condition \<Rightarrow> retry_on \<Rightarrow> bool option outcome" where
  "should_retry_policy H find_at p cond policy =
     (let response = inner_response cond;
          return_if = (\<lambda>b. Ret (if b then Some True else None));
          on_status = (\<lambda>f. return_if (case response of Some resp \<Rightarrow> f (unat (resp_status resp)) | None \<Rightarrow> False)) in
      case policy of
        Err5xx \<Rightarrow> on_status (\<lambda>s. 500 \<le> s \<and> s \<le> 599)
      | GatewayError \<Rightarrow> on_status (\<lambda>s. 502 \<le> s \<and> s \<le> 504)
      | EnvoyRateLimited \<Rightarrow>
          return_if (case response of
             Some resp \<Rightarrow> hm_get_all H (resp_headers resp) ''x-envoy-ratelimited'' \<noteq> [] \<or>
                          hm_get_all H (resp_headers resp) ''x-orion-ratelimited'' \<noteq> []
           | None \<Rightarrow> False)
      | Retriable4xx \<Rightarrow> on_status (\<lambda>s. s = 409)
      | RetriableStatusCodes \<Rightarrow>
          Ret (case response of Some resp \<Rightarrow> Some (resp_status resp \<in> set (rp_retriable_status_codes p)) | None \<Rightarrow> None)
      | RetriableHeaders \<Rightarrow>
          (case response of
             Some resp \<Rightarrow> mapP Some (anyP (\<lambda>hm. response_matches H find_at hm resp) (rp_retriable_headers p))
           | None \<Rightarrow> Ret None)
      | OnReset \<Rightarrow> return_if (cond = CondError Reset)
      | ConnectFailure \<Rightarrow> return_if (case cond of CondError (IoError _) \<Rightarrow> True | CondError ConnectTimeout \<Rightarrow> True | _ \<Rightarrow> False)
      | OnRefusedStream \<Rightarrow> return_if (cond = CondError RefusedStream)
      | OnHttp3PostConnectFailure \<Rightarrow> return_if (cond = CondError Http3PostConnectFailure)
      | _ \<Rightarrow> Ret None)"

fun should_retry_loop ::
  "'h header_map_ops \<Rightarrow> 'r regex_find_at \<Rightarrow> 'r retry_policy \<Rightarrow> 'h retry_condition \<Rightarrow> retry_on list \<Rightarrow> bool outcome" where
  "should_retry_loop H find_at p cond [] = Ret False"
| "should_retry_loop H find_at p cond (policy # policies) =
     bindP (should_retry_policy H find_at p cond policy)
       (\<lambda>r. case r of Some b \<Rightarrow> Ret b | None \<Rightarrow> should_retry_loop H find_at p cond policies)"

definition should_retry ::
  "'h header_map_ops \<Rightarrow> 'r regex_find_at \<Rightarrow> 'r retry_policy \<Rightarrow> 'h retry_condition \<Rightarrow> bool outcome" where
  "should_retry H find_at p cond =
     (if cond = CondError PerTryTimeout then Ret True
      else should_retry_loop H find_at p cond (rp_retry_on p))"

definition condition_try_infer_from :: "error_chain + 'h response \<Rightarrow> 'h retry_condition option" where
  "condition_try_infer_from source =
     (case source of
        Inr resp \<Rightarrow>
          (if (100 \<le> unat (resp_status resp) \<and> unat (resp_status resp) < 200) \<or>
              (200 \<le> unat (resp_status resp) \<and> unat (resp_status resp) < 300)
           then None else Some (CondResponse resp))
      | Inl err \<Rightarrow> map_option CondError (event_try_infer_from err))"

section \<open>Sending with retries\<close>

type_synonym 'h send_result = "error_chain + 'h response"

text \<open>One attempt: the upstream's answer, unless the per-try timeout comes first; and its time.\<close>
definition attempt_result :: "'r retry_policy \<Rightarrow> nanos \<times> 'h send_result \<Rightarrow> nanos \<times> 'h send_result" where
  "attempt_result p a =
     (case rp_per_try_timeout p of
        Some t \<Rightarrow> if t < fst a then (t, Inl [EventNode PerTryTimeout]) else a
      | None \<Rightarrow> a)"

fun retry_loop ::
  "'h header_map_ops \<Rightarrow> 'r regex_find_at \<Rightarrow> 'r retry_policy \<Rightarrow> (nat \<Rightarrow> nanos \<times> 'h send_result)
     \<Rightarrow> nat \<Rightarrow> nanos option list \<Rightarrow> nanos \<Rightarrow> nat \<Rightarrow> ('h send_result \<times> nanos \<times> nat) outcome" where
  "retry_loop H find_at p send index [] elapsed total_requests =
     Ret (Inl [IoNode InvalidData], elapsed, total_requests)"
| "retry_loop H find_at p send index (back_off # back_offs) elapsed total_requests =
     (let (d, result) = attempt_result p (send index);
          total_requests = total_requests + 1;
          elapsed = elapsed + d
      in case condition_try_infer_from result of
           None \<Rightarrow> Ret (result, elapsed, total_requests)
         | Some condition \<Rightarrow>
             bindP (should_retry H find_at p condition) (\<lambda>retry.
               if \<not> retry then Ret (result, elapsed, total_requests)
               else let slept = (if index < unat (rp_num_retries p)
                                 then (case back_off of Some b \<Rightarrow> b | None \<Rightarrow> 10 ^ 9) else 0)
                    in retry_loop H find_at p send (index + 1) back_offs (elapsed + slept) total_requests))"

definition send_with_retry ::
  "'h header_map_ops \<Rightarrow> 'r regex_find_at \<Rightarrow> 'r retry_policy \<Rightarrow> nanos option list \<Rightarrow> error_chain option
     \<Rightarrow> (nat \<Rightarrow> nanos \<times> 'h send_result) \<Rightarrow> ('h send_result \<times> nanos \<times> nat) outcome" where
  "send_with_retry H find_at p back_offs body_error send =
     (case body_error of
        Some e \<Rightarrow> Ret (Inl e, 0, 0)
      | None \<Rightarrow> retry_loop H find_at p send 0 back_offs 0 0)"

text \<open>\<open>send_request\<close>: with the numbers it adds to the metrics of requests and of retries.\<close>
definition send_request ::
  "'h header_map_ops \<Rightarrow> 'r regex_find_at \<Rightarrow> 'r retry_policy option \<Rightarrow> nanos option list \<Rightarrow> 'h request \<Rightarrow> error_chain option
     \<Rightarrow> (nat \<Rightarrow> nanos \<times> 'h send_result) \<Rightarrow> (('h send_result \<times> nanos) \<times> u64 \<times> u64) outcome" where
  "send_request H find_at retry_policy back_offs req body_error send =
     (let once = (let (d, r) = send 0 in ((r, d), 1, 0)) in
      case retry_policy of
        None \<Rightarrow> Ret once
      | Some p \<Rightarrow>
          bindP (is_retriable H find_at p req) (\<lambda>retriable.
            if retriable then
              bindP (send_with_retry H find_at p back_offs body_error send) (\<lambda>(resp, dur, total_request).
                Ret ((resp, dur), word_of_nat total_request, word_of_nat total_request - 1))
            else Ret once))"

section \<open>Timeouts and the answer downstream\<close>

text \<open>\<open>fast_timeout(t, send_request(..))\<close>\<close>
definition with_route_timeout :: "nanos option \<Rightarrow> 'h send_result \<times> nanos \<Rightarrow> 'h send_result \<times> nanos" where
  "with_route_timeout route_timeout r =
     (case route_timeout of
        Some t \<Rightarrow> if t < snd r then (Inl [EventNode RouteTimeout], t) else r
      | None \<Rightarrow> r)"

text \<open>An answer is the upstream's head with the time left for its body, or a synthetic response.\<close>
datatype 'h answer = Upstream "'h response" "nanos option" | Synthetic "'h full_response"

definition handle_response ::
  "'h header_map_ops \<Rightarrow> 'h send_result \<times> nanos \<Rightarrow> nanos option \<Rightarrow> http_version \<Rightarrow> error_chain + 'h answer" where
  "handle_response H result route_timeout version =
     (case result of
        (Inr response, elapsed) \<Rightarrow> Inr (Upstream response (map_option (\<lambda>dur. dur - elapsed) route_timeout))
      | (Inl err, _) \<Rightarrow>
          (case event_try_infer_from err of
             Some event_error \<Rightarrow>
               (let flags = event_response_flags event_error;
                    make = (case event_error of
                        RefusedStream \<Rightarrow> service_unavailable | IoError _ \<Rightarrow> service_unavailable
                      | ConnectTimeout \<Rightarrow> service_unavailable
                      | PerTryTimeout \<Rightarrow> gateway_timeout | RouteTimeout \<Rightarrow> gateway_timeout
                      | Reset \<Rightarrow> bad_gateway | Http3PostConnectFailure \<Rightarrow> bad_gateway)
                in Inr (Synthetic (into_response H (make (EvError event_error) flags) version)))
           | None \<Rightarrow> Inl err))"

section \<open>Failover\<close>

text \<open>\<open>HttpChannels::MultiWithFailover\<close>: the loop over the channels, given what each of them answers when
  the request is sent to it.  The result comes with the number of channels the request was sent to.\<close>
fun failover_loop :: "('e + 'resp) list \<Rightarrow> 'e option \<Rightarrow> 'resp option \<Rightarrow> nat \<Rightarrow> ('e option + 'resp) \<times> nat" where
  "failover_loop [] last_error last_response sent =
     (case last_response of Some response \<Rightarrow> Inr response | None \<Rightarrow> Inl last_error, sent)"
| "failover_loop (r # rs) last_error last_response sent =
     (case r of
        Inr response \<Rightarrow> if rs \<noteq> [] then failover_loop rs last_error (Some response) (sent + 1) else (Inr response, sent + 1)
      | Inl err \<Rightarrow> failover_loop rs (Some err) last_response (sent + 1))"

datatype 'c http_channels = Single 'c | MultiWithFailover 'c "'c list"

definition channels_to_response :: "('c \<Rightarrow> 'e + 'resp) \<Rightarrow> 'c http_channels \<Rightarrow> ('e option + 'resp) \<times> nat" where
  "channels_to_response to_response channels =
     (case channels of
        Single channel \<Rightarrow> (case to_response channel of Inl e \<Rightarrow> Inl (Some e) | Inr r \<Rightarrow> Inr r, 1)
      | MultiWithFailover channel failover_channels \<Rightarrow>
          failover_loop (map to_response (channel # failover_channels)) None None 0)"

section \<open>When a condition is retried\<close>

text \<open>The policies whose turn only returns when they match.\<close>
definition returns_always :: "retry_on \<Rightarrow> bool" where
  "returns_always q \<longleftrightarrow> q = RetriableStatusCodes \<or> q = RetriableHeaders"

definition policy_matches :: "'h header_map_ops \<Rightarrow> 'h retry_condition \<Rightarrow> retry_on \<Rightarrow> bool" where
  "policy_matches H cond q =
     (case cond of
        CondResponse resp \<Rightarrow>
          (let s = unat (resp_status resp) in
           case q of Err5xx \<Rightarrow> 500 \<le> s \<and> s \<le> 599 | GatewayError \<Rightarrow> 502 \<le> s \<and> s \<le> 504
           | EnvoyRateLimited \<Rightarrow> \<exists>n \<in> {''x-envoy-ratelimited'', ''x-orion-ratelimited''}. hm_get_all H (resp_headers resp) n \<noteq> []
           | Retriable4xx \<Rightarrow> s = 409 | _ \<Rightarrow> False)
      | CondError e \<Rightarrow>
          (case q of OnReset \<Rightarrow> e = Reset | ConnectFailure \<Rightarrow> (\<exists>k. e = IoError k) \<or> e = ConnectTimeout
           | OnRefusedStream \<Rightarrow> e = RefusedStream | OnHttp3PostConnectFailure \<Rightarrow> e = Http3PostConnectFailure | _ \<Rightarrow> False))"

lemma should_retry_policy_error:
  "should_retry_policy H find_at p (CondError e) q = Ret (if policy_matches H (CondError e) q then Some True else None)"
  by (cases q; cases e) (simp_all add: should_retry_policy_def policy_matches_def Let_def)

lemma should_retry_policy_response:
  "\<not> returns_always q \<Longrightarrow>
   should_retry_policy H find_at p (CondResponse r) q = Ret (if policy_matches H (CondResponse r) q then Some True else None)"
  by (cases q) (simp_all add: should_retry_policy_def policy_matches_def Let_def returns_always_def)

lemma should_retry_loop_error:
  "should_retry_loop H find_at p (CondError e) qs = Ret (\<exists>q \<in> set qs. policy_matches H (CondError e) q)"
  by (induction qs) (simp_all add: should_retry_policy_error)

lemma should_retry_loop_response:
  "should_retry_loop H find_at p (CondResponse resp) qs =
     (if \<exists>q \<in> set (takeWhile (\<lambda>q. \<not> returns_always q) qs). policy_matches H (CondResponse resp) q then Ret True
      else case dropWhile (\<lambda>q. \<not> returns_always q) qs of
             [] \<Rightarrow> Ret False
           | q # _ \<Rightarrow> if q = RetriableStatusCodes then Ret (resp_status resp \<in> set (rp_retriable_status_codes p))
                      else anyP (\<lambda>hm. response_matches H find_at hm resp) (rp_retriable_headers p))"
proof (induction qs)
  case (Cons q qs)
  show ?case
  proof (cases "returns_always q")
    case True
    then consider "q = RetriableStatusCodes" | "q = RetriableHeaders" by (auto simp: returns_always_def)
    then show ?thesis
    proof cases
      case 2
      then show ?thesis
        by (cases "anyP (\<lambda>hm. response_matches H find_at hm resp) (rp_retriable_headers p)")
          (simp_all add: should_retry_policy_def returns_always_def)
    qed (simp add: should_retry_policy_def returns_always_def)
  next
    case False
    then show ?thesis using Cons.IH by (simp add: should_retry_policy_response)
  qed
qed simp

text \<open>C21: When an attempt is retried.  A per-try timeout always is; another error is when some policy
  names it; a response is when a policy before the first of \<open>retriable-status-codes\<close> and
  \<open>retriable-headers\<close> matches it, and otherwise as that first one alone decides.\<close>
theorem should_retry_correct:
  "should_retry H find_at p (CondError e) = Ret (e = PerTryTimeout \<or> (\<exists>q \<in> set (rp_retry_on p). policy_matches H (CondError e) q)) \<and>
   should_retry H find_at p (CondResponse resp) =
     (if \<exists>q \<in> set (takeWhile (\<lambda>q. \<not> returns_always q) (rp_retry_on p)). policy_matches H (CondResponse resp) q then Ret True
      else case dropWhile (\<lambda>q. \<not> returns_always q) (rp_retry_on p) of
             [] \<Rightarrow> Ret False
           | q # _ \<Rightarrow> if q = RetriableStatusCodes then Ret (resp_status resp \<in> set (rp_retriable_status_codes p))
                      else anyP (\<lambda>hm. response_matches H find_at hm resp) (rp_retriable_headers p))"
  by (simp add: should_retry_def should_retry_loop_error should_retry_loop_response)

text \<open>The order of the policies matters, though they are alternatives: \<open>retriable-status-codes\<close> before
  \<open>5xx\<close> hides it for every status that is not listed.\<close>
theorem should_retry_order_dependent:
  "should_retry H find_at (p\<lparr>rp_retry_on := [RetriableStatusCodes, Err5xx], rp_retriable_status_codes := [409]\<rparr>)
     (CondResponse \<lparr>resp_status = 503, resp_headers = h\<rparr>) = Ret False \<and>
   should_retry H find_at (p\<lparr>rp_retry_on := [Err5xx, RetriableStatusCodes], rp_retriable_status_codes := [409]\<rparr>)
     (CondResponse \<lparr>resp_status = 503, resp_headers = h\<rparr>) = Ret True"
  by (simp add: should_retry_def should_retry_policy_def Let_def)

section \<open>The retry loop\<close>

text \<open>Whether the attempt of a number is followed by another one, if there is a turn left.\<close>
definition retried ::
  "'h header_map_ops \<Rightarrow> 'r regex_find_at \<Rightarrow> 'r retry_policy \<Rightarrow> (nat \<Rightarrow> nanos \<times> 'h send_result) \<Rightarrow> nat \<Rightarrow> bool outcome" where
  "retried H find_at p send i =
     (case condition_try_infer_from (snd (attempt_result p (send i))) of
        None \<Rightarrow> Ret False | Some c \<Rightarrow> should_retry H find_at p c)"

lemma retry_loop_step:
  "retry_loop H find_at p send index (b # bs) elapsed total_requests =
     bindP (retried H find_at p send index) (\<lambda>again.
       if again then retry_loop H find_at p send (index + 1) bs
           (elapsed + fst (attempt_result p (send index)) +
            (if index < unat (rp_num_retries p) then (case b of Some b \<Rightarrow> b | None \<Rightarrow> 10 ^ 9) else 0)) (total_requests + 1)
       else Ret (snd (attempt_result p (send index)), elapsed + fst (attempt_result p (send index)), total_requests + 1))"
proof (cases "condition_try_infer_from (snd (attempt_result p (send index)))")
  case (Some c)
  then show ?thesis
    by (cases "should_retry H find_at p c") (simp_all add: retried_def Let_def split_beta)
qed (simp add: retried_def Let_def split_beta)

lemma retry_loop_stops:
  assumes "\<forall>j < k. retried H find_at p send (index + j) = Ret True"
    and "retried H find_at p send (index + k) = Ret False" and "k < length bs"
  shows "\<exists>e. retry_loop H find_at p send index bs elapsed n =
    Ret (snd (attempt_result p (send (index + k))), e, n + k + 1)"
  using assms
proof (induction k arbitrary: index bs elapsed n)
  case 0
  then show ?case by (cases bs) (auto simp: retry_loop_step simp del: retry_loop.simps)
next
  case (Suc k)
  obtain b bs' where bs: "bs = b # bs'" using Suc.prems(3) by (cases bs) auto
  have first: "retried H find_at p send index = Ret True" using Suc.prems(1) by (metis add_0_right zero_less_Suc)
  have rest: "\<forall>j < k. retried H find_at p send (Suc index + j) = Ret True"
    using Suc.prems(1) by (metis Suc_less_eq add_Suc_shift)
  have last: "retried H find_at p send (Suc index + k) = Ret False" "k < length bs'" using Suc.prems(2,3) bs by simp_all
  have IH: "\<exists>e. retry_loop H find_at p send (Suc index) bs' el (Suc n) =
      Ret (snd (attempt_result p (send (Suc index + k))), e, Suc n + k + 1)" for el
    by (rule Suc.IH [OF rest last])
  show ?case unfolding bs using IH by (simp add: retry_loop_step first del: retry_loop.simps)
qed

lemma retry_loop_exhausted:
  assumes "\<forall>j < length bs. retried H find_at p send (index + j) = Ret True"
  shows "\<exists>e. retry_loop H find_at p send index bs elapsed n = Ret (Inl [IoNode InvalidData], e, n + length bs)"
  using assms
proof (induction bs arbitrary: index elapsed n)
  case (Cons b bs)
  have first: "retried H find_at p send index = Ret True" using Cons.prems by (metis add_0_right length_Cons zero_less_Suc)
  have rest: "\<forall>j < length bs. retried H find_at p send (Suc index + j) = Ret True"
    using Cons.prems by (metis Suc_less_eq add_Suc_shift length_Cons)
  have IH: "\<exists>e. retry_loop H find_at p send (Suc index) bs el (Suc n) = Ret (Inl [IoNode InvalidData], e, Suc n + length bs)" for el
    by (rule Cons.IH [OF rest])
  show ?case using IH by (simp add: retry_loop_step first del: retry_loop.simps)
qed simp

text \<open>C20: Sending with retries makes attempts until one is not to be retried and returns that one's result;
  it makes at most as many attempts as the schedule has entries, and when all of them are to be
  retried it returns an error of its own and not the last result.\<close>
theorem send_with_retry_correct:
  "((\<forall>j < k. retried H find_at p send j = Ret True) \<and> retried H find_at p send k = Ret False \<and> k < length back_offs \<longrightarrow>
     (\<exists>e. send_with_retry H find_at p back_offs None send = Ret (snd (attempt_result p (send k)), e, k + 1))) \<and>
   ((\<forall>j < length back_offs. retried H find_at p send j = Ret True) \<longrightarrow>
     (\<exists>e. send_with_retry H find_at p back_offs None send = Ret (Inl [IoNode InvalidData], e, length back_offs)))"
  using retry_loop_stops [of k H find_at p send 0 back_offs 0 0] retry_loop_exhausted [of back_offs H find_at p send 0 0 0]
  by (simp add: send_with_retry_def)

theorem send_with_retry_correct_witness:
  "\<exists>e. send_with_retry alist_headers (\<lambda>(_ :: unit) _ _. None)
      \<lparr>rp_retry_on = [Err5xx], rp_num_retries = 3, rp_per_try_timeout = None, rp_retriable_status_codes = [],
       rp_retry_backoff = retry_backoff_default, rp_retriable_headers = [], rp_retriable_request_headers = []\<rparr>
      [Some 1, Some 2, None] None (\<lambda>i. (5, Inr \<lparr>resp_status = (if i = 0 then 503 else 200), resp_headers = []\<rparr>)) =
    Ret (Inr \<lparr>resp_status = 200, resp_headers = []\<rparr>, e, 2)"
proof -
  let ?p = "\<lparr>rp_retry_on = [Err5xx], rp_num_retries = 3, rp_per_try_timeout = None, rp_retriable_status_codes = [],
       rp_retry_backoff = retry_backoff_default, rp_retriable_headers = [], rp_retriable_request_headers = []\<rparr>
       :: unit retry_policy"
  let ?send = "\<lambda>i :: nat. (5 :: nat, Inr \<lparr>resp_status = (if i = 0 then 503 else 200), resp_headers = []\<rparr>
      :: (header_name \<times> header_value) list send_result)"
  have "retried alist_headers (\<lambda>(_ :: unit) _ _. None) ?p ?send 0 = Ret True"
    "retried alist_headers (\<lambda>(_ :: unit) _ _. None) ?p ?send 1 = Ret False"
    by (simp_all add: retried_def attempt_result_def condition_try_infer_from_def should_retry_def should_retry_policy_def Let_def)
  then show ?thesis
    using send_with_retry_correct [of 1 alist_headers "\<lambda>(_ :: unit) _ _. None" ?p ?send "[Some 1, Some 2, None]"]
    by (simp add: attempt_result_def numeral_2_eq_2)
qed

lemma response_statuses [simp]:
  "resp_status (into_response H (service_unavailable ev fl) v) = 503"
  "resp_status (into_response H (gateway_timeout ev fl) v) = 504"
  "resp_status (into_response H (bad_gateway ev fl) v) = 502"
  by (simp_all add: into_response_def service_unavailable_def gateway_timeout_def bad_gateway_def)

text \<open>C22: Every sending is answered.  A response that came within the route timeout is passed on with exactly
  the remaining time for its body; a request that did not finish in time is answered 504; any other
  failure is answered 502, 503 or 504 and never surfaces as an error.\<close>
theorem handle_response_always_answers:
  "\<exists>answer. handle_response H (with_route_timeout route_timeout (result, elapsed)) route_timeout version = Inr answer \<and>
     (if (\<exists>t. route_timeout = Some t \<and> t < elapsed) then
        (\<exists>r. answer = Synthetic r \<and> resp_status r = 504)
      else case result of
             Inr response \<Rightarrow> answer = Upstream response (map_option (\<lambda>t. t - elapsed) route_timeout)
           | Inl _ \<Rightarrow> \<exists>r. answer = Synthetic r \<and> resp_status r \<in> {502, 503, 504})"
proof (cases "\<exists>t. route_timeout = Some t \<and> t < elapsed")
  case True
  then show ?thesis by (auto simp: with_route_timeout_def handle_response_def Let_def)
next
  case False
  then have same: "with_route_timeout route_timeout (result, elapsed) = (result, elapsed)"
    by (cases route_timeout) (auto simp: with_route_timeout_def)
  show ?thesis
  proof (cases result)
    case (Inl err)
    obtain ev where "event_try_infer_from err = Some ev" using event_try_infer_total by blast
    then show ?thesis using False Inl same
      by (cases ev) (simp_all add: handle_response_def Let_def)
  next
    case (Inr response)
    then show ?thesis using False same by (simp add: handle_response_def)
  qed
qed

section \<open>Failover\<close>

lemma failover_loop_sent: "snd (failover_loop rs e r n) = n + length rs"
  by (induction rs arbitrary: e r n) (auto split: sum.splits)

lemma failover_loop_errors:
  "\<forall>x \<in> set rs. \<exists>e. x = Inl e \<Longrightarrow> fst (failover_loop rs e r n) =
     (case r of Some y \<Rightarrow> Inr y | None \<Rightarrow> Inl (if rs = [] then e else Some (projl (last rs))))"
  by (induction rs arbitrary: e n) (auto split: option.splits)

lemma failover_loop_last_ok:
  assumes "\<forall>x \<in> set post. \<exists>e. x = Inl e"
  shows "fst (failover_loop (pre @ Inr y # post) e r n) = Inr y"
proof (induction pre arbitrary: e r n)
  case Nil
  then show ?case using failover_loop_errors [OF assms, of e "Some y" "n + 1"] by (simp split: sum.splits)
next
  case (Cons x pre)
  then show ?case by (auto split: sum.splits)
qed

text \<open>C23: With failover the request goes to every channel, even after one has answered it: the answer is the
  last good one (and the last error if there is none), and the number of channels that received the
  request is the number of channels.\<close>
theorem failover_sends_to_all:
  "snd (channels_to_response to_response (MultiWithFailover c cs)) = 1 + length cs \<and>
   ((\<forall>d \<in> set cs'. \<exists>e. to_response d = Inl e) \<and> c # cs = pre @ d # cs' \<and> to_response d = Inr y \<longrightarrow>
     fst (channels_to_response to_response (MultiWithFailover c cs)) = Inr y)"
proof -
  have "fst (failover_loop (map to_response (pre @ d # cs')) None None 0) = Inr y"
    if "\<forall>d \<in> set cs'. \<exists>e. to_response d = Inl e" "to_response d = Inr y"
    using failover_loop_last_ok [of "map to_response cs'" "map to_response pre" y None None 0] that by auto
  then show ?thesis unfolding channels_to_response_def http_channels.case
    by (metis (no_types, lifting) failover_loop_sent add_0 length_map list.size(4) add.commute Suc_eq_plus1)
qed

theorem failover_sends_to_all_witness:
  "channels_to_response (\<lambda>c :: nat. if c = 0 then Inr ''first'' else if c = 1 then Inr ''second'' else Inl ()) (MultiWithFailover 0 [1, 2])
     = (Inr ''second'', 3)"
  using failover_sends_to_all [of "\<lambda>c :: nat. if c = 0 then Inr ''first'' else if c = 1 then Inr ''second'' else Inl ()"
      0 "[1, 2]" "[2]" "[0]" 1 "''second''"]
  by (simp add: prod_eq_iff)

end
