(* ===== verification/Route_Action.thy ===== *)
theory Route_Action
  imports Route_Matching Http_Modifiers Retry
begin

text \<open>
  What a matched route does with a request: answer it directly, redirect it, or send it to a cluster
  (\<open>direct_response.rs\<close>, \<open>redirect.rs\<close> and \<open>route.rs\<close> under
  \<open>orion-lib/src/listeners/http_connection_manager/\<close>), with the hash policies of
  \<open>orion-configuration/src/config/network_filters/http_connection_manager/route.rs\<close> and
  \<open>orion-lib/src/clusters/balancers/hash_policy.rs\<close> and the routing context of
  \<open>orion-lib/src/clusters/clusters_manager.rs\<close>.

  Parsing and building of URIs are operations of the crate \<open>http\<close>, hashing of \<open>twox-hash\<close>: records of
  operations passed to the definitions.  The cluster that is asked for a connection and the
  connection itself are arguments.
\<close>

section \<open>Hash policies\<close>

record 's hasher_ops =
  hasher_new :: 's
  hash_socket_addr :: "socket_addr \<Rightarrow> 's \<Rightarrow> 's"
  hash_header_value :: "header_value \<Rightarrow> 's \<Rightarrow> 's"
  hash_str :: "str \<Rightarrow> 's \<Rightarrow> 's"
  hasher_finish :: "'s \<Rightarrow> u64"

datatype policy_specifier = SourceIp bool | HashHeader header_name | HashQueryParameter str

record hash_policy =
  hp_specifier :: policy_specifier
  hp_terminal :: bool

datatype hash_policy_result = Applied | Skipped | Terminal

definition hash_policy_apply ::
  "'s hasher_ops \<Rightarrow> 'h header_map_ops \<Rightarrow> (str \<Rightarrow> (str \<times> str) list) \<Rightarrow> hash_policy \<Rightarrow> 's \<Rightarrow> ('h, 'a) request_scheme \<Rightarrow> socket_addr
     \<Rightarrow> hash_policy_result \<times> 's" where
  "hash_policy_apply hs H parse_query p hasher req src_addr =
     (let (applied, hasher') =
        (case hp_specifier p of
           SourceIp True \<Rightarrow> (True, hash_socket_addr hs src_addr hasher)
         | SourceIp False \<Rightarrow> (False, hasher)
         | HashHeader name \<Rightarrow>
             (case hm_get H (req_headers req) name of
                Some v \<Rightarrow> (True, hash_header_value hs v hasher) | None \<Rightarrow> (False, hasher))
         | HashQueryParameter name \<Rightarrow>
             (case Option.bind (uri_query (req_uri req)) (\<lambda>q. List.find (\<lambda>(key, _). key = name) (parse_query q)) of
                Some (_, v) \<Rightarrow> (True, hash_str hs v hasher) | None \<Rightarrow> (False, hasher)))
      in (if applied then (if hp_terminal p then Terminal else Applied) else Skipped, hasher'))"

text \<open>The fold of \<open>HashState::compute\<close>.\<close>
fun hash_policies_fold ::
  "'s hasher_ops \<Rightarrow> 'h header_map_ops \<Rightarrow> (str \<Rightarrow> (str \<times> str) list) \<Rightarrow> ('h, 'a) request_scheme \<Rightarrow> socket_addr
     \<Rightarrow> hash_policy list \<Rightarrow> bool \<Rightarrow> 's \<Rightarrow> u64 option" where
  "hash_policies_fold hs H parse_query req src_addr [] prev hasher = (if prev then Some (hasher_finish hs hasher) else None)"
| "hash_policies_fold hs H parse_query req src_addr (p # ps) prev hasher =
     (case hash_policy_apply hs H parse_query p hasher req src_addr of
        (Applied, hasher') \<Rightarrow> hash_policies_fold hs H parse_query req src_addr ps True hasher'
      | (Skipped, hasher') \<Rightarrow> hash_policies_fold hs H parse_query req src_addr ps prev hasher'
      | (Terminal, hasher') \<Rightarrow> Some (hasher_finish hs hasher'))"

definition hash_state_compute ::
  "'s hasher_ops \<Rightarrow> 'h header_map_ops \<Rightarrow> (str \<Rightarrow> (str \<times> str) list) \<Rightarrow> hash_policy list \<Rightarrow> ('h, 'a) request_scheme
     \<Rightarrow> socket_addr \<Rightarrow> u64 option" where
  "hash_state_compute hs H parse_query policies req src_addr =
     (if policies = [] then None
      else hash_policies_fold hs H parse_query req src_addr policies False (hasher_new hs))"

section \<open>Routing context\<close>

datatype routing_requirement =
  ReqNone | ReqHeader header_name | ReqAuthority | ReqHash | ReqOverrideHost header_name bool

text \<open>A hash state is carried by the hash it computes.\<close>
datatype routing_context =
  CtxNone | CtxHeader header_value | CtxAuthority str socket_addr | CtxHash "u64 option"
  | CtxOverrideHost header_value "u64 option option"

datatype routing_error = MissingRequiredHeader header_name | HostNotAuthority | NoHostHeader

definition routing_context_try_from ::
  "'h header_map_ops \<Rightarrow> (str \<Rightarrow> str option) \<Rightarrow> routing_requirement \<Rightarrow> ('h, 'a) request_scheme \<Rightarrow> u64 option \<Rightarrow> socket_addr
     \<Rightarrow> routing_error + routing_context" where
  "routing_context_try_from H parse_authority requirement req hash_state original_destination_address =
     (case requirement of
        ReqOverrideHost header fallback_requires_hash \<Rightarrow>
          (case hm_get H (req_headers req) header of
             Some header_value \<Rightarrow>
               Inr (CtxOverrideHost header_value (if fallback_requires_hash then Some hash_state else None))
           | None \<Rightarrow> if fallback_requires_hash then Inr (CtxHash hash_state) else Inr CtxNone)
      | ReqHeader header_name \<Rightarrow>
          (case hm_get H (req_headers req) header_name of
             Some v \<Rightarrow> Inr (CtxHeader v) | None \<Rightarrow> Inl (MissingRequiredHeader header_name))
      | ReqAuthority \<Rightarrow>
          (case uri_authority (req_uri req) of
             None \<Rightarrow>
               (case hm_get H (req_headers req) ''host'' of
                  Some host \<Rightarrow>
                    (case parse_authority host of
                       Some a \<Rightarrow> Inr (CtxAuthority a original_destination_address) | None \<Rightarrow> Inl HostNotAuthority)
                | None \<Rightarrow> Inl NoHostHeader)
           | Some a \<Rightarrow> Inr (CtxAuthority a original_destination_address))
      | ReqHash \<Rightarrow> Inr (CtxHash hash_state)
      | ReqNone \<Rightarrow> Inr CtxNone)"

section \<open>Direct responses and redirects\<close>

record uri_ops =
  authority_from_str :: "str \<Rightarrow> str option"
  paq_from_str :: "str \<Rightarrow> path_and_query option"
  uri_from_parts :: uri_builder
  uri_to_string :: "uri \<Rightarrow> str"

record direct_response_action =
  dr_status :: u16
  dr_body :: "str option"

definition direct_response :: "'h header_map_ops \<Rightarrow> direct_response_action \<Rightarrow> 'h versioned_request \<Rightarrow> 'h full_response" where
  "direct_response H dr req =
     \<lparr>resp_status = dr_status dr, resp_headers = hm_empty H, resp_version = req_version req,
      resp_body = (case dr_body dr of Some b \<Rightarrow> b | None \<Rightarrow> []), resp_flags = {}, resp_event = None\<rparr>"

datatype redirect_response_code = Found | MovedPermanently | PermanentRedirect | SeeOther | TemporaryRedirect

definition redirect_status :: "redirect_response_code \<Rightarrow> u16" where
  "redirect_status c =
     (case c of Found \<Rightarrow> 302 | MovedPermanently \<Rightarrow> 301 | PermanentRedirect \<Rightarrow> 308 | SeeOther \<Rightarrow> 303 | TemporaryRedirect \<Rightarrow> 307)"

datatype authority_redirect = PortRedirect u16 | HostRedirect str | AuthorityRedirect str

record 'r redirect_action =
  rd_response_code :: redirect_response_code
  rd_strip_query :: bool
  rd_authority_redirect :: "authority_redirect option"
  rd_scheme_rewrite_specifier :: "str option"
  rd_path_rewrite_specifier :: "'r path_rewrite_specifier option"

datatype redirect_error = InvalidUri | NoHostForPortRedirect | StripQueryFailed | InvalidReplacement | CannotRebuild | BadLocation

definition redirect_authority :: "uri_ops \<Rightarrow> authority_redirect option \<Rightarrow> uri \<Rightarrow> redirect_error + str option" where
  "redirect_authority U redirect orig =
     (let with_port = (\<lambda>h port. case authority_from_str U (h @ '':'' @ show_radix 10 (unat (port :: u16))) of
            Some a \<Rightarrow> Inr (Some a) | None \<Rightarrow> Inl InvalidUri) in
      case redirect of
        None \<Rightarrow> Inr (uri_authority orig)
      | Some (AuthorityRedirect a) \<Rightarrow> Inr (Some a)
      | Some (HostRedirect h) \<Rightarrow>
          (case uri_port orig of
             None \<Rightarrow> Inr (Some h)
           | Some port \<Rightarrow>
               if (uri_scheme orig = Some ''http'' \<and> port = 80) \<or> (uri_scheme orig = Some ''https'' \<and> port = 443)
               then Inr (Some h) else with_port h port)
      | Some (PortRedirect port) \<Rightarrow>
          (case uri_host orig of Some h \<Rightarrow> with_port h port | None \<Rightarrow> Inl NoHostForPortRedirect))"

definition redirect_path ::
  "uri_ops \<Rightarrow> ('r \<Rightarrow> str \<Rightarrow> str \<Rightarrow> str option) \<Rightarrow> 'r redirect_action \<Rightarrow> uri \<Rightarrow> route_match_result
     \<Rightarrow> (redirect_error + path_and_query option) outcome" where
  "redirect_path U replace_all rd orig rmr =
     (let stripped = (case uri_path_and_query orig of
          Some p \<Rightarrow>
            if paq_query p \<noteq> None \<and> rd_strip_query rd
            then (case paq_from_str U (paq_path p) of Some p' \<Rightarrow> Inr (Some p') | None \<Rightarrow> Inl StripQueryFailed)
            else Inr (Some p)
        | None \<Rightarrow> Inr None)
      in case stripped of
           Inl e \<Rightarrow> Ret (Inl e)
         | Inr pq \<Rightarrow>
             (case rd_path_rewrite_specifier rd of
                None \<Rightarrow> Ret (Inr pq)
              | Some prs \<Rightarrow>
                  mapP (\<lambda>r. case r of Inl _ \<Rightarrow> Inl InvalidReplacement
                              | Inr (Some replacement) \<Rightarrow> Inr (Some replacement) | Inr None \<Rightarrow> Inr pq)
                    (path_rewrite_apply replace_all (paq_from_str U) prs pq rmr)))"

definition redirect_to_response ::
  "'h header_map_ops \<Rightarrow> uri_ops \<Rightarrow> ('r \<Rightarrow> str \<Rightarrow> str \<Rightarrow> str option) \<Rightarrow> 'r redirect_action \<Rightarrow> 'h versioned_request
     \<Rightarrow> route_match_result \<Rightarrow> (redirect_error + 'h full_response) outcome" where
  "redirect_to_response H U replace_all rd req rmr =
     (let orig = req_uri req in
      case redirect_authority U (rd_authority_redirect rd) orig of
        Inl e \<Rightarrow> Ret (Inl e)
      | Inr authority \<Rightarrow>
          bindP (redirect_path U replace_all rd orig rmr) (\<lambda>path.
            Ret (case path of
                Inl e \<Rightarrow> Inl e
              | Inr path_and_query \<Rightarrow>
                  (let scheme = (case rd_scheme_rewrite_specifier rd of Some s \<Rightarrow> Some s
                       | None \<Rightarrow> (case uri_scheme orig of Some s \<Rightarrow> Some s | None \<Rightarrow> Some ''http''))
                   in case uri_from_parts U scheme authority path_and_query of
                        None \<Rightarrow> Inl CannotRebuild
                      | Some new_uri \<Rightarrow>
                          (case hv_from_str H (uri_to_string U new_uri) of
                             None \<Rightarrow> Inl BadLocation
                           | Some redirect_target \<Rightarrow>
                               Inr \<lparr>resp_status = redirect_status (rd_response_code rd),
                                    resp_headers = hm_insert H (hm_empty H) ''location'' redirect_target,
                                    resp_version = req_version req, resp_body = [], resp_flags = {}, resp_event = None\<rparr>)))))"

section \<open>Websocket upgrades\<close>

text \<open>\<open>handle_websocket_upgrade\<close>, given what the upstream answers.\<close>
definition handle_websocket_upgrade ::
  "'h header_map_ops \<Rightarrow> http_version \<Rightarrow> error_chain + 'h answer \<Rightarrow> 'h answer" where
  "handle_websocket_upgrade H version upstream =
     (case version of
        HTTP_11 \<Rightarrow>
          (case upstream of
             Inr (Upstream r t) \<Rightarrow>
               if resp_status r = 101 then Upstream r t
               else Synthetic (into_response H (not_allowed UpgradeFailed {UpstreamConnectionFailure}) version)
           | Inr (Synthetic r) \<Rightarrow>
               if resp_status r = 101 then Synthetic r
               else Synthetic (into_response H (not_allowed UpgradeFailed {UpstreamConnectionFailure}) version)
           | Inl err \<Rightarrow> Synthetic (into_response H (bad_gateway UpgradeFailed {UpstreamConnectionFailure}) version))
      | _ \<Rightarrow> Synthetic (into_response H (bad_request UpgradeFailed) version))"

section \<open>Sending to a cluster\<close>

record 'r route_action =
  ra_timeout :: "nanos option"
  ra_rewrite :: "'r path_rewrite_specifier option"
  ra_authority_rewrite :: "(str, 'r) authority_rewrite_specifier option"
  ra_upgrade_config :: "upgrade_config option"
  ra_hash_policy :: "hash_policy list"

datatype route_error = ClusterNotResolved | RoutingFailed routing_error | InvalidPath | CannotReplaceUri | BadHost

text \<open>The head of the request for the upstream: path and authority rewritten, the host header following
  the authority.\<close>
definition upstream_request ::
  "'h header_map_ops \<Rightarrow> uri_ops \<Rightarrow> ('r \<Rightarrow> str \<Rightarrow> str \<Rightarrow> str option) \<Rightarrow> 'r route_action \<Rightarrow> str \<Rightarrow> 'h versioned_request
     \<Rightarrow> route_match_result \<Rightarrow> (route_error + 'h versioned_request) outcome" where
  "upstream_request H U replace_all ra upstream_authority req route_match =
     (let u = req_uri req;
          path = (case ra_rewrite ra of
              None \<Rightarrow> Ret (Inr None)
            | Some rewrite \<Rightarrow> path_rewrite_apply replace_all (paq_from_str U) rewrite (uri_path_and_query u) route_match)
      in bindP path (\<lambda>path. Ret (case path of
           Inl _ \<Rightarrow> Inl InvalidPath
         | Inr path_replacement \<Rightarrow>
             (let authority_replacement =
                (case ra_authority_rewrite ra of
                   None \<Rightarrow> None
                 | Some aw \<Rightarrow> authority_rewrite_apply H replace_all (authority_from_str U) aw u (req_headers req) upstream_authority);
                  new_uri =
                    (if path_replacement \<noteq> None \<or> authority_replacement \<noteq> None
                     then uri_from_parts U (uri_scheme u)
                            (case authority_replacement of Some a \<Rightarrow> Some a | None \<Rightarrow> uri_authority u)
                            (case path_replacement of Some p \<Rightarrow> Some p | None \<Rightarrow> uri_path_and_query u)
                     else Some u)
              in case new_uri of
                   None \<Rightarrow> Inl CannotReplaceUri
                 | Some new_uri \<Rightarrow>
                     (case authority_replacement of
                        None \<Rightarrow> Inr (req\<lparr>req_uri := new_uri\<rparr>)
                      | Some a \<Rightarrow>
                          (case hv_from_str H a of
                             None \<Rightarrow> Inl BadHost
                           | Some v \<Rightarrow> Inr (req\<lparr>req_uri := new_uri, req_headers := hm_insert H (req_headers req) ''host'' v\<rparr>)))))))"

text \<open>The response of the connection, with its errors made responses.\<close>
definition answer_of_channel :: "'h header_map_ops \<Rightarrow> http_version \<Rightarrow> error_chain + 'h answer \<Rightarrow> 'h answer" where
  "answer_of_channel H ver resp =
     (case resp of
        Inr r \<Rightarrow> r
      | Inl err \<Rightarrow>
          (let event_error = event_try_infer_from err;
               flags = (case event_error of Some e \<Rightarrow> event_response_flags e | None \<Rightarrow> {});
               kind = (case event_error of Some e \<Rightarrow> EvError e | None \<Rightarrow> ViaUpstream)
           in Synthetic (into_response H (bad_gateway kind flags) ver)))"

text \<open>The end of \<open>RouteAction::to_response\<close>: upgrade, preflight, sending.  The second component is the request
  the connection was given, if it was.\<close>
definition websocket_allowed :: "'r route_action \<Rightarrow> bool \<Rightarrow> bool" where
  "websocket_allowed ra enabled_by_default =
     (case ra_upgrade_config ra of Some c \<Rightarrow> is_websocket_enabled c enabled_by_default | None \<Rightarrow> enabled_by_default)"

definition forward_upstream ::
  "'h header_map_ops \<Rightarrow> 'r route_action \<Rightarrow> bool \<Rightarrow> http_version \<Rightarrow> ('h versioned_request \<Rightarrow> error_chain + 'h answer)
     \<Rightarrow> 'h versioned_request \<Rightarrow> 'h answer \<times> 'h versioned_request option" where
  "forward_upstream H ra websocket_enabled_by_default ver send up =
     (case (if websocket_allowed ra websocket_enabled_by_default
            then is_valid_websocket_upgrade_request H (req_headers up) else Some False) of
        None \<Rightarrow> (Synthetic (into_response H (bad_request UpgradeFailed) ver), None)
      | Some should_upgrade_websocket \<Rightarrow>
          if should_upgrade_websocket then
            (if req_version up = HTTP_11
             then (handle_websocket_upgrade H (req_version up) (send up), Some up)
             else (handle_websocket_upgrade H (req_version up) (Inl []), None))
          else
            (case apply_preflight_functions H up of
               Inl refusal \<Rightarrow> (Synthetic refusal, None)
             | Inr up' \<Rightarrow> (answer_of_channel H ver (send up'), Some up')))"

text \<open>\<open>RouteAction::to_response\<close>.  \<open>cluster\<close> is what the specifier, the routing requirement and the cluster
  manager give: nothing, a routing error, a connection error, or a connection with the upstream's
  authority; \<open>send\<close> is that connection.\<close>
definition route_to_response ::
  "'h header_map_ops \<Rightarrow> uri_ops \<Rightarrow> ('r \<Rightarrow> str \<Rightarrow> str \<Rightarrow> str option) \<Rightarrow> 'r route_action \<Rightarrow> bool
     \<Rightarrow> (routing_error + (error_chain + str)) option \<Rightarrow> ('h versioned_request \<Rightarrow> error_chain + 'h answer)
     \<Rightarrow> 'h versioned_request \<Rightarrow> route_match_result \<Rightarrow> (route_error + 'h answer \<times> 'h versioned_request option) outcome" where
  "route_to_response H U replace_all ra websocket_enabled_by_default cluster send req route_match =
     (case cluster of
        None \<Rightarrow> Ret (Inl ClusterNotResolved)
      | Some (Inl e) \<Rightarrow> Ret (Inl (RoutingFailed e))
      | Some (Inr (Inl err)) \<Rightarrow>
          (let event_error = event_try_infer_from err;
               flags = (case event_error of Some e \<Rightarrow> event_response_flags e | None \<Rightarrow> {});
               kind = (case event_error of Some e \<Rightarrow> EvError e | None \<Rightarrow> ViaUpstream)
           in Ret (Inr (Synthetic (into_response H (internal_error kind flags) (req_version req)), None)))
      | Some (Inr (Inr upstream_authority)) \<Rightarrow>
          mapP (map_sum id (forward_upstream H ra websocket_enabled_by_default (req_version req) send))
            (upstream_request H U replace_all ra upstream_authority req route_match))"

section \<open>A concrete request\<close>

definition example_uri_ops :: uri_ops where
  "example_uri_ops = \<lparr>authority_from_str = Some, paq_from_str = (\<lambda>s. Some \<lparr>paq_path = s, paq_query = None\<rparr>),
     uri_from_parts = (\<lambda>scheme authority paq. Some \<lparr>uri_scheme = scheme, uri_authority = authority, uri_host = authority,
       uri_port = None, uri_path = (case paq of Some p \<Rightarrow> paq_path p | None \<Rightarrow> []),
       uri_query = (case paq of Some p \<Rightarrow> paq_query p | None \<Rightarrow> None), uri_path_and_query = paq\<rparr>),
     uri_to_string = (\<lambda>u. uri_path u)\<rparr>"

definition example_request :: "(header_name \<times> header_value) list versioned_request" where
  "example_request = \<lparr>req_method = ''GET'',
     req_uri = \<lparr>uri_scheme = None, uri_authority = None, uri_host = None, uri_port = None, uri_path = ''/'', uri_query = None,
                uri_path_and_query = Some \<lparr>paq_path = ''/'', paq_query = None\<rparr>\<rparr>,
     req_headers = [(''connection'', ''close''), (''host'', ''a'')], req_version = HTTP_11\<rparr>"

section \<open>Facts\<close>

text \<open>A terminal policy that applies cuts off the later ones.\<close>
lemma hash_policies_terminal:
  "fst (hash_policy_apply hs H pq p (hasher :: 's) req src) = Terminal \<Longrightarrow>
   hash_policies_fold hs H pq req src (p # ps) prev hasher = hash_policies_fold hs H pq req src [p] prev hasher"
  by (auto split: prod.splits hash_policy_result.splits)

lemma preflight_clean:
  assumes "header_map_laws H" "apply_preflight_functions H req = Inr up"
  shows "req_method up \<noteq> ''CONNECT'' \<and> (\<forall>n \<in> set hop_by_hop_headers. hm_get_all H (req_headers up) n = [])"
  using assms
  by (auto simp: apply_preflight_functions_def filter_disallowed_requests_def strip_hop_headers_get
      split: option.splits if_splits)

lemma forward_upstream_clean:
  assumes laws: "header_map_laws H" and "forward_upstream H ra ws_default ver send up0 = (answer, Some up)"
  shows "(is_valid_websocket_upgrade_request H (req_headers up) = Some True \<and> req_version up = HTTP_11 \<and>
      websocket_allowed ra ws_default) \<or>
    (req_method up \<noteq> ''CONNECT'' \<and> (\<forall>n \<in> set hop_by_hop_headers. hm_get_all H (req_headers up) n = []) \<and>
      (\<forall>err. send up = Inl err \<longrightarrow> (\<exists>r. answer = Synthetic r \<and> resp_status r = 502)))"
proof (cases "if websocket_allowed ra ws_default then is_valid_websocket_upgrade_request H (req_headers up0) else Some False")
  case None
  then show ?thesis using assms(2) by (simp add: forward_upstream_def)
next
  case (Some upgrade)
  show ?thesis
  proof (cases upgrade)
    case True
    then show ?thesis using assms(2) Some by (auto simp: forward_upstream_def split: if_splits)
  next
    case False
    then have "apply_preflight_functions H up0 = Inr up" "answer = answer_of_channel H ver (send up)"
      using assms(2) Some by (auto simp: forward_upstream_def split: sum.splits)
    then show ?thesis using preflight_clean [OF laws] by (auto simp: answer_of_channel_def Let_def)
  qed
qed

text \<open>C26: What reaches the upstream.  A request goes out with its hop-by-hop headers only as a websocket
  upgrade that is enabled, well formed and in HTTP/1.1; any other request that goes out is not CONNECT, is not
  an upgrade and carries no hop-by-hop header, and its failures come back as a 502 answer.\<close>
theorem route_upstream_request_clean:
  assumes laws: "header_map_laws H"
    and "route_to_response H U replace_all ra ws_default cluster send req rm = Ret (Inr (answer, Some up))"
  shows "(is_valid_websocket_upgrade_request H (req_headers up) = Some True \<and> req_version up = HTTP_11 \<and>
      websocket_allowed ra ws_default) \<or>
    (req_method up \<noteq> ''CONNECT'' \<and> (\<forall>n \<in> set hop_by_hop_headers. hm_get_all H (req_headers up) n = []) \<and>
      (\<forall>err. send up = Inl err \<longrightarrow> (\<exists>r. answer = Synthetic r \<and> resp_status r = 502)))"
proof -
  from assms(2) obtain up0 where "forward_upstream H ra ws_default (req_version req) send up0 = (answer, Some up)"
    by (auto simp: route_to_response_def panic_simps Let_def map_sum_def split: option.splits sum.splits) (metis old.sum.exhaust)
  then show ?thesis by (rule forward_upstream_clean [OF laws])
qed

theorem route_upstream_request_clean_witness:
  "\<exists>answer up. route_to_response alist_headers example_uri_ops (\<lambda>(_ :: unit) _ _. None)
      \<lparr>ra_timeout = None, ra_rewrite = None, ra_authority_rewrite = None, ra_upgrade_config = None, ra_hash_policy = []\<rparr>
      True (Some (Inr (Inr ''up:80''))) (\<lambda>_. Inl []) example_request
      \<lparr>path_match = None, headers_matched = True, query_parameters_matched = True\<rparr> = Ret (Inr (answer, Some up)) \<and>
    hm_get_all alist_headers (req_headers up) ''connection'' = []"
proof -
  let ?ra = "\<lparr>ra_timeout = None, ra_rewrite = None, ra_authority_rewrite = None, ra_upgrade_config = None, ra_hash_policy = []\<rparr> :: unit route_action"
  let ?rm = "\<lparr>path_match = None, headers_matched = True, query_parameters_matched = True\<rparr>"
  have "is_valid_websocket_upgrade_request alist_headers (req_headers example_request) = Some False"
    "filter_disallowed_requests alist_headers example_request = None"
    by (simp_all add: is_valid_websocket_upgrade_request_def example_request_def filter_disallowed_requests_def
        alist_headers_def visible_ascii_def is_upgrade_connection_def to_ascii_lowercase_def)
  then obtain answer up where run: "route_to_response alist_headers example_uri_ops (\<lambda>(_ :: unit) _ _. None) ?ra True
      (Some (Inr (Inr ''up:80''))) (\<lambda>_. Inl []) example_request ?rm = Ret (Inr (answer, Some up))"
    by (simp add: route_to_response_def upstream_request_def forward_upstream_def websocket_allowed_def apply_preflight_functions_def)
  have "is_valid_websocket_upgrade_request alist_headers (req_headers up) \<noteq> Some True"
    using run by (auto simp: route_to_response_def upstream_request_def forward_upstream_def websocket_allowed_def
        apply_preflight_functions_def is_valid_websocket_upgrade_request_def example_request_def filter_disallowed_requests_def
        alist_headers_def visible_ascii_def is_upgrade_connection_def to_ascii_lowercase_def strip_hop_headers_def hop_by_hop_headers_def)
  then have "hm_get_all alist_headers (req_headers up) ''connection'' = []"
    using route_upstream_request_clean [OF alist_headers_laws run] by (auto simp: hop_by_hop_headers_def)
  then show ?thesis using run by blast
qed

end
