(* ===== verification/Virtual_Host.thy ===== *)
theory Virtual_Host
  imports Http_Types "HOL-Library.Option_ord"
begin

text \<open>
  Virtual host selection: the domain patterns \<open>MatchHost\<close> with their longest-pattern-match score
  (\<open>orion-configuration/src/config/network_filters/http_connection_manager.rs\<close>) and
  \<open>select_virtual_host\<close> (\<open>orion-lib/src/listeners/http_connection_manager.rs\<close>).

  \<open>HeaderValue::from_str\<close> and \<open>Authority::from_str(s).host()\<close> belong to the crate \<open>http\<close> and are
  arguments; the theorems hold whatever they return.
\<close>

datatype match_host =
    MatchWildcard
  | MatchPrefix str
  | MatchSuffix str
  | MatchExact str

fun match_host_serialize :: "match_host \<Rightarrow> str" where
  "match_host_serialize MatchWildcard = ''*''"
| "match_host_serialize (MatchExact cs) = cs"
| "match_host_serialize (MatchPrefix cs) = cs @ ''*''"
| "match_host_serialize (MatchSuffix cs) = ''*'' @ cs"

datatype match_host_error = NotAHeaderValue | WildcardPosition

definition strip_suffix_char :: "char \<Rightarrow> str \<Rightarrow> str option" where
  "strip_suffix_char c s = (if s \<noteq> [] \<and> last s = c then Some (butlast s) else None)"

definition match_host_try_from :: "(str \<Rightarrow> bool) \<Rightarrow> str \<Rightarrow> match_host_error + match_host" where
  "match_host_try_from header_value_ok value =
     (if \<not> header_value_ok value then Inl NotAHeaderValue
      else if value = ''*'' then Inr MatchWildcard
      else if length (filter (\<lambda>c. c = CHR ''*'') value) > 1 then Inl WildcardPosition
      else case strip_prefix value ''*'' of
             Some host \<Rightarrow> Inr (MatchSuffix host)
           | None \<Rightarrow>
               (case strip_suffix_char (CHR ''*'') value of
                  Some host \<Rightarrow> Inr (MatchPrefix host)
                | None \<Rightarrow> if CHR ''*'' \<in> set value then Inl WildcardPosition else Inr (MatchExact value)))"

text \<open>\<open>MatchHostScoreLPM\<close> derives its order: by variant, then by length.\<close>
datatype match_host_score =
    ScoreWildcard
  | ScorePrefix nat
  | ScoreSuffix nat
  | ScoreExact nat

fun score_key :: "match_host_score \<Rightarrow> nat \<times> nat" where
  "score_key ScoreWildcard = (0, 0)"
| "score_key (ScorePrefix n) = (1, n)"
| "score_key (ScoreSuffix n) = (2, n)"
| "score_key (ScoreExact n) = (3, n)"

instantiation match_host_score :: linorder
begin

definition less_eq_match_host_score :: "match_host_score \<Rightarrow> match_host_score \<Rightarrow> bool" where
  "less_eq_match_host_score a b \<longleftrightarrow>
     fst (score_key a) < fst (score_key b) \<or>
     (fst (score_key a) = fst (score_key b) \<and> snd (score_key a) \<le> snd (score_key b))"

definition less_match_host_score :: "match_host_score \<Rightarrow> match_host_score \<Rightarrow> bool" where
  "less_match_host_score a b \<longleftrightarrow> a \<le> b \<and> \<not> b \<le> (a :: match_host_score)"

instance
proof
  fix x y z :: match_host_score
  show "x < y \<longleftrightarrow> x \<le> y \<and> \<not> y \<le> x"
    by (simp add: less_match_host_score_def)
  show "x \<le> x"
    by (simp add: less_eq_match_host_score_def)
  show "x \<le> y \<Longrightarrow> y \<le> z \<Longrightarrow> x \<le> z"
    by (auto simp: less_eq_match_host_score_def)
  show "x \<le> y \<Longrightarrow> y \<le> x \<Longrightarrow> x = y"
    by (cases x; cases y) (auto simp: less_eq_match_host_score_def)
  show "x \<le> y \<or> y \<le> x"
    by (auto simp: less_eq_match_host_score_def)
qed

end

definition eval_lpm_host :: "match_host \<Rightarrow> str \<Rightarrow> match_host_score option" where
  "eval_lpm_host mh host =
     (case mh of
        MatchExact h \<Rightarrow>
          let host = (case strip_suffix_char (CHR ''.'') host of Some s \<Rightarrow> s | None \<Rightarrow> host)
          in if h = host then Some (ScoreExact (length h)) else None
      | MatchSuffix suffix \<Rightarrow>
          let host = (case strip_suffix_char (CHR ''.'') host of Some s \<Rightarrow> s | None \<Rightarrow> host)
          in if length host > length suffix \<and> ends_with host suffix then Some (ScoreSuffix (length suffix)) else None
      | MatchPrefix prefix \<Rightarrow>
          if length host > length prefix \<and> starts_with host prefix then Some (ScorePrefix (length prefix)) else None
      | MatchWildcard \<Rightarrow> Some ScoreWildcard)"

definition request_host :: "'h header_map_ops \<Rightarrow> (str \<Rightarrow> str option) \<Rightarrow> 'h request \<Rightarrow> str option" where
  "request_host H authority_host req =
     (case hm_get H (req_headers req) ''host'' of
        Some header_value \<Rightarrow>
          (case hv_to_str H header_value of
             None \<Rightarrow> None
           | Some host \<Rightarrow> (case authority_host host of Some h \<Rightarrow> Some h | None \<Rightarrow> Some host))
      | None \<Rightarrow> uri_host (req_uri req))"

definition eval_lpm_request ::
  "'h header_map_ops \<Rightarrow> (str \<Rightarrow> str option) \<Rightarrow> match_host \<Rightarrow> 'h request \<Rightarrow> match_host_score option" where
  "eval_lpm_request H authority_host mh req =
     (case request_host H authority_host req of None \<Rightarrow> None | Some host \<Rightarrow> eval_lpm_host mh host)"

text \<open>\<open>max().flatten()\<close> over the domains: \<open>None\<close> is below every score.\<close>
definition domains_score ::
  "'h header_map_ops \<Rightarrow> (str \<Rightarrow> str option) \<Rightarrow> 'h request \<Rightarrow> match_host list \<Rightarrow> match_host_score option" where
  "domains_score H authority_host req domains =
     Option.bind (iter_max (map (\<lambda>domain. eval_lpm_request H authority_host domain req) domains)) id"

text \<open>\<open>select_virtual_host\<close>, on whatever a virtual host is: \<open>domains\<close> is its field.\<close>
definition select_virtual_host ::
  "'h header_map_ops \<Rightarrow> (str \<Rightarrow> str option) \<Rightarrow> ('vh \<Rightarrow> match_host list) \<Rightarrow> 'h request \<Rightarrow> 'vh list \<Rightarrow> 'vh option" where
  "select_virtual_host H authority_host domains req virtual_hosts =
     (let mapped_vhs = List.map_filter (\<lambda>vh. map_option (Pair vh) (domains_score H authority_host req (domains vh))) virtual_hosts
      in map_option fst (max_by_key snd mapped_vhs))"

section \<open>Lemmas\<close>

lemma strip_suffix_char_append [simp]: "strip_suffix_char c (s @ [c]) = Some s"
  by (simp add: strip_suffix_char_def)

lemma strip_suffix_char_Some: "strip_suffix_char c s = Some t \<longleftrightarrow> s = t @ [c]"
  by (cases s rule: rev_cases) (auto simp: strip_suffix_char_def)

lemma strip_suffix_char_None: "strip_suffix_char c s = None \<longleftrightarrow> \<not> (\<exists>t. s = t @ [c])"
  by (metis not_None_eq strip_suffix_char_Some)

lemma strip_prefix_Some: "strip_prefix s p = Some t \<longleftrightarrow> s = p @ t"
  by (auto simp: strip_prefix_def starts_with_iff)

lemma strip_prefix_None: "strip_prefix s p = None \<longleftrightarrow> \<not> (\<exists>t. s = p @ t)"
  by (auto simp: strip_prefix_def starts_with_iff)

lemma domains_score_Some:
  assumes "domains_score H ah req ds = Some sc"
  shows "\<exists>d \<in> set ds. eval_lpm_request H ah d req = Some sc"
    and "\<And>d sc'. d \<in> set ds \<Longrightarrow> eval_lpm_request H ah d req = Some sc' \<Longrightarrow> sc' \<le> sc"
proof -
  obtain d ds' where ds: "ds = d # ds'"
    using assms by (cases ds) (auto simp: domains_score_def)
  let ?m = "foldl max (eval_lpm_request H ah d req) (map (\<lambda>d. eval_lpm_request H ah d req) ds')"
  have m: "?m = Some sc"
    using assms ds by (simp add: domains_score_def)
  note fm = foldl_max_max [of "eval_lpm_request H ah d req" "map (\<lambda>d. eval_lpm_request H ah d req) ds'"]
  then show "\<exists>d \<in> set ds. eval_lpm_request H ah d req = Some sc"
    unfolding m ds by force
  show "sc' \<le> sc" if "d' \<in> set ds" "eval_lpm_request H ah d' req = Some sc'" for d' sc'
    using fm that unfolding m ds by (metis less_eq_option_Some list.set_intros(1,2) list.set_map imageI set_ConsD)
qed

lemma domains_score_None:
  assumes "domains_score H ah req ds = None" "d \<in> set ds"
  shows "eval_lpm_request H ah d req = None"
proof -
  obtain d0 ds' where ds: "ds = d0 # ds'"
    using assms by (cases ds) auto
  have "foldl max (eval_lpm_request H ah d0 req) (map (\<lambda>d. eval_lpm_request H ah d req) ds') = None"
    using assms ds by (simp add: domains_score_def)
  with foldl_max_max [of "eval_lpm_request H ah d0 req" "map (\<lambda>d. eval_lpm_request H ah d req) ds'"]
  show ?thesis
    using assms(2) ds by (metis less_eq_option_None_is_None list.set_intros(1,2) list.set_map imageI set_ConsD)
qed

lemma mapped_vhs_set:
  "(vh, sc) \<in> set (List.map_filter (\<lambda>vh. map_option (Pair vh) (domains_score H ah req (domains vh))) vhs)
     \<longleftrightarrow> vh \<in> set vhs \<and> domains_score H ah req (domains vh) = Some sc"
  by (force simp: List.map_filter_def)

lemma select_virtual_host_Some:
  assumes "select_virtual_host H ah domains req vhs = Some vh"
  obtains sc where "vh \<in> set vhs" "domains_score H ah req (domains vh) = Some sc"
    "\<And>vh' sc'. vh' \<in> set vhs \<Longrightarrow> domains_score H ah req (domains vh') = Some sc' \<Longrightarrow> sc' \<le> sc"
proof -
  obtain sc where best: "max_by_key snd (List.map_filter (\<lambda>vh. map_option (Pair vh) (domains_score H ah req (domains vh))) vhs) = Some (vh, sc)"
    using assms by (auto simp: select_virtual_host_def Let_def)
  show ?thesis
  proof (rule that [of sc])
    show "vh \<in> set vhs" "domains_score H ah req (domains vh) = Some sc"
      using max_by_key_Some(1) [OF best] by (auto simp: mapped_vhs_set)
    show "sc' \<le> sc" if "vh' \<in> set vhs" "domains_score H ah req (domains vh') = Some sc'" for vh' sc'
      using max_by_key_Some(2) [OF best, of "(vh', sc')"] that by (simp add: mapped_vhs_set)
  qed
qed

section \<open>Properties\<close>

text \<open>C7: the virtual host chosen is one whose best domain pattern scores highest for the request's
  host: an exact domain beats every suffix, a suffix every prefix, a prefix the wildcard, and a
  longer pattern a shorter one of its kind.  No host is chosen exactly when no domain matches.\<close>
theorem select_virtual_host_best:
  "(case select_virtual_host H ah domains req vhs of
      None \<Rightarrow> \<forall>vh \<in> set vhs. \<forall>d \<in> set (domains vh). eval_lpm_request H ah d req = None
    | Some vh \<Rightarrow> vh \<in> set vhs \<and> (\<exists>sc. (\<exists>d \<in> set (domains vh). eval_lpm_request H ah d req = Some sc)
        \<and> (\<forall>vh' \<in> set vhs. \<forall>d \<in> set (domains vh'). \<forall>sc'. eval_lpm_request H ah d req = Some sc' \<longrightarrow> sc' \<le> sc)))"
proof (cases "select_virtual_host H ah domains req vhs")
  case None
  then have "\<forall>vh \<in> set vhs. domains_score H ah req (domains vh) = None"
    using mapped_vhs_set [where domains = domains and vhs = vhs and req = req and H = H and ah = ah]
    by (fastforce simp: select_virtual_host_def Let_def)
  with None show ?thesis
    by (auto dest: domains_score_None)
next
  case (Some vh)
  from Some obtain sc where sc: "vh \<in> set vhs" "domains_score H ah req (domains vh) = Some sc"
    "\<And>vh' sc'. vh' \<in> set vhs \<Longrightarrow> domains_score H ah req (domains vh') = Some sc' \<Longrightarrow> sc' \<le> sc"
    by (rule select_virtual_host_Some) blast
  have "sc' \<le> sc" if "vh' \<in> set vhs" "d \<in> set (domains vh')" "eval_lpm_request H ah d req = Some sc'" for vh' d sc'
  proof (cases "domains_score H ah req (domains vh')")
    case None
    with that show ?thesis by (auto dest: domains_score_None)
  next
    case (Some sc0)
    have "sc' \<le> sc0"
      using domains_score_Some(2) [OF Some that(2,3)] .
    with sc(3) [OF that(1) Some] show ?thesis by simp
  qed
  with Some sc(1) domains_score_Some(1) [OF sc(2)] show ?thesis
    by auto
qed

theorem select_virtual_host_best_witness:
  "select_virtual_host alist_headers Some snd
     \<lparr>req_method = ''GET'', req_uri = undefined, req_headers = [(''host'', ''a.b.c'')]\<rparr>
     [(1 :: nat, [MatchWildcard, MatchPrefix ''a.b'']), (2, [MatchSuffix ''.b.c'']), (3, [MatchSuffix ''.c''])]
   = Some (2, [MatchSuffix ''.b.c''])"
proof -
  let ?r = "\<lparr>req_method = ''GET'', req_uri = undefined, req_headers = [(''host'', ''a.b.c'')]\<rparr>"
  let ?v = "[(1 :: nat, [MatchWildcard, MatchPrefix ''a.b'']), (2, [MatchSuffix ''.b.c'']), (3, [MatchSuffix ''.c''])]"
  have eval: "eval_lpm_request alist_headers Some MatchWildcard ?r = Some ScoreWildcard"
    "eval_lpm_request alist_headers Some (MatchPrefix ''a.b'') ?r = Some (ScorePrefix 3)"
    "eval_lpm_request alist_headers Some (MatchSuffix ''.b.c'') ?r = Some (ScoreSuffix 4)"
    "eval_lpm_request alist_headers Some (MatchSuffix ''.c'') ?r = Some (ScoreSuffix 2)"
    by (simp_all add: eval_lpm_request_def request_host_def alist_headers_def visible_ascii_def eval_lpm_host_def
        strip_suffix_char_def ends_with_def)
  note best = select_virtual_host_best [where H = alist_headers and ah = Some and domains = snd and req = ?r and vhs = ?v]
  show ?thesis
  proof (cases "select_virtual_host alist_headers Some snd ?r ?v")
    case None
    with best eval(1) show ?thesis by simp
  next
    case (Some vh)
    with best obtain sc d where vh: "vh \<in> set ?v" and d: "d \<in> set (snd vh)" "eval_lpm_request alist_headers Some d ?r = Some sc"
      and top: "\<forall>vh' \<in> set ?v. \<forall>d \<in> set (snd vh'). \<forall>sc'. eval_lpm_request alist_headers Some d ?r = Some sc' \<longrightarrow> sc' \<le> sc"
      unfolding Some option.case by blast
    have "ScoreSuffix 4 \<le> sc"
      using top eval(3) by simp
    with vh d have "vh = (2, [MatchSuffix ''.b.c''])"
      by (auto simp: eval less_eq_match_host_score_def)
    with Some show ?thesis by simp
  qed
qed

text \<open>C17: parsing and printing of domain patterns are inverse.  What is accepted prints back to
  the string it was read from, and a pattern without a star inside and with a non-empty fixed part
  is read back from its print.\<close>
theorem match_host_roundtrip:
  "(match_host_try_from ok s = Inr h \<longrightarrow> match_host_serialize h = s)
   \<and> ((case h of MatchWildcard \<Rightarrow> True | MatchExact p \<Rightarrow> CHR ''*'' \<notin> set p
        | MatchPrefix p \<Rightarrow> p \<noteq> [] \<and> CHR ''*'' \<notin> set p | MatchSuffix p \<Rightarrow> p \<noteq> [] \<and> CHR ''*'' \<notin> set p)
      \<and> ok (match_host_serialize h) \<longrightarrow> match_host_try_from ok (match_host_serialize h) = Inr h)"
proof (intro conjI impI)
  assume "match_host_try_from ok s = Inr h"
  then show "match_host_serialize h = s"
    by (auto simp: match_host_try_from_def strip_prefix_Some strip_suffix_char_Some split: if_splits option.splits)
next
  have no_star: "filter (\<lambda>c. c = CHR ''*'') p = []" if "CHR ''*'' \<notin> set p" for p
    using that by (auto simp: filter_empty_conv)
  assume wf: "(case h of MatchWildcard \<Rightarrow> True | MatchExact p \<Rightarrow> CHR ''*'' \<notin> set p
        | MatchPrefix p \<Rightarrow> p \<noteq> [] \<and> CHR ''*'' \<notin> set p | MatchSuffix p \<Rightarrow> p \<noteq> [] \<and> CHR ''*'' \<notin> set p)
      \<and> ok (match_host_serialize h)"
  show "match_host_try_from ok (match_host_serialize h) = Inr h"
  proof (cases h)
    case (MatchExact p)
    with wf have "strip_prefix p ''*'' = None" "strip_suffix_char (CHR ''*'') p = None" "p \<noteq> ''*''"
      by (auto simp: strip_prefix_None strip_suffix_char_None)
    with wf MatchExact show ?thesis
      by (auto simp: match_host_try_from_def no_star)
  next
    case (MatchPrefix p)
    with wf have "strip_prefix (p @ ''*'') ''*'' = None"
      by (cases p) (auto simp: strip_prefix_None)
    with wf MatchPrefix show ?thesis
      by (auto simp: match_host_try_from_def no_star)
  next
    case (MatchSuffix p)
    with wf show ?thesis
      by (auto simp: match_host_try_from_def no_star strip_prefix_def)
  qed (use wf in \<open>simp add: match_host_try_from_def\<close>)
qed

theorem match_host_roundtrip_witness:
  "match_host_serialize (MatchSuffix ''.example.com'') = ''*.example.com''
   \<and> match_host_try_from (\<lambda>_. True) ''*.example.com'' = Inr (MatchSuffix ''.example.com'')"
  using match_host_roundtrip [of "\<lambda>_. True" "''*.example.com''" "MatchSuffix ''.example.com''"] by simp

end
