(* ===== verification/Rbac.thy ===== *)
theory Rbac
  imports Header_Matching "HOL-Library.List_Lexorder" "HOL-Library.Char_ord"
begin

text \<open>
  Role based access control: the network filter (\<open>network_rbac.rs\<close>, applied by
  \<open>FilterchainType::apply_rbac\<close> in \<open>orion-lib/src/listeners/filterchain.rs\<close>) and the HTTP filter
  (\<open>http_rbac.rs\<close>).

  A \<open>BTreeMap\<close> from policy names to policies is the list of its entries in iteration order, which
  is the lexicographic order of the names; \<open>btree_map\<close> is that invariant.  Subnets are the type
  \<open>IpNet\<close> of the crate \<open>ipnet\<close>, used through \<open>contains\<close>, an argument of the definitions.
\<close>

datatype rbac_action = Allow | Deny

type_synonym 'v btree = "(str \<times> 'v) list"

definition btree_map :: "'v btree \<Rightarrow> bool" where
  "btree_map m \<longleftrightarrow> sorted_wrt (<) (map fst m)"

section \<open>Network RBAC\<close>

datatype ('n, 'r) net_permission =
    NetAny
  | DestinationIp 'n
  | DestinationPort u16
  | DestinationPortRange u16 u16
  | ServerName "'r string_matcher"

datatype 'n net_principal = PrincipalAny | DownstreamRemoteIp 'n

record ('n, 'r) net_policy =
  np_permissions :: "('n, 'r) net_permission list"
  np_principals :: "'n net_principal list"

record ('n, 'r) network_rbac =
  nr_action :: rbac_action
  nr_policies :: "('n, 'r) net_policy btree"

record network_context =
  ctx_destination :: socket_addr
  ctx_downstream :: socket_addr
  ctx_server_name :: "str option"

definition net_permission_is_applicable ::
  "('n \<Rightarrow> ip_addr \<Rightarrow> bool) \<Rightarrow> 'r regex_find_at \<Rightarrow> ('n, 'r) net_permission \<Rightarrow> network_context \<Rightarrow> bool outcome" where
  "net_permission_is_applicable contains find_at p ctx =
     (case p of
        NetAny \<Rightarrow> Ret True
      | DestinationIp ip \<Rightarrow> Ret (contains ip (sa_ip (ctx_destination ctx)))
      | DestinationPort port \<Rightarrow> Ret (sa_port (ctx_destination ctx) = port)
      | DestinationPortRange s e \<Rightarrow> Ret (s \<le> sa_port (ctx_destination ctx) \<and> sa_port (ctx_destination ctx) < e)
      | ServerName matcher \<Rightarrow>
          (case ctx_server_name ctx of
             None \<Rightarrow> Ret False
           | Some sn \<Rightarrow> string_matches find_at matcher sn))"

definition net_principal_has_principal ::
  "('n \<Rightarrow> ip_addr \<Rightarrow> bool) \<Rightarrow> 'n net_principal \<Rightarrow> network_context \<Rightarrow> bool" where
  "net_principal_has_principal contains p ctx =
     (case p of
        PrincipalAny \<Rightarrow> True
      | DownstreamRemoteIp ip \<Rightarrow> contains ip (sa_ip (ctx_downstream ctx)))"

definition net_policy_enforce ::
  "('n \<Rightarrow> ip_addr \<Rightarrow> bool) \<Rightarrow> 'r regex_find_at \<Rightarrow> ('n, 'r) net_policy \<Rightarrow> network_context \<Rightarrow> bool outcome" where
  "net_policy_enforce contains find_at pol ctx =
     bindP (anyP (\<lambda>p. net_permission_is_applicable contains find_at p ctx) (np_permissions pol)) (\<lambda>has_permission.
     let has_principal = list_ex (\<lambda>p. net_principal_has_principal contains p ctx) (np_principals pol)
     in Ret (has_permission \<and> has_principal))"

text \<open>The decision shared by both filters: permitted or not, and the first enforced policy.\<close>
definition rbac_decide :: "rbac_action \<Rightarrow> ('p \<Rightarrow> bool outcome) \<Rightarrow> 'p btree \<Rightarrow> (bool \<times> str option) outcome" where
  "rbac_decide action enforce policies =
     bindP (findP (\<lambda>(_, p). enforce p) policies) (\<lambda>found.
     let enforced_policy = map_option fst found;
         permitted = (case action of Allow \<Rightarrow> enforced_policy \<noteq> None | Deny \<Rightarrow> enforced_policy = None)
     in Ret (permitted, enforced_policy))"

definition network_is_permitted ::
  "('n \<Rightarrow> ip_addr \<Rightarrow> bool) \<Rightarrow> 'r regex_find_at \<Rightarrow> ('n, 'r) network_rbac \<Rightarrow> network_context
     \<Rightarrow> (bool \<times> str option) outcome" where
  "network_is_permitted contains find_at rbac ctx =
     rbac_decide (nr_action rbac) (\<lambda>p. net_policy_enforce contains find_at p ctx) (nr_policies rbac)"

text \<open>\<open>FilterchainType::apply_rbac\<close>: the stream is handed on only if every filter permits.\<close>
fun apply_rbac ::
  "('n \<Rightarrow> ip_addr \<Rightarrow> bool) \<Rightarrow> 'r regex_find_at \<Rightarrow> ('n, 'r) network_rbac list
     \<Rightarrow> 's \<Rightarrow> socket_addr \<Rightarrow> socket_addr \<Rightarrow> str option \<Rightarrow> 's option outcome" where
  "apply_rbac contains find_at [] stream local_address peer_address server_name = Ret (Some stream)"
| "apply_rbac contains find_at (rbac # rbacs) stream local_address peer_address server_name =
     bindP (network_is_permitted contains find_at rbac
              \<lparr>ctx_destination = local_address, ctx_downstream = peer_address, ctx_server_name = server_name\<rparr>)
       (\<lambda>(permitted, _). if \<not> permitted then Ret None
                         else apply_rbac contains find_at rbacs stream local_address peer_address server_name)"

section \<open>HTTP RBAC\<close>

datatype 'r http_permission = HttpAny | PermissionHeader "'r header_matcher"
datatype 'r http_principal = HttpPrincipalAny | PrincipalHeader "'r header_matcher"

record 'r http_policy =
  hp_permissions :: "'r http_permission list"
  hp_principals :: "'r http_principal list"

record 'r http_rbac =
  hr_action :: rbac_action
  hr_policies :: "'r http_policy btree"

definition http_permission_is_applicable ::
  "'h header_map_ops \<Rightarrow> 'r regex_find_at \<Rightarrow> 'r http_permission \<Rightarrow> 'h request \<Rightarrow> bool outcome" where
  "http_permission_is_applicable H find_at p req =
     (case p of HttpAny \<Rightarrow> Ret True | PermissionHeader h \<Rightarrow> request_matches H find_at h req)"

definition http_principal_has_principal ::
  "'h header_map_ops \<Rightarrow> 'r regex_find_at \<Rightarrow> 'r http_principal \<Rightarrow> 'h request \<Rightarrow> bool outcome" where
  "http_principal_has_principal H find_at p req =
     (case p of HttpPrincipalAny \<Rightarrow> Ret True | PrincipalHeader h \<Rightarrow> request_matches H find_at h req)"

definition http_policy_enforce ::
  "'h header_map_ops \<Rightarrow> 'r regex_find_at \<Rightarrow> 'r http_policy \<Rightarrow> 'h request \<Rightarrow> bool outcome" where
  "http_policy_enforce H find_at pol req =
     bindP (anyP (\<lambda>p. http_permission_is_applicable H find_at p req) (hp_permissions pol)) (\<lambda>has_permission.
     bindP (anyP (\<lambda>p. http_principal_has_principal H find_at p req) (hp_principals pol)) (\<lambda>has_principal.
     Ret (has_permission \<and> has_principal)))"

definition http_is_permitted ::
  "'h header_map_ops \<Rightarrow> 'r regex_find_at \<Rightarrow> 'r http_rbac \<Rightarrow> 'h request \<Rightarrow> (bool \<times> str option) outcome" where
  "http_is_permitted H find_at rbac req =
     rbac_decide (hr_action rbac) (\<lambda>p. http_policy_enforce H find_at p req) (hr_policies rbac)"

section \<open>Reference semantics\<close>

definition net_permission_spec ::
  "('n \<Rightarrow> ip_addr \<Rightarrow> bool) \<Rightarrow> 'r regex_find_at \<Rightarrow> network_context \<Rightarrow> ('n, 'r) net_permission \<Rightarrow> bool" where
  "net_permission_spec contains find_at ctx p =
     (case p of
        NetAny \<Rightarrow> True
      | DestinationIp ip \<Rightarrow> contains ip (sa_ip (ctx_destination ctx))
      | DestinationPort port \<Rightarrow> port = sa_port (ctx_destination ctx)
      | DestinationPortRange s e \<Rightarrow> sa_port (ctx_destination ctx) \<in> {s..<e}
      | ServerName m \<Rightarrow> (\<exists>sn. ctx_server_name ctx = Some sn \<and> string_matcher_spec find_at m sn))"

definition net_policy_spec ::
  "('n \<Rightarrow> ip_addr \<Rightarrow> bool) \<Rightarrow> 'r regex_find_at \<Rightarrow> network_context \<Rightarrow> ('n, 'r) net_policy \<Rightarrow> bool" where
  "net_policy_spec contains find_at ctx pol \<longleftrightarrow>
     (\<exists>p \<in> set (np_permissions pol). net_permission_spec contains find_at ctx p) \<and>
     (\<exists>p \<in> set (np_principals pol). net_principal_has_principal contains p ctx)"

text \<open>Whether an action with a set of enforced policies permits.\<close>
definition rbac_permits :: "rbac_action \<Rightarrow> bool \<Rightarrow> bool" where
  "rbac_permits action enforced \<longleftrightarrow> (action = Allow) = enforced"

section \<open>Lemmas\<close>

lemma btree_map_find_least:
  assumes "btree_map m" "List.find (\<lambda>(_, p). P p) m = Some (k, v)"
  shows "(k, v) \<in> set m \<and> P v \<and> (\<forall>(k', v') \<in> set m. P v' \<longrightarrow> k \<le> k')"
  using assms
proof (induction m)
  case (Cons x m)
  obtain k0 v0 where x: "x = (k0, v0)" by fastforce
  show ?case
  proof (cases "P v0")
    case True
    with Cons.prems x have "k = k0" "v = v0" by auto
    moreover have "\<forall>k' \<in> fst ` set m. k0 < k'"
      using Cons.prems(1) x by (simp add: btree_map_def)
    ultimately show ?thesis
      using True x by (auto intro: less_imp_le)
  next
    case False
    with Cons x show ?thesis
      by (auto simp: btree_map_def)
  qed
qed simp

lemma rbac_decide_spec:
  assumes "\<And>k p. (k, p) \<in> set policies \<Longrightarrow> enforce p = Ret (spec p)" "btree_map policies"
  shows "\<exists>pol. rbac_decide action enforce policies = Ret (rbac_permits action (\<exists>(k, p) \<in> set policies. spec p), pol)
    \<and> (case pol of
         None \<Rightarrow> \<forall>(k, p) \<in> set policies. \<not> spec p
       | Some k \<Rightarrow> (\<exists>p. (k, p) \<in> set policies \<and> spec p) \<and> (\<forall>(k', p) \<in> set policies. spec p \<longrightarrow> k \<le> k'))"
proof -
  have find: "findP (\<lambda>(_, p). enforce p) policies = Ret (List.find (\<lambda>(_, p). spec p) policies)"
    using assms(1) by (intro findP_cong_Ret) auto
  show ?thesis
  proof (cases "List.find (\<lambda>(_, p). spec p) policies")
    case None
    then have "\<forall>(k, p) \<in> set policies. \<not> spec p"
      by (auto simp: find_None_iff)
    then have no: "(\<exists>(k, p) \<in> set policies. spec p) = False"
      by auto
    have "rbac_decide action enforce policies = Ret (rbac_permits action False, None)"
      by (cases action) (simp_all add: rbac_decide_def find None rbac_permits_def)
    then show ?thesis
      unfolding no using \<open>\<forall>(k, p) \<in> set policies. \<not> spec p\<close> by (intro exI [of _ None]) simp
  next
    case (Some kv)
    obtain k v where kv: "kv = (k, v)" by fastforce
    note least = btree_map_find_least [OF assms(2) Some [unfolded kv]]
    then have yes: "(\<exists>(k, p) \<in> set policies. spec p) = True"
      by auto
    have "rbac_decide action enforce policies = Ret (rbac_permits action True, Some k)"
      by (cases action) (simp_all add: rbac_decide_def find Some kv rbac_permits_def)
    with least show ?thesis
      unfolding yes by (intro exI [of _ "Some k"]) auto
  qed
qed

lemma net_permission_is_applicable_spec:
  assumes "regex_laws find_at" "pred_option is_ascii (ctx_server_name ctx)"
  shows "net_permission_is_applicable contains find_at p ctx = Ret (net_permission_spec contains find_at ctx p)"
  using assms
  by (auto simp: net_permission_is_applicable_def net_permission_spec_def string_matches_ascii
      split: net_permission.split option.split)

lemma net_policy_enforce_spec:
  assumes "regex_laws find_at" "pred_option is_ascii (ctx_server_name ctx)"
  shows "net_policy_enforce contains find_at pol ctx = Ret (net_policy_spec contains find_at ctx pol)"
  by (simp add: net_policy_enforce_def net_policy_spec_def list_ex_iff net_permission_is_applicable_spec [OF assms])

lemma network_is_permitted_fst:
  assumes "regex_laws find_at" "pred_option is_ascii (ctx_server_name ctx)" "btree_map (nr_policies rbac)"
  shows "\<exists>pol. network_is_permitted contains find_at rbac ctx
    = Ret (rbac_permits (nr_action rbac) (\<exists>(k, p) \<in> set (nr_policies rbac). net_policy_spec contains find_at ctx p), pol)"
  using rbac_decide_spec [where enforce = "\<lambda>p. net_policy_enforce contains find_at p ctx"
      and spec = "net_policy_spec contains find_at ctx" and action = "nr_action rbac",
      OF net_policy_enforce_spec [OF assms(1,2)] assms(3)]
  unfolding network_is_permitted_def by (elim exE conjE) (rule exI)

section \<open>Properties\<close>

text \<open>C9: a network RBAC filter whose policies form a map permits under \<open>Allow\<close> exactly when some
  policy has both an applicable permission and a matching principal, and under \<open>Deny\<close> exactly when
  none has; the policy it reports is the enforced one with the lexicographically least name.  It
  never panics when the server name is ASCII.\<close>
theorem network_is_permitted_correct:
  assumes "regex_laws find_at" and "pred_option is_ascii (ctx_server_name ctx)" and "btree_map (nr_policies rbac)"
  shows "\<exists>pol. network_is_permitted contains find_at rbac ctx
        = Ret (rbac_permits (nr_action rbac) (\<exists>(k, p) \<in> set (nr_policies rbac). net_policy_spec contains find_at ctx p), pol)
    \<and> (case pol of
         None \<Rightarrow> \<forall>(k, p) \<in> set (nr_policies rbac). \<not> net_policy_spec contains find_at ctx p
       | Some k \<Rightarrow> (\<exists>p. (k, p) \<in> set (nr_policies rbac) \<and> net_policy_spec contains find_at ctx p)
           \<and> (\<forall>(k', p) \<in> set (nr_policies rbac). net_policy_spec contains find_at ctx p \<longrightarrow> k \<le> k'))"
  unfolding network_is_permitted_def
  by (rule rbac_decide_spec [OF net_policy_enforce_spec [OF assms(1,2)] assms(3)])

theorem network_is_permitted_correct_witness:
  "\<exists>pol. network_is_permitted (\<lambda>(_ :: unit) _. False) (\<lambda>(_ :: unit) _ _. None)
     \<lparr>nr_action = Deny, nr_policies = [(''p'', \<lparr>np_permissions = [DestinationPort 80], np_principals = [PrincipalAny]\<rparr>)]\<rparr>
     \<lparr>ctx_destination = \<lparr>sa_ip = V4 0, sa_port = 80\<rparr>, ctx_downstream = \<lparr>sa_ip = V4 0, sa_port = 1\<rparr>, ctx_server_name = Some ''a''\<rparr>
   = Ret (False, pol)"
  using network_is_permitted_correct [of "\<lambda>(_ :: unit) _ _. None"
     "\<lparr>ctx_destination = \<lparr>sa_ip = V4 0, sa_port = 80\<rparr>, ctx_downstream = \<lparr>sa_ip = V4 0, sa_port = 1\<rparr>, ctx_server_name = Some ''a''\<rparr>"
     "\<lparr>nr_action = Deny, nr_policies = [(''p'', \<lparr>np_permissions = [DestinationPort 80], np_principals = [PrincipalAny]\<rparr>)]\<rparr>"
     "\<lambda>(_ :: unit) _. False"]
  by (auto simp: regex_laws_def btree_map_def is_ascii_def is_ascii_byte_def net_policy_spec_def net_permission_spec_def
      net_principal_has_principal_def rbac_permits_def)

text \<open>C15: \<open>apply_rbac\<close> hands the connection on exactly when every network RBAC filter of the chain
  permits its addresses and server name.\<close>
theorem apply_rbac_all_permit:
  assumes "regex_laws find_at" and "pred_option is_ascii server_name"
    and "\<forall>rbac \<in> set rbacs. btree_map (nr_policies rbac)"
  shows "apply_rbac contains find_at rbacs stream local_address peer_address server_name =
    Ret (if \<forall>rbac \<in> set rbacs. rbac_permits (nr_action rbac)
              (\<exists>(k, p) \<in> set (nr_policies rbac). net_policy_spec contains find_at
                 \<lparr>ctx_destination = local_address, ctx_downstream = peer_address, ctx_server_name = server_name\<rparr> p)
         then Some stream else None)"
  using assms(3)
proof (induction rbacs)
  case (Cons rbac rbacs)
  let ?ctx = "\<lparr>ctx_destination = local_address, ctx_downstream = peer_address, ctx_server_name = server_name\<rparr>"
  obtain pol where "network_is_permitted contains find_at rbac ?ctx
    = Ret (rbac_permits (nr_action rbac) (\<exists>(k, p) \<in> set (nr_policies rbac). net_policy_spec contains find_at ?ctx p), pol)"
    using network_is_permitted_fst [OF assms(1), of ?ctx rbac] assms(2) Cons.prems by auto
  with Cons show ?case
    by (simp cong: if_cong)
qed simp

theorem apply_rbac_all_permit_witness:
  "apply_rbac (\<lambda>(_ :: unit) _. True) (\<lambda>(_ :: unit) _ _. None)
     [\<lparr>nr_action = Allow, nr_policies = [(''p'', \<lparr>np_permissions = [NetAny], np_principals = [DownstreamRemoteIp ()]\<rparr>)]\<rparr>]
     (7 :: nat) \<lparr>sa_ip = V4 0, sa_port = 80\<rparr> \<lparr>sa_ip = V4 0, sa_port = 1\<rparr> None = Ret (Some 7)"
  using apply_rbac_all_permit [of "\<lambda>(_ :: unit) _ _. None" None
     "[\<lparr>nr_action = Allow, nr_policies = [(''p'', \<lparr>np_permissions = [NetAny], np_principals = [DownstreamRemoteIp ()]\<rparr>)]\<rparr>]"
     "\<lambda>(_ :: unit) _. True" "7 :: nat"]
  by (simp add: regex_laws_def btree_map_def net_policy_spec_def net_permission_spec_def
      net_principal_has_principal_def rbac_permits_def)

end
