(* ===== verification/Http_Connection_Manager.thy ===== *)
theory Http_Connection_Manager
  imports Route_Action Virtual_Host Rbac
begin

text \<open>
  The HTTP connection manager (\<open>orion-lib/src/listeners/http_connection_manager.rs\<close>): its HTTP filters with
  the overrides of the routes, the choice of a route, the filter phase, the action of the route and the
  header modifiers around it.

  An external processor is a service behind gRPC: its client (\<open>ext_proc.rs\<close>) enters as a record of
  operations.  The per-route filters are the ones a request sees when it starts.  The clock is an
  argument, read once per filter.
\<close>

section \<open>Filters\<close>

datatype 'h filter_decision = Continue | Reroute | DirectResponse "'h answer"

datatype ('r, 'xc) http_filter_type =
  TypeRbac "'r http_rbac" | TypeRateLimit local_rate_limit_config | TypeIgnored | TypePeerMetadata
  | TypeSetFilterState | TypeExternalProcessor 'xc

record ('r, 'xc) http_filter_config =
  hfc_name :: str
  hfc_disabled :: bool
  hfc_filter :: "('r, 'xc) http_filter_type"

datatype ('r, 'xo) filter_config_override =
  OverrideLocalRateLimit local_rate_limit_config | OverrideRbac "'r http_rbac option" | OverrideExternalProcessor 'xo

record ('r, 'xo) filter_override =
  fo_disabled :: bool
  fo_settings :: "('r, 'xo) filter_config_override option"

datatype ('r, 'x) http_filter_value =
  RateLimit local_rate_limit | RbacFilter "'r http_rbac" | ExternalProcessor 'x | Ignored | PeerMetadata | SetFilterState

record ('r, 'xc, 'x) http_filter =
  hf_name :: str
  hf_disabled :: bool
  hf_filter :: "('r, 'x) http_filter_value option"
  hf_base_config :: "('r, 'xc) http_filter_config option"

record ('h, 'xc, 'xo, 'x) ext_proc_ops =
  ext_from :: "'xc \<Rightarrow> 'x"
  ext_from_override :: "'xc \<Rightarrow> 'xo \<Rightarrow> 'x"
  ext_apply_request :: "'x \<Rightarrow> 'h versioned_request \<Rightarrow> 'h filter_decision \<times> 'h versioned_request \<times> 'x"
  ext_apply_response :: "'x \<Rightarrow> 'h answer \<Rightarrow> 'h filter_decision \<times> 'h answer \<times> 'x"

text \<open>\<open>HttpFilter::from\<close>\<close>
definition http_filter_from ::
  "('h, 'xc, 'xo, 'x) ext_proc_ops \<Rightarrow> nat \<Rightarrow> instant \<Rightarrow> ('r, 'xc) http_filter_config \<Rightarrow> ('r, 'xc, 'x) http_filter outcome" where
  "http_filter_from X num_runtimes now cfg =
     (let hcm_config = (case hfc_filter cfg of TypeExternalProcessor _ \<Rightarrow> Some cfg | _ \<Rightarrow> None);
          filter = (case hfc_filter cfg of
              TypeRateLimit r \<Rightarrow> mapP RateLimit (local_rate_limit_from num_runtimes r now)
            | TypeRbac rbac \<Rightarrow> Ret (RbacFilter rbac)
            | TypeIgnored \<Rightarrow> Ret Ignored
            | TypePeerMetadata \<Rightarrow> Ret PeerMetadata
            | TypeSetFilterState \<Rightarrow> Ret SetFilterState
            | TypeExternalProcessor ext_proc \<Rightarrow> Ret (ExternalProcessor (ext_from X ext_proc)))
      in mapP (\<lambda>f. \<lparr>hf_name = hfc_name cfg, hf_disabled = hfc_disabled cfg, hf_filter = Some f, hf_base_config = hcm_config\<rparr>) filter)"

definition from_filter_override ::
  "('h, 'xc, 'xo, 'x) ext_proc_ops \<Rightarrow> nat \<Rightarrow> instant \<Rightarrow> ('r, 'xo) filter_override \<Rightarrow> ('r, 'xc) http_filter_config option
     \<Rightarrow> ('r, 'x) http_filter_value option outcome" where
  "from_filter_override X num_runtimes now value base_config =
     (case fo_settings value of
        Some (OverrideLocalRateLimit rl) \<Rightarrow> mapP (\<lambda>l. Some (RateLimit l)) (local_rate_limit_from num_runtimes rl now)
      | Some (OverrideRbac (Some rbac)) \<Rightarrow> Ret (Some (RbacFilter rbac))
      | Some (OverrideRbac None) \<Rightarrow> Ret None
      | Some (OverrideExternalProcessor ext_proc_per_route) \<Rightarrow>
          Ret (case base_config of
              Some cfg \<Rightarrow>
                (case hfc_filter cfg of
                   TypeExternalProcessor base \<Rightarrow> Some (ExternalProcessor (ext_from_override X base ext_proc_per_route))
                 | _ \<Rightarrow> None)
            | None \<Rightarrow> None)
      | None \<Rightarrow> Ret None)"

definition apply_authorization_rules ::
  "'h header_map_ops \<Rightarrow> 'r regex_find_at \<Rightarrow> 'r http_rbac \<Rightarrow> 'h versioned_request \<Rightarrow> 'h filter_decision outcome" where
  "apply_authorization_rules H find_at rbac req =
     mapP (\<lambda>(permitted, enforced_policy).
       if permitted then Continue
       else DirectResponse (Synthetic (into_response H
              (forbidden (RbacAccessDenied (case enforced_policy of Some p \<Rightarrow> p | None \<Rightarrow> ''unknown'')) ''RBAC: access denied'')
              (req_version req))))
       (http_is_permitted H find_at rbac (request.truncate req))"

text \<open>\<open>LocalRateLimit::run\<close> as a filter decision.\<close>
definition rate_limit_apply ::
  "'h header_map_ops \<Rightarrow> local_rate_limit \<Rightarrow> 'h versioned_request \<Rightarrow> instant \<Rightarrow> ('h filter_decision \<times> local_rate_limit) outcome" where
  "rate_limit_apply H l req now =
     mapP (\<lambda>(d, l'). (case d of RlContinue \<Rightarrow> Continue
         | RlDirectResponse status \<Rightarrow>
             DirectResponse (Synthetic (into_response H (custom_error status RateLimited {FlagRateLimited}) (req_version req))), l'))
       (local_rate_limit_run l now)"

definition filter_apply_request ::
  "'h header_map_ops \<Rightarrow> 'r regex_find_at \<Rightarrow> ('h, 'xc, 'xo, 'x) ext_proc_ops \<Rightarrow> ('r, 'x) http_filter_value \<Rightarrow> 'h versioned_request \<Rightarrow> instant
     \<Rightarrow> ('h filter_decision \<times> 'h versioned_request \<times> ('r, 'x) http_filter_value) outcome" where
  "filter_apply_request H find_at X fv req now =
     (case fv of
        RbacFilter rbac \<Rightarrow> mapP (\<lambda>d. (d, req, fv)) (apply_authorization_rules H find_at rbac req)
      | RateLimit rl \<Rightarrow> mapP (\<lambda>(d, rl'). (d, req, RateLimit rl')) (rate_limit_apply H rl req now)
      | Ignored \<Rightarrow> Ret (Continue, req, fv)
      | PeerMetadata \<Rightarrow> Ret (Continue, req, fv)
      | SetFilterState \<Rightarrow> Ret (Continue, req, fv)
      | ExternalProcessor x \<Rightarrow> Ret (let (d, req', x') = ext_apply_request X x req in (d, req', ExternalProcessor x')))"

definition filter_apply_response ::
  "('h, 'xc, 'xo, 'x) ext_proc_ops \<Rightarrow> ('r, 'x) http_filter_value \<Rightarrow> 'h answer \<Rightarrow> 'h filter_decision \<times> 'h answer" where
  "filter_apply_response X fv resp =
     (case fv of
        ExternalProcessor x \<Rightarrow> (let (d, resp', _) = ext_apply_response X x resp in (d, resp'))
      | _ \<Rightarrow> (Continue, resp))"

section \<open>Routes\<close>

datatype 'r action =
  ActionDirectResponse direct_response_action | ActionRedirect "'r redirect_action" | ActionRoute "'r route_action"

record ('r, 'xo) route =
  route_name :: str
  route_response_modifier :: header_modifier
  route_request_modifier :: header_modifier
  route_route_match :: "'r route_match"
  typed_per_filter_config :: "(str \<times> ('r, 'xo) filter_override) list"
  route_action_of :: "'r action"

record ('r, 'xo) virtual_host =
  vh_domains :: "match_host list"
  vh_routes :: "('r, 'xo) route list"
  vh_response_modifier :: header_modifier
  vh_request_modifier :: header_modifier
  vh_retry_policy :: "'r retry_policy option"

record ('r, 'xo) route_configuration =
  most_specific_header_mutations_wins :: bool
  rc_response_modifier :: header_modifier
  rc_request_modifier :: header_modifier
  rc_virtual_hosts :: "('r, 'xo) virtual_host list"

record ('r, 'xo) cached_route =
  cr_route :: "('r, 'xo) route"
  cr_route_match :: route_match_result
  cr_vh :: "('r, 'xo) virtual_host"

text \<open>What matching a request takes from outside: regexes, the host of an authority, the query parser, the
  empty path.\<close>
record ('h, 'r) match_ops =
  mo_headers :: "'h header_map_ops"
  mo_find_at :: "'r regex_find_at"
  mo_authority_host :: "str \<Rightarrow> str option"
  mo_parse_query :: "str \<Rightarrow> (str \<times> str) list"
  mo_empty_paq :: path_and_query

text \<open>The first route of the virtual host that matches.\<close>
fun first_matching_route ::
  "('h, 'r) match_ops \<Rightarrow> 'h request \<Rightarrow> ('r, 'xo) route list \<Rightarrow> (('r, 'xo) route \<times> route_match_result) option outcome" where
  "first_matching_route M req [] = Ret None"
| "first_matching_route M req (r # rs) =
     bindP (match_request (mo_headers M) (mo_find_at M) (mo_parse_query M) (mo_empty_paq M) (route_route_match r) req)
       (\<lambda>res. if rmr_matched res then Ret (Some (r, res)) else first_matching_route M req rs)"

definition match_request_route ::
  "('h, 'r) match_ops \<Rightarrow> 'h versioned_request \<Rightarrow> ('r, 'xo) route_configuration \<Rightarrow> ('r, 'xo) cached_route option outcome" where
  "match_request_route M req rc =
     (case select_virtual_host (mo_headers M) (mo_authority_host M) vh_domains (request.truncate req) (rc_virtual_hosts rc) of
        None \<Rightarrow> Ret None
      | Some chosen_vh \<Rightarrow>
          mapP (map_option (\<lambda>(r, res). \<lparr>cr_route = r, cr_route_match = res, cr_vh = chosen_vh\<rparr>))
            (first_matching_route M (request.truncate req) (vh_routes chosen_vh)))"

section \<open>Filters per route\<close>

type_synonym ('r, 'xc, 'x) route_filters = "('r route_match \<times> ('r, 'xc, 'x) http_filter list) list"

definition effective_filter ::
  "('h, 'xc, 'xo, 'x) ext_proc_ops \<Rightarrow> nat \<Rightarrow> instant \<Rightarrow> ('r, 'xo) route \<Rightarrow> ('r, 'xc, 'x) http_filter \<Rightarrow> ('r, 'xc, 'x) http_filter outcome" where
  "effective_filter X num_runtimes now r hcm_filter =
     (case map_of (typed_per_filter_config r) (hf_name hcm_filter) of
        Some override_config \<Rightarrow>
          mapP (\<lambda>f. \<lparr>hf_name = hf_name hcm_filter, hf_disabled = fo_disabled override_config, hf_filter = f,
                     hf_base_config = hf_base_config hcm_filter\<rparr>)
            (from_filter_override X num_runtimes now override_config (hf_base_config hcm_filter))
      | None \<Rightarrow> Ret hcm_filter)"

text \<open>\<open>entry(k).or_default().push(f)\<close>\<close>
fun push_entry :: "'k \<Rightarrow> 'v \<Rightarrow> ('k \<times> 'v list) list \<Rightarrow> ('k \<times> 'v list) list" where
  "push_entry k v [] = [(k, [v])]"
| "push_entry k v ((k', vs) # m) = (if k' = k then (k', vs @ [v]) # m else (k', vs) # push_entry k v m)"

definition all_routes :: "('r, 'xo) route_configuration \<Rightarrow> ('r, 'xo) route list" where
  "all_routes rc = concat (map vh_routes (rc_virtual_hosts rc))"

definition per_route_http_filters ::
  "('h, 'xc, 'xo, 'x) ext_proc_ops \<Rightarrow> nat \<Rightarrow> instant \<Rightarrow> ('r, 'xo) route_configuration \<Rightarrow> ('r, 'xc, 'x) http_filter list
     \<Rightarrow> ('r, 'xc, 'x) route_filters outcome" where
  "per_route_http_filters X num_runtimes now rc hcm_filters =
     foldl (\<lambda>m r. foldl (\<lambda>m hcm_filter. bindP m (\<lambda>per_route.
              mapP (\<lambda>f. push_entry (route_route_match r) f per_route) (effective_filter X num_runtimes now r hcm_filter)))
            m hcm_filters)
       (Ret []) (all_routes rc)"

section \<open>The filter phase\<close>

datatype ('h, 'r, 'xo, 'x) phase_result =
  Answered "'h answer"
  | Proceed "('r, 'xo) cached_route" "'h versioned_request" "('r, 'x) http_filter_value list"

definition max_filters :: "('r, 'xc, 'x) route_filters \<Rightarrow> nat" where
  "max_filters filters = Max (insert 0 (set (map (length \<circ> snd) filters)))"

lemma max_filters_bound: "map_of filters k = Some fs \<Longrightarrow> length fs \<le> max_filters filters"
  unfolding max_filters_def by (rule Max_ge) (auto dest!: map_of_SomeD simp: image_iff intro!: bexI)

text \<open>The two nested loops of \<open>to_response\<close>: the filters are applied in order from \<open>filter_idx\<close> on; a filter that
  asks for it has the route chosen again, and the filters go on at the same index.  A filter is applied to a
  clone of its value.\<close>
function filter_phase ::
  "('h, 'r) match_ops \<Rightarrow> ('h, 'xc, 'xo, 'x) ext_proc_ops \<Rightarrow> ('r, 'xo) route_configuration \<Rightarrow> ('r, 'xc, 'x) route_filters
     \<Rightarrow> (nat \<Rightarrow> instant) \<Rightarrow> ('r, 'xo) cached_route option \<Rightarrow> 'h versioned_request \<Rightarrow> ('r, 'x) http_filter_value list \<Rightarrow> nat
     \<Rightarrow> ('h, 'r, 'xo, 'x) phase_result outcome" where
  "filter_phase M X rc filters clock None req active filter_idx =
     Ret (Answered (Synthetic (into_response (mo_headers M) (not_found RouteNotFound {NoRouteFound}) (req_version req))))"
| "filter_phase M X rc filters clock (Some cr) req active filter_idx =
     (case map_of filters (route_route_match (cr_route cr)) of
        None \<Rightarrow> Ret (Proceed cr req active)
      | Some route_filters \<Rightarrow>
          if \<not> filter_idx < length route_filters then Ret (Proceed cr req active)
          else let filter = route_filters ! filter_idx in
            if hf_disabled filter then filter_phase M X rc filters clock (Some cr) req active (filter_idx + 1)
            else case hf_filter filter of
                   None \<Rightarrow> filter_phase M X rc filters clock (Some cr) req active (filter_idx + 1)
                 | Some filter_value \<Rightarrow>
                     bindP (filter_apply_request (mo_headers M) (mo_find_at M) X filter_value req (clock filter_idx))
                       (\<lambda>(filter_res, req', filter_value').
                          case filter_res of
                            Continue \<Rightarrow> filter_phase M X rc filters clock (Some cr) req' (active @ [filter_value']) (filter_idx + 1)
                          | DirectResponse response \<Rightarrow> Ret (Answered response)
                          | Reroute \<Rightarrow>
                              bindP (match_request_route M req' rc) (\<lambda>cached_route.
                                filter_phase M X rc filters clock cached_route req' (active @ [filter_value']) (filter_idx + 1))))"
  by pat_completeness auto
termination
  by (relation "measure (\<lambda>(M, X, rc, filters, clock, cr, req, active, filter_idx). max_filters filters - filter_idx)")
    (auto dest!: max_filters_bound)

declare filter_phase.simps [simp del]

section \<open>Action and modifiers\<close>

datatype hcm_error = RedirectFailed redirect_error | RouteFailed route_error

text \<open>Where a route action sends: what the cluster manager gives for the request, and the connection.\<close>
record ('h, 'r) upstream_ops =
  up_connect :: "'r route_action \<Rightarrow> 'h versioned_request \<Rightarrow> (routing_error + (error_chain + str)) option"
  up_send :: "'r retry_policy option \<Rightarrow> nanos option \<Rightarrow> 'h versioned_request \<Rightarrow> error_chain + 'h answer"

definition run_action ::
  "'h header_map_ops \<Rightarrow> uri_ops \<Rightarrow> ('r \<Rightarrow> str \<Rightarrow> str \<Rightarrow> str option) \<Rightarrow> ('h, 'r) upstream_ops \<Rightarrow> upgrade_type list
     \<Rightarrow> ('r, 'xo) cached_route \<Rightarrow> 'h versioned_request \<Rightarrow> (hcm_error + 'h answer) outcome" where
  "run_action H U replace_all up enabled_upgrades cr req =
     (case route_action_of (cr_route cr) of
        ActionDirectResponse dr \<Rightarrow> Ret (Inr (Synthetic (direct_response H dr req)))
      | ActionRedirect rd \<Rightarrow>
          mapP (map_sum RedirectFailed Synthetic) (redirect_to_response H U replace_all rd req (cr_route_match cr))
      | ActionRoute ra \<Rightarrow>
          mapP (map_sum RouteFailed fst)
            (route_to_response H U replace_all ra (is_websocket_enabled_by_hcm enabled_upgrades) (up_connect up ra req)
              (up_send up (vh_retry_policy (cr_vh cr)) (ra_timeout ra)) req (cr_route_match cr)))"

definition modify_in_order :: "'h header_map_ops \<Rightarrow> bool \<Rightarrow> header_modifier \<Rightarrow> header_modifier \<Rightarrow> header_modifier \<Rightarrow> 'h \<Rightarrow> 'h" where
  "modify_in_order H most_specific_wins config vh route h =
     (if most_specific_wins then header_modify H route (header_modify H vh (header_modify H config h))
      else header_modify H config (header_modify H vh (header_modify H route h)))"

definition answer_map_headers :: "('h \<Rightarrow> 'h) \<Rightarrow> 'h answer \<Rightarrow> 'h answer" where
  "answer_map_headers f a =
     (case a of
        Upstream r t \<Rightarrow> Upstream (r\<lparr>resp_headers := f (resp_headers r)\<rparr>) t
      | Synthetic r \<Rightarrow> Synthetic (r\<lparr>resp_headers := f (resp_headers r)\<rparr>))"

text \<open>The filters see the response in reverse order; a direct response replaces it and ends the loop.\<close>
fun response_phase :: "('h, 'xc, 'xo, 'x) ext_proc_ops \<Rightarrow> ('r, 'x) http_filter_value list \<Rightarrow> 'h answer \<Rightarrow> 'h answer" where
  "response_phase X [] resp = resp"
| "response_phase X (f # fs) resp =
     (case filter_apply_response X f resp of
        (DirectResponse direct, _) \<Rightarrow> direct
      | (_, resp') \<Rightarrow> response_phase X fs resp')"

definition hcm_to_response ::
  "('h, 'r) match_ops \<Rightarrow> ('h, 'xc, 'xo, 'x) ext_proc_ops \<Rightarrow> uri_ops \<Rightarrow> ('r \<Rightarrow> str \<Rightarrow> str \<Rightarrow> str option) \<Rightarrow> ('h, 'r) upstream_ops
     \<Rightarrow> upgrade_type list \<Rightarrow> ('r, 'xo) route_configuration \<Rightarrow> ('r, 'xc, 'x) route_filters \<Rightarrow> (nat \<Rightarrow> instant)
     \<Rightarrow> 'h versioned_request \<Rightarrow> (hcm_error + 'h answer) outcome" where
  "hcm_to_response M X U replace_all up enabled_upgrades rc filters clock request =
     bindP (match_request_route M request rc) (\<lambda>cached_route.
     bindP (filter_phase M X rc filters clock cached_route request [] 0) (\<lambda>phase.
       case phase of
         Answered response \<Rightarrow> Ret (Inr response)
       | Proceed cr req active_filters \<Rightarrow>
           let H = mo_headers M; most = most_specific_header_mutations_wins rc;
               req = req\<lparr>req_headers := modify_in_order H most (rc_request_modifier rc) (vh_request_modifier (cr_vh cr))
                           (route_request_modifier (cr_route cr)) (req_headers req)\<rparr>
           in mapP (map_sum id (\<lambda>response.
                answer_map_headers (modify_in_order H most (rc_response_modifier rc) (vh_response_modifier (cr_vh cr))
                    (route_response_modifier (cr_route cr)))
                  (response_phase X (rev active_filters) response)))
              (run_action H U replace_all up enabled_upgrades cr req)))"

section \<open>A concrete configuration\<close>

definition example_match_ops :: "((header_name \<times> header_value) list, unit) match_ops" where
  "example_match_ops = \<lparr>mo_headers = alist_headers, mo_find_at = (\<lambda>_ _ _. None), mo_authority_host = Some,
     mo_parse_query = (\<lambda>_. []), mo_empty_paq = \<lparr>paq_path = ''/'', paq_query = None\<rparr>\<rparr>"

definition example_route :: "(unit, unit) route" where
  "example_route = \<lparr>route_name = ''r'', route_response_modifier = \<lparr>hmod_remove = [], hmod_add = []\<rparr>,
     route_request_modifier = \<lparr>hmod_remove = [], hmod_add = []\<rparr>, route_route_match = route_match_default,
     typed_per_filter_config = [], route_action_of = ActionDirectResponse \<lparr>dr_status = 200, dr_body = None\<rparr>\<rparr>"

definition example_vh :: "(unit, unit) virtual_host" where
  "example_vh = \<lparr>vh_domains = [MatchWildcard], vh_routes = [example_route],
     vh_response_modifier = \<lparr>hmod_remove = [], hmod_add = []\<rparr>, vh_request_modifier = \<lparr>hmod_remove = [], hmod_add = []\<rparr>,
     vh_retry_policy = None\<rparr>"

definition example_rc :: "(unit, unit) virtual_host list \<Rightarrow> (unit, unit) route_configuration" where
  "example_rc vhs = \<lparr>most_specific_header_mutations_wins = False, rc_response_modifier = \<lparr>hmod_remove = [], hmod_add = []\<rparr>,
     rc_request_modifier = \<lparr>hmod_remove = [], hmod_add = []\<rparr>, rc_virtual_hosts = vhs\<rparr>"

definition example_ext_proc :: "((header_name \<times> header_value) list, unit, unit, unit) ext_proc_ops" where
  "example_ext_proc = \<lparr>ext_from = id, ext_from_override = (\<lambda>x _. x), ext_apply_request = (\<lambda>x r. (Continue, r, x)),
     ext_apply_response = (\<lambda>x r. (Continue, r, x))\<rparr>"

definition example_filter :: "(unit, unit) http_filter_value \<Rightarrow> (unit, unit, unit) http_filter" where
  "example_filter v = \<lparr>hf_name = ''f'', hf_disabled = False, hf_filter = Some v, hf_base_config = None\<rparr>"

lemma example_match:
  "match_request_route example_match_ops example_request (example_rc [example_vh]) =
     Ret (Some \<lparr>cr_route = example_route, cr_route_match = \<lparr>path_match = Some \<lparr>pmr_inner = Some 0\<rparr>,
        headers_matched = True, query_parameters_matched = True\<rparr>, cr_vh = example_vh\<rparr>)"
  by code_simp

section \<open>The routes' filters\<close>

lemma map_of_push_entry:
  "map_of (push_entry k v m) k' =
     (if k' = k then Some ((case map_of m k of Some vs \<Rightarrow> vs | None \<Rightarrow> []) @ [v]) else map_of m k')"
  by (induction m) auto

lemma per_route_inner:
  assumes "\<forall>f \<in> set fs. effective_filter X n now r f = Ret (eff f)"
  shows "\<exists>m'. foldl (\<lambda>m f. bindP m (\<lambda>per_route. mapP (\<lambda>e. push_entry (route_route_match r) e per_route) (effective_filter X n now r f)))
      (Ret m) fs = Ret m' \<and>
    (\<forall>k. map_of m' k = (if k = route_route_match r \<and> fs \<noteq> []
        then Some ((case map_of m k of Some vs \<Rightarrow> vs | None \<Rightarrow> []) @ map eff fs) else map_of m k))"
  using assms
proof (induction fs arbitrary: m)
  case (Cons f fs)
  obtain m' where "foldl (\<lambda>m f. bindP m (\<lambda>per_route. mapP (\<lambda>e. push_entry (route_route_match r) e per_route) (effective_filter X n now r f)))
      (Ret (push_entry (route_route_match r) (eff f) m)) fs = Ret m' \<and>
    (\<forall>k. map_of m' k = (if k = route_route_match r \<and> fs \<noteq> []
        then Some ((case map_of (push_entry (route_route_match r) (eff f) m) k of Some vs \<Rightarrow> vs | None \<Rightarrow> []) @ map eff fs)
        else map_of (push_entry (route_route_match r) (eff f) m) k))"
    using Cons.IH [of "push_entry (route_route_match r) (eff f) m"] Cons.prems by auto
  then show ?case using Cons.prems by (intro exI [of _ m']) (auto simp: map_of_push_entry)
qed simp

lemma per_route_outer:
  assumes "\<forall>r \<in> set rs. \<forall>f \<in> set fs. effective_filter X n now r f = Ret (eff r f)" and "fs \<noteq> []"
  shows "\<exists>m'. foldl (\<lambda>m r. foldl (\<lambda>m f. bindP m (\<lambda>per_route.
        mapP (\<lambda>e. push_entry (route_route_match r) e per_route) (effective_filter X n now r f))) m fs) (Ret m) rs = Ret m' \<and>
    (\<forall>k. map_of m' k = (if \<exists>r \<in> set rs. route_route_match r = k
        then Some ((case map_of m k of Some vs \<Rightarrow> vs | None \<Rightarrow> []) @ concat (map (\<lambda>r. map (eff r) fs) (filter (\<lambda>r. route_route_match r = k) rs)))
        else map_of m k))"
  using assms(1)
proof (induction rs arbitrary: m)
  case (Cons r rs)
  obtain m1 where m1: "foldl (\<lambda>m f. bindP m (\<lambda>per_route. mapP (\<lambda>e. push_entry (route_route_match r) e per_route) (effective_filter X n now r f)))
      (Ret m) fs = Ret m1"
    "\<forall>k. map_of m1 k = (if k = route_route_match r
        then Some ((case map_of m k of Some vs \<Rightarrow> vs | None \<Rightarrow> []) @ map (eff r) fs) else map_of m k)"
    using per_route_inner [of fs X n now r "eff r" m] Cons.prems assms(2) by auto
  obtain m' where "foldl (\<lambda>m r. foldl (\<lambda>m f. bindP m (\<lambda>per_route.
        mapP (\<lambda>e. push_entry (route_route_match r) e per_route) (effective_filter X n now r f))) m fs) (Ret m1) rs = Ret m' \<and>
    (\<forall>k. map_of m' k = (if \<exists>r \<in> set rs. route_route_match r = k
        then Some ((case map_of m1 k of Some vs \<Rightarrow> vs | None \<Rightarrow> []) @ concat (map (\<lambda>r. map (eff r) fs) (filter (\<lambda>r. route_route_match r = k) rs)))
        else map_of m1 k))"
    using Cons.IH [of m1] Cons.prems by auto
  then show ?case using m1 by (intro exI [of _ m']) auto
qed simp

text \<open>C28: The filters a route's requests go through are those of every route with the same match, of all
  virtual hosts, one after another: the filters of two routes that match alike (for example the prefix
  \<open>/\<close> in two virtual hosts) are run for the requests of both.\<close>
theorem per_route_filters_shared:
  assumes "\<forall>r \<in> set (all_routes rc). \<forall>f \<in> set hcm_filters. effective_filter X num_runtimes now r f = Ret (eff r f)"
    and "hcm_filters \<noteq> []" and "r \<in> set (all_routes rc)"
  shows "\<exists>m. per_route_http_filters X num_runtimes now rc hcm_filters = Ret m \<and>
    map_of m (route_route_match r) =
      Some (concat (map (\<lambda>r'. map (eff r') hcm_filters) (filter (\<lambda>r'. route_route_match r' = route_route_match r) (all_routes rc))))"
  using per_route_outer [OF assms(1,2), of "[]"] assms(3) by (auto simp: per_route_http_filters_def)

theorem per_route_filters_shared_witness:
  "\<exists>m. per_route_http_filters example_ext_proc 1 0 (example_rc [example_vh, example_vh]) [example_filter Ignored] = Ret m \<and>
    map_of m (route_route_match example_route) = Some [example_filter Ignored, example_filter Ignored]"
  using per_route_filters_shared [of "example_rc [example_vh, example_vh]" "[example_filter Ignored]" example_ext_proc 1 0
      "\<lambda>_ f. f" example_route]
  by (simp add: all_routes_def example_rc_def example_vh_def effective_filter_def example_route_def)

section \<open>Access control\<close>

definition is_ext_proc :: "('r, 'xc, 'x) http_filter \<Rightarrow> bool" where
  "is_ext_proc f \<longleftrightarrow> (\<exists>x. hf_filter f = Some (ExternalProcessor x))"

text \<open>A filter that is not an external processor leaves the request alone and never asks for another route.\<close>
lemma filter_apply_request_plain:
  assumes "filter_apply_request H find_at X fv req now = Ret (d, req', fv')" "\<nexists>x. fv = ExternalProcessor x"
  shows "req' = req \<and> d \<noteq> Reroute"
proof (cases fv)
  case (RateLimit l)
  then obtain rd l' where "local_rate_limit_run l now = Ret (rd, l')"
    using assms(1) by (auto simp: filter_apply_request_def rate_limit_apply_def panic_simps)
  then show ?thesis using assms(1) RateLimit
    by (cases rd) (auto simp: filter_apply_request_def rate_limit_apply_def)
qed (use assms in \<open>auto simp: filter_apply_request_def apply_authorization_rules_def panic_simps split: prod.splits if_splits\<close>)

lemma rbac_continue:
  assumes "filter_apply_request H find_at X (RbacFilter rbac) req now = Ret (Continue, req', fv')"
  shows "\<exists>p. http_is_permitted H find_at rbac (request.truncate req) = Ret (True, p)"
  using assms by (auto simp: filter_apply_request_def apply_authorization_rules_def panic_simps split: prod.splits if_splits)

lemma filter_phase_skip:
  assumes "map_of filters (route_route_match (cr_route cr)) = Some fs" "idx < length fs"
    and "hf_disabled (fs ! idx) \<or> hf_filter (fs ! idx) = None"
  shows "filter_phase M X rc filters clock (Some cr) req active idx = filter_phase M X rc filters clock (Some cr) req active (Suc idx)"
  by (subst filter_phase.simps) (use assms in \<open>auto simp: Let_def\<close>)

lemma filter_phase_apply:
  assumes "map_of filters (route_route_match (cr_route cr)) = Some fs" "idx < length fs"
    and "\<not> hf_disabled (fs ! idx)" "hf_filter (fs ! idx) = Some fv"
  shows "filter_phase M X rc filters clock (Some cr) req active idx =
    bindP (filter_apply_request (mo_headers M) (mo_find_at M) X fv req (clock idx)) (\<lambda>(filter_res, req', fv').
      case filter_res of
        Continue \<Rightarrow> filter_phase M X rc filters clock (Some cr) req' (active @ [fv']) (Suc idx)
      | DirectResponse response \<Rightarrow> Ret (Answered response)
      | Reroute \<Rightarrow> bindP (match_request_route M req' rc) (\<lambda>cached_route.
          filter_phase M X rc filters clock cached_route req' (active @ [fv']) (Suc idx)))"
  unfolding Suc_eq_plus1 by (subst filter_phase.simps) (use assms in \<open>simp add: Let_def\<close>)

lemma filter_phase_rbac:
  assumes "filter_phase M X rc filters clock (Some cr) req active idx = Ret (Proceed cr' req' active')"
    and "map_of filters (route_route_match (cr_route cr)) = Some fs" and "\<forall>f \<in> set fs. \<not> is_ext_proc f"
  shows "\<forall>i \<in> {idx..<length fs}. \<forall>rbac. \<not> hf_disabled (fs ! i) \<and> hf_filter (fs ! i) = Some (RbacFilter rbac) \<longrightarrow>
    (\<exists>p. http_is_permitted (mo_headers M) (mo_find_at M) rbac (request.truncate req) = Ret (True, p))"
  using assms(1)
proof (induction "length fs - idx" arbitrary: idx active)
  case (Suc k)
  then have idx: "idx < length fs" by simp
  have split: "{idx..<length fs} = insert idx {Suc idx..<length fs}" using idx by auto
  have IH: "filter_phase M X rc filters clock (Some cr) req act (Suc idx) = Ret (Proceed cr' req' active') \<Longrightarrow>
      \<forall>i \<in> {Suc idx..<length fs}. \<forall>rbac. \<not> hf_disabled (fs ! i) \<and> hf_filter (fs ! i) = Some (RbacFilter rbac) \<longrightarrow>
        (\<exists>p. http_is_permitted (mo_headers M) (mo_find_at M) rbac (request.truncate req) = Ret (True, p))" for act
    using Suc.hyps(1) [of "Suc idx" act] Suc.hyps(2) by simp
  show ?case
  proof (cases "hf_disabled (fs ! idx) \<or> hf_filter (fs ! idx) = None")
    case True
    then have "filter_phase M X rc filters clock (Some cr) req active (Suc idx) = Ret (Proceed cr' req' active')"
      using Suc.prems filter_phase_skip [OF assms(2) idx True, of M X rc clock req active] by simp
    then show ?thesis using IH True unfolding split by auto
  next
    case False
    then obtain fv where fv: "hf_filter (fs ! idx) = Some fv" "\<not> hf_disabled (fs ! idx)" by auto
    have plain: "\<nexists>x. fv = ExternalProcessor x" using assms(3) idx fv(1) nth_mem unfolding is_ext_proc_def by blast
    obtain d r2 fv2 where step: "filter_apply_request (mo_headers M) (mo_find_at M) X fv req (clock idx) = Ret (d, r2, fv2)"
      using Suc.prems filter_phase_apply [OF assms(2) idx fv(2,1), of M X rc clock req active] by (auto simp: panic_simps)
    have r2: "r2 = req" "d \<noteq> Reroute" using filter_apply_request_plain [OF step plain] by auto
    have d: "d = Continue"
      "filter_phase M X rc filters clock (Some cr) req (active @ [fv2]) (Suc idx) = Ret (Proceed cr' req' active')"
      using Suc.prems filter_phase_apply [OF assms(2) idx fv(2,1), of M X rc clock req active] step r2
      by (cases d; simp)+
    have "\<exists>p. http_is_permitted (mo_headers M) (mo_find_at M) rbac (request.truncate req) = Ret (True, p)"
      if "fv = RbacFilter rbac" for rbac
      using rbac_continue step d(1) that by blast
    then show ?thesis using IH [OF d(2)] fv unfolding split by auto
  qed
qed simp

text \<open>C27: A request that an enabled RBAC filter of its route denies never reaches the route's action: whatever
  the upstream would do, the answer is the same (with filters other than external processors, which
  may change the request and its route).\<close>
theorem denied_request_not_forwarded:
  assumes "match_request_route M req rc = Ret (Some cr)"
    and "map_of filters (route_route_match (cr_route cr)) = Some fs" and "\<forall>f \<in> set fs. \<not> is_ext_proc f"
    and "f \<in> set fs" "\<not> hf_disabled f" "hf_filter f = Some (RbacFilter rbac)"
    and "http_is_permitted (mo_headers M) (mo_find_at M) rbac (request.truncate req) = Ret (False, policy)"
  shows "hcm_to_response M X U replace_all up upgrades rc filters clock req =
    hcm_to_response M X U replace_all' up' upgrades' rc filters clock req"
proof -
  obtain i where i: "i < length fs" "fs ! i = f" using assms(4) by (auto simp: in_set_conv_nth)
  have "filter_phase M X rc filters clock (Some cr) req [] 0 \<noteq> Ret (Proceed cr' req' active')" for cr' req' active'
    using filter_phase_rbac [of M X rc filters clock cr req "[]" 0 cr' req' active' fs] assms(2,3,5,6,7) i by force
  then show ?thesis using assms(1)
    by (cases "filter_phase M X rc filters clock (Some cr) req [] 0")
      (auto simp: hcm_to_response_def split: phase_result.splits)
qed

theorem denied_request_not_forwarded_witness:
  "\<exists>cr. match_request_route example_match_ops example_request (example_rc [example_vh]) = Ret (Some cr) \<and>
    (\<forall>up up'. hcm_to_response example_match_ops example_ext_proc example_uri_ops (\<lambda>_ _ _. None) up [] (example_rc [example_vh])
        [(route_route_match (cr_route cr), [example_filter (RbacFilter \<lparr>hr_action = Allow, hr_policies = []\<rparr>)])] (\<lambda>_. 0) example_request =
      hcm_to_response example_match_ops example_ext_proc example_uri_ops (\<lambda>_ _ _. None) up' [] (example_rc [example_vh])
        [(route_route_match (cr_route cr), [example_filter (RbacFilter \<lparr>hr_action = Allow, hr_policies = []\<rparr>)])] (\<lambda>_. 0) example_request)"
proof -
  let ?rbac = "\<lparr>hr_action = Allow, hr_policies = []\<rparr> :: unit http_rbac"
  obtain cr where cr: "match_request_route example_match_ops example_request (example_rc [example_vh]) = Ret (Some cr)"
    using example_match by blast
  have denied: "http_is_permitted (mo_headers example_match_ops) (mo_find_at example_match_ops) ?rbac (request.truncate example_request) = Ret (False, None)"
    by (simp add: http_is_permitted_def rbac_decide_def)
  have "hcm_to_response example_match_ops example_ext_proc example_uri_ops (\<lambda>_ _ _. None) up [] (example_rc [example_vh])
        [(route_route_match (cr_route cr), [example_filter (RbacFilter ?rbac)])] (\<lambda>_. 0) example_request =
      hcm_to_response example_match_ops example_ext_proc example_uri_ops (\<lambda>_ _ _. None) up' [] (example_rc [example_vh])
        [(route_route_match (cr_route cr), [example_filter (RbacFilter ?rbac)])] (\<lambda>_. 0) example_request" for up up'
    by (rule denied_request_not_forwarded [OF cr, where fs = "[example_filter (RbacFilter ?rbac)]"
        and f = "example_filter (RbacFilter ?rbac)" and rbac = ?rbac and policy = None])
      (simp_all add: denied example_filter_def is_ext_proc_def)
  then show ?thesis using cr by blast
qed

section \<open>Rate limiting\<close>

text \<open>The filter phase passes filter values.  Over several requests the question is which bucket they take their tokens from,
  so here the buckets lie in a store and a limiter refers to its bucket by address.  \<open>TokenBucket::clone\<close> makes a new bucket
  with the instant of the old one; the limiter is cloned with its bucket.\<close>
type_synonym bucket_store = "token_bucket list"

record stored_limiter =
  sl_status :: u16
  sl_bucket :: "nat option"

definition token_bucket_clone :: "bucket_store \<Rightarrow> nat \<Rightarrow> nat \<times> bucket_store" where
  "token_bucket_clone store addr =
     (length store,
      store @ [\<lparr>tb_time = tb_time (store ! addr), time_per_token = time_per_token (store ! addr),
                time_per_bucket = time_per_bucket (store ! addr), tb_max_tokens = tb_max_tokens (store ! addr)\<rparr>])"

definition limiter_clone :: "bucket_store \<Rightarrow> stored_limiter \<Rightarrow> stored_limiter \<times> bucket_store" where
  "limiter_clone store l =
     (case sl_bucket l of
        None \<Rightarrow> (l, store)
      | Some addr \<Rightarrow> (case token_bucket_clone store addr of (addr', store') \<Rightarrow> (l\<lparr>sl_bucket := Some addr'\<rparr>, store')))"

definition limiter_run :: "stored_limiter \<Rightarrow> bucket_store \<Rightarrow> instant \<Rightarrow> (rate_limit_decision \<times> bucket_store) outcome" where
  "limiter_run l store now =
     (case sl_bucket l of
        None \<Rightarrow> Ret (RlContinue, store)
      | Some addr \<Rightarrow>
          bindP (consume (store ! addr) 1 now) (\<lambda>(ok, tb').
            Ret (if ok then RlContinue else RlDirectResponse (sl_status l), store[addr := tb'])))"

text \<open>A request in the filter loop: the filter is cloned, the clone is applied.\<close>
definition limited_request :: "stored_limiter \<Rightarrow> bucket_store \<Rightarrow> instant \<Rightarrow> (rate_limit_decision \<times> bucket_store) outcome" where
  "limited_request l store now = (case limiter_clone store l of (l', store') \<Rightarrow> limiter_run l' store' now)"

fun limited_requests ::
  "stored_limiter \<Rightarrow> bucket_store \<Rightarrow> instant list \<Rightarrow> (rate_limit_decision list \<times> bucket_store) outcome" where
  "limited_requests l store [] = Ret ([], store)"
| "limited_requests l store (now # nows) =
     bindP (limited_request l store now) (\<lambda>(d, store').
     bindP (limited_requests l store' nows) (\<lambda>(ds, store''). Ret (d # ds, store'')))"

lemma token_bucket_clone_copy: "token_bucket_clone store addr = (length store, store @ [store ! addr])"
  by (cases "store ! addr") (simp add: token_bucket_clone_def)

lemma limited_request_shared:
  assumes "addr < length store" "consume (store ! addr) 1 now = Ret (ok, tb')"
  shows "limited_request \<lparr>sl_status = st, sl_bucket = Some addr\<rparr> store now =
    Ret (if ok then RlContinue else RlDirectResponse st, store @ [tb'])"
  using assms by (simp add: limited_request_def limiter_clone_def token_bucket_clone_copy limiter_run_def)

lemma limited_requests_granted:
  assumes "addr < length store" "\<forall>now \<in> set nows. \<exists>tb'. consume (store ! addr) 1 now = Ret (True, tb')"
  shows "\<exists>store'. limited_requests \<lparr>sl_status = st, sl_bucket = Some addr\<rparr> store nows = Ret (replicate (length nows) RlContinue, store') \<and>
    store' ! addr = store ! addr"
  using assms
proof (induction nows arbitrary: store)
  case (Cons now nows)
  then obtain tb' where tb': "consume (store ! addr) 1 now = Ret (True, tb')" by auto
  have "(store @ [tb']) ! addr = store ! addr" using Cons.prems(1) by (simp add: nth_append)
  with Cons.IH [of "store @ [tb']"] Cons.prems obtain store' where
    "limited_requests \<lparr>sl_status = st, sl_bucket = Some addr\<rparr> (store @ [tb']) nows = Ret (replicate (length nows) RlContinue, store')"
    "store' ! addr = store ! addr" by auto
  then show ?case using limited_request_shared [OF Cons.prems(1) tb', of st] by simp
qed simp

lemma built_limiter_grants:
  assumes "local_rate_limit_from num_runtimes cfg start = Ret l" "lrl_cfg_token_bucket cfg = Some tb"
    and "cfg_max_tokens tb \<noteq> 0" "cfg_fill_interval tb \<le> duration_max"
    and "lrl_token_bucket l = Some b" "instant_min \<le> start - 2 * int (time_per_bucket b)"
    and "start \<le> now" "now + int (time_per_token b) \<le> instant_max"
  shows "\<exists>b'. consume b 1 now = Ret (True, b')"
proof -
  define fill where "fill = (case duration_checked_mul (cfg_fill_interval tb) (word_of_nat num_runtimes) of
      Some v \<Rightarrow> v | None \<Rightarrow> cfg_fill_interval tb)"
  have fill: "fill \<le> duration_max" using assms(4) by (auto simp: fill_def duration_checked_mul_def)
  have "token_bucket_new (cfg_max_tokens tb) (cfg_tokens_per_fill tb) fill start = Ret b"
    using assms(1,2,5) by (auto simp: local_rate_limit_from_def Let_def fill_def panic_simps)
  then show ?thesis
    using fresh_bucket_grants [of _ _ fill start b now] assms(3,6,7,8) fill by blast
qed

lemma filter_phase_limiter:
  assumes "map_of filters (route_route_match (cr_route cr)) =
      Some [\<lparr>hf_name = name, hf_disabled = False, hf_filter = Some (RateLimit l), hf_base_config = None\<rparr>]"
    and "lrl_token_bucket l = Some b" "consume b 1 (clock 0) = Ret (True, b')"
  shows "\<exists>active. filter_phase M X rc filters clock (Some cr) req [] 0 = Ret (Proceed cr req active)"
proof -
  have "filter_apply_request (mo_headers M) (mo_find_at M) X (RateLimit l) req (clock 0) =
      Ret (Continue, req, RateLimit (l\<lparr>lrl_token_bucket := Some b'\<rparr>))"
    using assms(2,3) by (simp add: filter_apply_request_def rate_limit_apply_def local_rate_limit_run_def)
  then show ?thesis using assms(1)
    by (subst filter_phase.simps, simp add: Let_def, subst filter_phase.simps, simp)
qed

text \<open>C29: The local rate limiter of a route never limits.  Take a limiter built from a configuration with at least one token, and any
  number of requests at any times after that.  Each request takes its token from a clone of the bucket, so every one of
  them continues, the shared bucket is as it was after all of them, and the filter phase of a route with only this
  filter lets the next request pass as well.\<close>
theorem rate_limiter_never_limits:
  assumes "local_rate_limit_from num_runtimes cfg start = Ret l" and "lrl_cfg_token_bucket cfg = Some tb"
    and "cfg_max_tokens tb \<noteq> 0" "cfg_fill_interval tb \<le> duration_max"
    and "lrl_token_bucket l = Some b" "instant_min \<le> start - 2 * int (time_per_bucket b)"
    and "addr < length store" "store ! addr = b"
    and "\<forall>now \<in> set (clock 0 # nows). start \<le> now \<and> now + int (time_per_token b) \<le> instant_max"
    and "map_of filters (route_route_match (cr_route cr)) =
      Some [\<lparr>hf_name = name, hf_disabled = False, hf_filter = Some (RateLimit l), hf_base_config = None\<rparr>]"
  shows "\<exists>store' active. limited_requests \<lparr>sl_status = lrl_status l, sl_bucket = Some addr\<rparr> store nows =
      Ret (replicate (length nows) RlContinue, store') \<and>
    store' ! addr = b \<and> filter_phase M X rc filters clock (Some cr) req [] 0 = Ret (Proceed cr req active)"
proof -
  have grants: "\<exists>b'. consume b 1 now = Ret (True, b')" if "now \<in> set (clock 0 # nows)" for now
    using built_limiter_grants [OF assms(1-6), of now] assms(9) that by blast
  then obtain b' where "consume b 1 (clock 0) = Ret (True, b')" by auto
  with filter_phase_limiter [OF assms(10,5), of clock b' M X rc req]
  obtain active where "filter_phase M X rc filters clock (Some cr) req [] 0 = Ret (Proceed cr req active)" by blast
  moreover obtain store' where "limited_requests \<lparr>sl_status = lrl_status l, sl_bucket = Some addr\<rparr> store nows =
      Ret (replicate (length nows) RlContinue, store')" "store' ! addr = store ! addr"
    using limited_requests_granted [OF assms(7), of nows "lrl_status l"] grants assms(8) by auto
  ultimately show ?thesis using assms(8) by blast
qed

text \<open>With a bucket of one token, three requests at the same instant continue; taken from the shared bucket itself,
  the second token is refused.\<close>
theorem rate_limiter_never_limits_witness:
  "\<exists>l b b'. local_rate_limit_from 1 \<lparr>lrl_cfg_status = 429, lrl_cfg_token_bucket =
        Some \<lparr>cfg_max_tokens = 1, cfg_tokens_per_fill = 1, cfg_fill_interval = 1000\<rparr>\<rparr> 0 = Ret l \<and> lrl_token_bucket l = Some b \<and>
    (\<exists>store'. limited_requests \<lparr>sl_status = 429, sl_bucket = Some 0\<rparr> [b] [5, 5, 5] = Ret ([RlContinue, RlContinue, RlContinue], store')) \<and>
    consume b 1 5 = Ret (True, b') \<and> consume b' 1 5 = Ret (False, b')"
proof -
  let ?b = "\<lparr>tb_time = - 2000, time_per_token = 1000, time_per_bucket = 1000, tb_max_tokens = 1\<rparr>"
  let ?tb = "\<lparr>cfg_max_tokens = 1, cfg_tokens_per_fill = 1, cfg_fill_interval = 1000\<rparr>"
  let ?l = "\<lparr>lrl_status = 429, lrl_token_bucket = Some ?b\<rparr>"
  have l: "local_rate_limit_from 1 \<lparr>lrl_cfg_status = 429, lrl_cfg_token_bucket = Some ?tb\<rparr> 0 = Ret ?l"
    by (simp add: local_rate_limit_from_def Let_def token_bucket_new_def duration_mul_def duration_checked_mul_def
        duration_div_def duration_max_def sub_or_same_def instant_checked_sub_def instant_min_def)
  have "\<exists>store'. limited_requests \<lparr>sl_status = 429, sl_bucket = Some 0\<rparr> [?b] [5, 5, 5] = Ret ([RlContinue, RlContinue, RlContinue], store')"
    using rate_limiter_never_limits [OF l, of ?tb ?b 0 "[?b]" "\<lambda>_. 5" "[5, 5, 5]"
        "[(route_match_default, [example_filter (RateLimit ?l)])]"
        "\<lparr>cr_route = example_route, cr_route_match = \<lparr>path_match = None, headers_matched = True, query_parameters_matched = True\<rparr>,
          cr_vh = example_vh\<rparr>" "''f''" example_match_ops example_ext_proc "example_rc [example_vh]" undefined]
    by (auto simp: duration_max_def instant_min_def instant_max_def example_route_def example_filter_def numeral_3_eq_3
        simp del: limited_requests.simps)
  moreover have "consume ?b 1 5 = Ret (True, ?b\<lparr>tb_time := 5\<rparr>)" "consume (?b\<lparr>tb_time := 5\<rparr>) 1 5 = Ret (False, ?b\<lparr>tb_time := 5\<rparr>)"
    by (simp_all add: consume_def consume_attempt_def duration_mul_def duration_checked_mul_def duration_max_def sub_or_same_def
        instant_checked_sub_def instant_add_def instant_min_def instant_max_def)
  ultimately show ?thesis using l by fastforce
qed

end
