(* ===== verification/F64.thy ===== *)
theory F64
  imports Orion_Prelude Complex_Main
begin

text \<open>
  The \<open>f64\<close> arithmetic the balancers use.

  The operations are a parameter of the definitions, on values taken up to \<open>==\<close>: 0.0 and -0.0 are
  one value (the definitions never divide by a zero whose sign could show).  \<open>f64_laws\<close> states what IEEE 754 double
  precision gives of these and the proofs need: integers below \<open>2\<^sup>3\<^sup>2\<close> are exact, and so are their sums,
  differences, products and exact quotients in that range; scaling by a positive integer and dividing by one keeps a
  value non-negative; adding a non-negative value does not decrease; a comparison with a NaN is false.  Exact rational
  arithmetic (\<open>rat_f64\<close>) satisfies the laws and is what the examples compute with.
\<close>

record 'f f64_ops =
  f_from_u32 :: "u32 \<Rightarrow> 'f"
  f_one_point_four :: 'f
  f_add :: "'f \<Rightarrow> 'f \<Rightarrow> 'f"
  f_sub :: "'f \<Rightarrow> 'f \<Rightarrow> 'f"
  f_mul :: "'f \<Rightarrow> 'f \<Rightarrow> 'f"
  f_div :: "'f \<Rightarrow> 'f \<Rightarrow> 'f"
  f_le :: "'f \<Rightarrow> 'f \<Rightarrow> bool"
  f_lt :: "'f \<Rightarrow> 'f \<Rightarrow> bool"
  f_min :: "'f \<Rightarrow> 'f \<Rightarrow> 'f"
  f_max :: "'f \<Rightarrow> 'f \<Rightarrow> 'f"
  f_ceil :: "'f \<Rightarrow> 'f"
  f_round_as_u32 :: "'f \<Rightarrow> u32"

abbreviation f_zero :: "('f, 'a) f64_ops_scheme \<Rightarrow> 'f" where
  "f_zero F \<equiv> f_from_u32 F 0"

text \<open>\<open>Iterator::sum\<close> and \<open>Iterator::reduce\<close>.\<close>
definition f_sum :: "('f, 'a) f64_ops_scheme \<Rightarrow> 'f list \<Rightarrow> 'f" where
  "f_sum F xs = foldl (f_add F) (f_zero F) xs"

fun iter_reduce :: "('a \<Rightarrow> 'a \<Rightarrow> 'a) \<Rightarrow> 'a list \<Rightarrow> 'a option" where
  "iter_reduce f [] = None"
| "iter_reduce f (x # xs) = Some (foldl f x xs)"

definition f64_laws :: "('f, 'a) f64_ops_scheme \<Rightarrow> bool" where
  "f64_laws F \<longleftrightarrow>
     (\<forall>a b. f_le F (f_from_u32 F a) (f_from_u32 F b) \<longleftrightarrow> a \<le> b) \<and>
     (\<forall>x y z. f_le F x y \<longrightarrow> f_le F y z \<longrightarrow> f_le F x z) \<and>
     (\<forall>a b. unat a + unat b \<le> u32_max \<longrightarrow> f_add F (f_from_u32 F a) (f_from_u32 F b) = f_from_u32 F (a + b)) \<and>
     (\<forall>a b. b \<le> a \<longrightarrow> f_sub F (f_from_u32 F a) (f_from_u32 F b) = f_from_u32 F (a - b)) \<and>
     (\<forall>a b. unat a * unat b \<le> u32_max \<longrightarrow> f_mul F (f_from_u32 F a) (f_from_u32 F b) = f_from_u32 F (a * b)) \<and>
     (\<forall>a b. b \<noteq> 0 \<longrightarrow> unat a * unat b \<le> u32_max \<longrightarrow> f_div F (f_from_u32 F (a * b)) (f_from_u32 F b) = f_from_u32 F a) \<and>
     (\<forall>a. f_round_as_u32 F (f_from_u32 F a) = a) \<and>
     (\<forall>x y. f_le F x y \<longrightarrow> f_min F x y = x) \<and>
     (\<forall>x y. f_le F y x \<longrightarrow> f_min F x y = y) \<and>
     (\<forall>x y z. f_le F z x \<longrightarrow> f_le F z y \<longrightarrow> f_le F z (f_min F x y)) \<and>
     f_le F (f_from_u32 F 100) (f_mul F (f_one_point_four F) (f_from_u32 F 72)) \<and>
     (\<forall>a b. a \<le> b \<longrightarrow> f_le F (f_mul F (f_one_point_four F) (f_from_u32 F a)) (f_mul F (f_one_point_four F) (f_from_u32 F b))) \<and>
     (\<forall>a. f_le F (f_zero F) (f_mul F (f_one_point_four F) (f_from_u32 F a))) \<and>
     (\<forall>x y. f_le F (f_zero F) x \<longrightarrow> f_le F (f_zero F) y \<longrightarrow> f_le F x (f_add F x y)) \<and>
     (\<forall>x a b. f_le F (f_zero F) x \<longrightarrow> 0 < a \<longrightarrow> 0 < b \<longrightarrow> f_le F (f_zero F) (f_div F (f_mul F x (f_from_u32 F a)) (f_from_u32 F b))) \<and>
     (\<forall>x y. f_max F x y = x \<or> f_max F x y = y) \<and>
     (\<forall>a b. a \<le> b \<longrightarrow> 0 < b \<longrightarrow> f_le F (f_zero F) (f_div F (f_from_u32 F a) (f_from_u32 F b)) \<and>
        f_le F (f_div F (f_from_u32 F a) (f_from_u32 F b)) (f_from_u32 F 1)) \<and>
     (\<forall>x. f_le F (f_zero F) x \<longrightarrow> f_le F x (f_from_u32 F 1) \<longrightarrow> f_sub F (f_add F x x) x = x) \<and>
     (\<forall>x y. f_le F y x \<longrightarrow> \<not> f_lt F x y)"

definition rat_f64 :: "rat f64_ops" where
  "rat_f64 =
     \<lparr>f_from_u32 = (\<lambda>w. of_nat (unat w)), f_one_point_four = 7 / 5, f_add = (+), f_sub = (-), f_mul = (*), f_div = (/),
      f_le = (\<le>), f_lt = (<), f_min = min, f_max = max, f_ceil = (\<lambda>x. of_int \<lceil>x\<rceil>),
      f_round_as_u32 = (\<lambda>x. word_of_int \<lfloor>x + 1 / 2\<rfloor>)\<rparr>"

lemma unat_plus_u32: "unat a + unat b \<le> u32_max \<Longrightarrow> unat (a + b :: u32) = unat a + unat b"
  by (simp add: unat_word_ariths)

lemma unat_times_u32: "unat a * unat b \<le> u32_max \<Longrightarrow> unat (a * b :: u32) = unat a * unat b"
  by (simp add: unat_word_ariths)

lemma unat_eq_0_u32: "unat (b :: u32) = 0 \<longleftrightarrow> b = 0"
  by (simp add: unat_eq_zero)

lemma f64_lawsD:
  assumes "f64_laws F"
  shows "f_le F (f_from_u32 F a) (f_from_u32 F b) \<longleftrightarrow> a \<le> b"
    and "f_le F x y \<Longrightarrow> f_le F y z \<Longrightarrow> f_le F x z"
    and "unat a + unat b \<le> u32_max \<Longrightarrow> f_add F (f_from_u32 F a) (f_from_u32 F b) = f_from_u32 F (a + b)"
    and "b \<le> a \<Longrightarrow> f_sub F (f_from_u32 F a) (f_from_u32 F b) = f_from_u32 F (a - b)"
    and "unat a * unat b \<le> u32_max \<Longrightarrow> f_mul F (f_from_u32 F a) (f_from_u32 F b) = f_from_u32 F (a * b)"
    and "b \<noteq> 0 \<Longrightarrow> unat a * unat b \<le> u32_max \<Longrightarrow> f_div F (f_from_u32 F (a * b)) (f_from_u32 F b) = f_from_u32 F a"
    and "f_round_as_u32 F (f_from_u32 F a) = a"
    and "f_le F x y \<Longrightarrow> f_min F x y = x" and "f_le F y x \<Longrightarrow> f_min F x y = y"
    and "f_le F z x \<Longrightarrow> f_le F z y \<Longrightarrow> f_le F z (f_min F x y)"
    and "f_le F (f_from_u32 F 100) (f_mul F (f_one_point_four F) (f_from_u32 F 72))"
    and "a \<le> b \<Longrightarrow> f_le F (f_mul F (f_one_point_four F) (f_from_u32 F a)) (f_mul F (f_one_point_four F) (f_from_u32 F b))"
    and "f_le F (f_zero F) (f_mul F (f_one_point_four F) (f_from_u32 F a))"
    and "f_le F (f_zero F) x \<Longrightarrow> f_le F (f_zero F) y \<Longrightarrow> f_le F x (f_add F x y)"
    and "f_le F (f_zero F) x \<Longrightarrow> 0 < a \<Longrightarrow> 0 < b \<Longrightarrow> f_le F (f_zero F) (f_div F (f_mul F x (f_from_u32 F a)) (f_from_u32 F b))"
    and "f_max F x y = x \<or> f_max F x y = y"
    and "a \<le> b \<Longrightarrow> 0 < b \<Longrightarrow> f_le F (f_zero F) (f_div F (f_from_u32 F a) (f_from_u32 F b))"
    and "a \<le> b \<Longrightarrow> 0 < b \<Longrightarrow> f_le F (f_div F (f_from_u32 F a) (f_from_u32 F b)) (f_from_u32 F 1)"
    and "f_le F (f_zero F) x \<Longrightarrow> f_le F x (f_from_u32 F 1) \<Longrightarrow> f_sub F (f_add F x x) x = x"
    and "f_le F y x \<Longrightarrow> \<not> f_lt F x y"
proof -
  note laws = assms [unfolded f64_laws_def]
  show "f_le F (f_from_u32 F a) (f_from_u32 F b) \<longleftrightarrow> a \<le> b"
    using laws [THEN conjunct1] by blast
  show "f_le F x y \<Longrightarrow> f_le F y z \<Longrightarrow> f_le F x z"
    using laws [THEN conjunct2, THEN conjunct1] by blast
  show "unat a + unat b \<le> u32_max \<Longrightarrow> f_add F (f_from_u32 F a) (f_from_u32 F b) = f_from_u32 F (a + b)"
    using laws [THEN conjunct2, THEN conjunct2, THEN conjunct1] by blast
  show "b \<le> a \<Longrightarrow> f_sub F (f_from_u32 F a) (f_from_u32 F b) = f_from_u32 F (a - b)"
    using laws [THEN conjunct2, THEN conjunct2, THEN conjunct2, THEN conjunct1] by blast
  show "unat a * unat b \<le> u32_max \<Longrightarrow> f_mul F (f_from_u32 F a) (f_from_u32 F b) = f_from_u32 F (a * b)"
    using laws [THEN conjunct2, THEN conjunct2, THEN conjunct2, THEN conjunct2, THEN conjunct1] by blast
  show "b \<noteq> 0 \<Longrightarrow> unat a * unat b \<le> u32_max \<Longrightarrow> f_div F (f_from_u32 F (a * b)) (f_from_u32 F b) = f_from_u32 F a"
    using laws [THEN conjunct2, THEN conjunct2, THEN conjunct2, THEN conjunct2, THEN conjunct2, THEN conjunct1] by blast
  show "f_round_as_u32 F (f_from_u32 F a) = a"
    using laws [THEN conjunct2, THEN conjunct2, THEN conjunct2, THEN conjunct2, THEN conjunct2, THEN conjunct2, THEN conjunct1] by blast
  show "f_le F x y \<Longrightarrow> f_min F x y = x"
    using laws [THEN conjunct2, THEN conjunct2, THEN conjunct2, THEN conjunct2, THEN conjunct2, THEN conjunct2, THEN conjunct2, THEN conjunct1] by blast
  show "f_le F y x \<Longrightarrow> f_min F x y = y"
    using laws [THEN conjunct2, THEN conjunct2, THEN conjunct2, THEN conjunct2, THEN conjunct2, THEN conjunct2, THEN conjunct2, THEN conjunct2, THEN conjunct1] by blast
  show "f_le F z x \<Longrightarrow> f_le F z y \<Longrightarrow> f_le F z (f_min F x y)"
    using laws [THEN conjunct2, THEN conjunct2, THEN conjunct2, THEN conjunct2, THEN conjunct2, THEN conjunct2, THEN conjunct2, THEN conjunct2, THEN conjunct2, THEN conjunct1] by blast
  show "f_le F (f_from_u32 F 100) (f_mul F (f_one_point_four F) (f_from_u32 F 72))"
    using laws [THEN conjunct2, THEN conjunct2, THEN conjunct2, THEN conjunct2, THEN conjunct2, THEN conjunct2, THEN conjunct2, THEN conjunct2, THEN conjunct2, THEN conjunct2, THEN conjunct1] by blast
  show "a \<le> b \<Longrightarrow> f_le F (f_mul F (f_one_point_four F) (f_from_u32 F a)) (f_mul F (f_one_point_four F) (f_from_u32 F b))"
    using laws [THEN conjunct2, THEN conjunct2, THEN conjunct2, THEN conjunct2, THEN conjunct2, THEN conjunct2, THEN conjunct2, THEN conjunct2, THEN conjunct2, THEN conjunct2, THEN conjunct2, THEN conjunct1] by blast
  show "f_le F (f_zero F) (f_mul F (f_one_point_four F) (f_from_u32 F a))"
    using laws [THEN conjunct2, THEN conjunct2, THEN conjunct2, THEN conjunct2, THEN conjunct2, THEN conjunct2, THEN conjunct2, THEN conjunct2, THEN conjunct2, THEN conjunct2, THEN conjunct2, THEN conjunct2, THEN conjunct1] by blast
  show "f_le F (f_zero F) x \<Longrightarrow> f_le F (f_zero F) y \<Longrightarrow> f_le F x (f_add F x y)"
    using laws [THEN conjunct2, THEN conjunct2, THEN conjunct2, THEN conjunct2, THEN conjunct2, THEN conjunct2, THEN conjunct2, THEN conjunct2, THEN conjunct2, THEN conjunct2, THEN conjunct2, THEN conjunct2, THEN conjunct2, THEN conjunct1] by blast
  show "f_le F (f_zero F) x \<Longrightarrow> 0 < a \<Longrightarrow> 0 < b \<Longrightarrow> f_le F (f_zero F) (f_div F (f_mul F x (f_from_u32 F a)) (f_from_u32 F b))"
    using laws [THEN conjunct2, THEN conjunct2, THEN conjunct2, THEN conjunct2, THEN conjunct2, THEN conjunct2, THEN conjunct2, THEN conjunct2, THEN conjunct2, THEN conjunct2, THEN conjunct2, THEN conjunct2, THEN conjunct2, THEN conjunct2, THEN conjunct1] by blast
  show "f_max F x y = x \<or> f_max F x y = y"
    using laws [THEN conjunct2, THEN conjunct2, THEN conjunct2, THEN conjunct2, THEN conjunct2, THEN conjunct2, THEN conjunct2, THEN conjunct2, THEN conjunct2, THEN conjunct2, THEN conjunct2, THEN conjunct2, THEN conjunct2, THEN conjunct2, THEN conjunct2, THEN conjunct1] by blast
  show "a \<le> b \<Longrightarrow> 0 < b \<Longrightarrow> f_le F (f_zero F) (f_div F (f_from_u32 F a) (f_from_u32 F b))"
    using laws [THEN conjunct2, THEN conjunct2, THEN conjunct2, THEN conjunct2, THEN conjunct2, THEN conjunct2, THEN conjunct2, THEN conjunct2, THEN conjunct2, THEN conjunct2, THEN conjunct2, THEN conjunct2, THEN conjunct2, THEN conjunct2, THEN conjunct2, THEN conjunct2, THEN conjunct1] by blast
  show "a \<le> b \<Longrightarrow> 0 < b \<Longrightarrow> f_le F (f_div F (f_from_u32 F a) (f_from_u32 F b)) (f_from_u32 F 1)"
    using laws [THEN conjunct2, THEN conjunct2, THEN conjunct2, THEN conjunct2, THEN conjunct2, THEN conjunct2, THEN conjunct2, THEN conjunct2, THEN conjunct2, THEN conjunct2, THEN conjunct2, THEN conjunct2, THEN conjunct2, THEN conjunct2, THEN conjunct2, THEN conjunct2, THEN conjunct1] by blast
  show "f_le F (f_zero F) x \<Longrightarrow> f_le F x (f_from_u32 F 1) \<Longrightarrow> f_sub F (f_add F x x) x = x"
    using laws [THEN conjunct2, THEN conjunct2, THEN conjunct2, THEN conjunct2, THEN conjunct2, THEN conjunct2, THEN conjunct2, THEN conjunct2, THEN conjunct2, THEN conjunct2, THEN conjunct2, THEN conjunct2, THEN conjunct2, THEN conjunct2, THEN conjunct2, THEN conjunct2, THEN conjunct2, THEN conjunct1] by blast
  show "f_le F y x \<Longrightarrow> \<not> f_lt F x y"
    using laws [THEN conjunct2, THEN conjunct2, THEN conjunct2, THEN conjunct2, THEN conjunct2, THEN conjunct2, THEN conjunct2, THEN conjunct2, THEN conjunct2, THEN conjunct2, THEN conjunct2, THEN conjunct2, THEN conjunct2, THEN conjunct2, THEN conjunct2, THEN conjunct2, THEN conjunct2, THEN conjunct2] by blast
qed

lemma rat_f64_laws: "f64_laws rat_f64"
proof -
  have diff: "(of_nat (unat a) :: rat) - of_nat (unat b) = of_nat (unat (a - b))" if "unat b \<le> unat a" for a b :: u32
    using that by (simp add: unat_sub word_le_nat_alt of_nat_diff del: of_nat_unat)
  have rnd: "\<lfloor>1 / 2 :: rat\<rfloor> = 0" "(word_of_nat (unat a) :: u32) = a" for a :: u32
    by (simp_all add: floor_eq_iff)
  have quot: "(of_nat m :: rat) / of_nat n \<le> 1" if "m \<le> n" for m n
    using that by (cases "n = 0") (simp_all add: divide_le_eq_1)
  show ?thesis
    unfolding f64_laws_def
    by (intro conjI allI impI)
      (auto simp: rat_f64_def word_le_nat_alt diff rnd quot unat_plus_u32 unat_times_u32 unat_eq_0_u32 max_def
        simp del: of_nat_unat)
qed

end
