(* ===== verification/Priority_Balancer.thy ===== *)
theory Priority_Balancer
  imports Healthy_Balancer F64
begin

text \<open>
  The load of the priority levels (\<open>orion-lib/src/clusters/balancers/priority.rs\<close>) and the
  balancer of a cluster (\<open>default_balancer.rs\<close>): a round robin over the priority levels, weighted by
  their loads, and one healthy balancer per level.

  A \<open>HashMap\<close> is the list of its entries in the order of iteration.  The endpoints are a type
  parameter; their weight, health and equality are arguments, as is the arithmetic on \<open>f64\<close>.
\<close>

section \<open>Loads of the priorities\<close>

record 'b priority_info =
  pi_balancer :: 'b
  pi_healthy :: u32
  pi_total :: u32

text \<open>The product wraps and the division panics on zero.\<close>
definition calculate_priority_health :: "('f, 'a) f64_ops_scheme \<Rightarrow> u32 \<Rightarrow> u32 \<Rightarrow> 'f outcome" where
  "calculate_priority_health F healthy tot =
     (if tot = 0 then Panic
      else let x = f_from_u32 F (100 * healthy div tot)
           in Ret (f_min F (f_from_u32 F 100) (f_mul F (f_one_point_four F) x)))"

text \<open>The loop over the priorities after the first, with the loads computed so far.\<close>
fun priority_loads_from ::
  "('f, 'a) f64_ops_scheme \<Rightarrow> 'f \<Rightarrow> (u32 \<times> 'f) list \<Rightarrow> (u32 \<times> 'f) list \<Rightarrow> (u32 \<times> 'f) list" where
  "priority_loads_from F normalized_total_health p_load [] = p_load"
| "priority_loads_from F normalized_total_health p_load ((k, x) # priority_health) =
     (let load = f_sub F (f_from_u32 F 100) (f_sum F (map snd p_load));
          normalized_p_x_health = f_div F (f_mul F x (f_from_u32 F 100)) normalized_total_health;
          p_x_load = f_min F load normalized_p_x_health
      in priority_loads_from F normalized_total_health (p_load @ [(k, p_x_load)]) priority_health)"

definition priority_healths ::
  "('f, 'a) f64_ops_scheme \<Rightarrow> (u32 \<times> 'b priority_info) list \<Rightarrow> (u32 \<times> 'f) list outcome" where
  "priority_healths F sorted_endpoints =
     mapListP (\<lambda>(k, v). mapP (Pair k) (calculate_priority_health F (pi_healthy v) (pi_total v))) sorted_endpoints"

definition calculate_priority_loads ::
  "('f, 'a) f64_ops_scheme \<Rightarrow> (u32 \<times> 'b priority_info) list \<Rightarrow> (u32 \<times> u32) list outcome" where
  "calculate_priority_loads F endpoints =
     mapP (\<lambda>priority_health.
         case priority_health of
           [] \<Rightarrow> []
         | (p0_k, p) # rest \<Rightarrow>
             let normalized_total_health = f_min F (f_from_u32 F 100) (f_sum F (map snd priority_health));
                 p_0_load = f_div F (f_mul F p (f_from_u32 F 100)) normalized_total_health
             in map (\<lambda>(k, f). (k, f_round_as_u32 F f)) (priority_loads_from F normalized_total_health [(p0_k, p_0_load)] rest))
       (priority_healths F (sort_key fst endpoints))"

section \<open>The balancer of a cluster\<close>

record 'e locality_lb_endpoints =
  loc_endpoints :: "'e list"
  loc_priority :: u32
  healthy_endpoints :: u32
  total_endpoints :: u32

record ('b, 'e) default_balancer =
  priority_level_lb :: "u32 wrr_balancer"
  db_priorities :: "(u32 \<times> ('b, 'e) healthy_balancer priority_info) list"

definition recalculate_priority_load_factors ::
  "('f, 'a) f64_ops_scheme \<Rightarrow> (u32 \<times> 'b priority_info) list \<Rightarrow> u32 wrr_balancer outcome" where
  "recalculate_priority_load_factors F priorities =
     mapP (\<lambda>priority_load_weights. wrr_new (map (\<lambda>f. wrr_lb_item_new (snd f) (fst f)) priority_load_weights))
       (calculate_priority_loads F priorities)"

text \<open>The loop of \<open>update_health\<close> over the priorities.\<close>
fun update_priorities ::
  "('e list \<Rightarrow> 'b) \<Rightarrow> ('e \<Rightarrow> 'e \<Rightarrow> bool) \<Rightarrow> 'e \<Rightarrow> health_status \<Rightarrow> (u32 \<times> ('b, 'e) healthy_balancer priority_info) list
     \<Rightarrow> (unit + value_updated) \<times> (u32 \<times> ('b, 'e) healthy_balancer priority_info) list" where
  "update_priorities from_iter eq ident health [] = (Inl (), [])"
| "update_priorities from_iter eq ident health ((k, info) # ps) =
     (case healthy_update_health from_iter eq ident health (pi_balancer info) of
        (Inr NotUpdated, b) \<Rightarrow> (Inr NotUpdated, (k, info\<lparr>pi_balancer := b\<rparr>) # ps)
      | (Inr Updated, b) \<Rightarrow>
          (Inr Updated,
           (k, info\<lparr>pi_balancer := b,
                    pi_healthy := (if is_healthy health then pi_healthy info + 1 else pi_healthy info - 1)\<rparr>) # ps)
      | (Inl _, b) \<Rightarrow>
          (let (r, ps') = update_priorities from_iter eq ident health ps in (r, (k, info\<lparr>pi_balancer := b\<rparr>) # ps')))"

definition default_update_health ::
  "('f, 'a) f64_ops_scheme \<Rightarrow> ('e list \<Rightarrow> 'b) \<Rightarrow> ('e \<Rightarrow> 'e \<Rightarrow> bool) \<Rightarrow> 'e \<Rightarrow> health_status \<Rightarrow> ('b, 'e) default_balancer
     \<Rightarrow> ((unit + value_updated) \<times> ('b, 'e) default_balancer) outcome" where
  "default_update_health F from_iter eq ident health db =
     (case update_priorities from_iter eq ident health (db_priorities db) of
        (Inr Updated, ps) \<Rightarrow>
          mapP (\<lambda>lb. (Inr Updated, \<lparr>priority_level_lb = lb, db_priorities = ps\<rparr>)) (recalculate_priority_load_factors F ps)
      | (r, ps) \<Rightarrow> Ret (r, db\<lparr>db_priorities := ps\<rparr>))"

definition set_priority :: "u32 \<Rightarrow> 'v \<Rightarrow> (u32 \<times> 'v) list \<Rightarrow> (u32 \<times> 'v) list" where
  "set_priority p v = map (\<lambda>(k, v'). (k, if k = p then v else v'))"

definition default_next_item ::
  "(u64 option \<Rightarrow> 'b \<Rightarrow> 'e option \<times> 'b) \<Rightarrow> u64 option \<Rightarrow> ('b, 'e) default_balancer \<Rightarrow> 'e option \<times> ('b, 'e) default_balancer" where
  "default_next_item nxt hash db =
     (case wrr_next_item None (priority_level_lb db) of
        (None, lb) \<Rightarrow> (None, db\<lparr>priority_level_lb := lb\<rparr>)
      | (Some priority, lb) \<Rightarrow>
          (case map_of (db_priorities db) priority of
             None \<Rightarrow> (None, db\<lparr>priority_level_lb := lb\<rparr>)
           | Some info \<Rightarrow>
               let (endpoint, b) = healthy_next_item nxt hash (pi_balancer info)
               in (endpoint,
                   \<lparr>priority_level_lb = lb,
                    db_priorities = set_priority priority (info\<lparr>pi_balancer := b\<rparr>) (db_priorities db)\<rparr>)))"

definition add_locality ::
  "('e list \<Rightarrow> 'b) \<Rightarrow> 'b \<Rightarrow> ('e \<Rightarrow> health_status) \<Rightarrow> (u32 \<times> ('b, 'e) healthy_balancer priority_info) list
     \<Rightarrow> 'e locality_lb_endpoints \<Rightarrow> (u32 \<times> ('b, 'e) healthy_balancer priority_info) list" where
  "add_locality from_iter dflt health ps l =
     (case map_of ps (loc_priority l) of
        Some info \<Rightarrow>
          set_priority (loc_priority l)
            \<lparr>pi_balancer = healthy_extend from_iter health (loc_endpoints l) (pi_balancer info),
             pi_healthy = pi_healthy info + healthy_endpoints l, pi_total = pi_total info + total_endpoints l\<rparr> ps
      | None \<Rightarrow>
          ps @ [(loc_priority l, \<lparr>pi_balancer = healthy_from_iter from_iter dflt health (loc_endpoints l),
                                  pi_healthy = healthy_endpoints l, pi_total = total_endpoints l\<rparr>)])"

definition default_from_slice ::
  "('f, 'a) f64_ops_scheme \<Rightarrow> ('e list \<Rightarrow> 'b) \<Rightarrow> 'b \<Rightarrow> ('e \<Rightarrow> health_status) \<Rightarrow> 'e locality_lb_endpoints list
     \<Rightarrow> ('b, 'e) default_balancer outcome" where
  "default_from_slice F from_iter dflt health endpoints =
     (let priorities = foldl (add_locality from_iter dflt health) [] endpoints
      in mapP (\<lambda>lb. \<lparr>priority_level_lb = lb, db_priorities = priorities\<rparr>) (recalculate_priority_load_factors F priorities))"

text \<open>The life of the balancer: choices and health updates.\<close>
inductive default_step ::
  "('f, 'a) f64_ops_scheme \<Rightarrow> ('e list \<Rightarrow> 'b) \<Rightarrow> ('e \<Rightarrow> 'e \<Rightarrow> bool) \<Rightarrow> (u64 option \<Rightarrow> 'b \<Rightarrow> 'e option \<times> 'b)
     \<Rightarrow> ('b, 'e) default_balancer \<Rightarrow> ('b, 'e) default_balancer \<Rightarrow> bool"
  for F from_iter eq nxt where
  choose: "default_step F from_iter eq nxt db (snd (default_next_item nxt h db))"
| update: "default_update_health F from_iter eq e s db = Ret (r, db') \<Longrightarrow> default_step F from_iter eq nxt db db'"

section \<open>The loads when the first priority is healthy enough\<close>

definition priority_health :: "('f, 'a) f64_ops_scheme \<Rightarrow> 'b priority_info \<Rightarrow> 'f" where
  "priority_health F v =
     f_min F (f_from_u32 F 100) (f_mul F (f_one_point_four F) (f_from_u32 F (100 * pi_healthy v div pi_total v)))"

lemma priority_healths_Ret:
  assumes "\<forall>(k, v) \<in> set ps. pi_total v \<noteq> 0"
  shows "priority_healths F ps = Ret (map (\<lambda>e. (fst e, priority_health F (snd e))) ps)"
  unfolding priority_healths_def
  by (rule mapListP_map) (use assms in \<open>auto simp: calculate_priority_health_def priority_health_def\<close>)

lemma priority_health_nonneg: "f64_laws F \<Longrightarrow> f_le F (f_zero F) (priority_health F v)"
  unfolding priority_health_def by (intro f64_lawsD(10)) (simp_all add: f64_lawsD(1,13))

lemma priority_health_full:
  assumes "f64_laws F" "72 \<le> 100 * pi_healthy v div pi_total v"
  shows "priority_health F v = f_from_u32 F 100"
  unfolding priority_health_def
  by (rule f64_lawsD(8) [OF assms(1) f64_lawsD(2) [OF assms(1) f64_lawsD(11) [OF assms(1)] f64_lawsD(12) [OF assms]]])

lemma foldl_f_add_ge:
  assumes "f64_laws F" "f_le F (f_from_u32 F a) x" "\<forall>y \<in> set ys. f_le F (f_zero F) y"
  shows "f_le F (f_from_u32 F a) (foldl (f_add F) x ys)"
  using assms(2,3)
proof (induction ys arbitrary: x)
  case (Cons y ys)
  have "f_le F (f_zero F) x"
    by (rule f64_lawsD(2) [OF assms(1) _ Cons.prems(1)]) (simp add: f64_lawsD(1) [OF assms(1)])
  then have "f_le F x (f_add F x y)"
    using Cons.prems(2) by (intro f64_lawsD(14) [OF assms(1)]) simp_all
  with Cons.prems have "f_le F (f_from_u32 F a) (f_add F x y)"
    by (blast intro: f64_lawsD(2) [OF assms(1)])
  with Cons show ?case by simp
qed simp

lemma priority_loads_from_zero:
  assumes "f64_laws F" "f_sum F (map snd acc) = f_from_u32 F 100" "\<forall>(k, x) \<in> set ph. f_le F (f_zero F) x"
  shows "priority_loads_from F (f_from_u32 F 100) acc ph = acc @ map (\<lambda>(k, x). (k, f_zero F)) ph"
  using assms(2,3)
proof (induction ph arbitrary: acc)
  case (Cons a ph)
  obtain k x where a: "a = (k, x)" by fastforce
  have zero: "f_sub F (f_from_u32 F 100) (f_from_u32 F 100) = f_zero F"
    using f64_lawsD(4) [OF assms(1), of 100 100] by simp
  have "f_min F (f_zero F) (f_div F (f_mul F x (f_from_u32 F 100)) (f_from_u32 F 100)) = f_zero F"
    using Cons.prems a by (intro f64_lawsD(8) [OF assms(1)] f64_lawsD(15) [OF assms(1)]) auto
  moreover have "f_sum F (map snd (acc @ [(k, f_zero F)])) = f_from_u32 F 100"
    using Cons.prems(1) f64_lawsD(3) [OF assms(1), of 100 0] by (simp add: f_sum_def)
  ultimately show ?case
    using Cons a by (simp add: Let_def zero)
qed simp

lemma sort_key_least:
  assumes "distinct (map fst ps)" "map_of ps p = Some v" "\<forall>k \<in> fst ` set ps. p \<le> k"
  obtains rest where "sort_key fst ps = (p, v) # rest" "set ps = insert (p, v) (set rest)"
proof -
  have mem: "(p, v) \<in> set (sort_key fst ps)"
    using map_of_SomeD [OF assms(2)] by simp
  then obtain k w rest where s: "sort_key fst ps = (k, w) # rest"
    by (cases "sort_key fst ps") auto
  have kw: "(k, w) \<in> set ps"
    using s by (metis list.set_intros(1) set_sort)
  have "k \<le> p"
    using mem s sorted_sort_key [of fst ps] by (auto simp: s)
  moreover have "p \<le> k"
    using kw assms(3) by force
  ultimately have k: "k = p" by simp
  then have "w = v"
    using kw assms(1,2) by (metis map_of_eq_Some_iff option.inject)
  moreover have "set ps = set (sort_key fst ps)"
    by simp
  ultimately show thesis
    using that [of rest] s k by simp
qed

lemma calculate_priority_loads_first:
  assumes F: "f64_laws F" and "distinct (map fst ps)" "map_of ps p = Some v" "\<forall>k \<in> fst ` set ps. p \<le> k"
    and total: "\<forall>(k, v) \<in> set ps. pi_total v \<noteq> 0" and "72 \<le> 100 * pi_healthy v div pi_total v"
  obtains ks where "calculate_priority_loads F ps = Ret ((p, 100) # map (\<lambda>k. (k, 0)) ks)"
proof -
  obtain rest where s: "sort_key fst ps = (p, v) # rest" and ps: "set ps = insert (p, v) (set rest)"
    using sort_key_least [OF assms(2-4)] by blast
  let ?ph = "map (\<lambda>e. (fst e, priority_health F (snd e))) rest"
  have healths: "priority_healths F (sort_key fst ps) = Ret ((p, f_from_u32 F 100) # ?ph)"
    using priority_healths_Ret [of "sort_key fst ps" F] total ps priority_health_full [OF F assms(6)] by (simp add: s)
  have nonneg: "\<forall>(k, x) \<in> set ?ph. f_le F (f_zero F) x"
    using priority_health_nonneg [OF F] by auto
  have add0: "f_add F (f_zero F) (f_from_u32 F 100) = f_from_u32 F 100"
    using f64_lawsD(3) [OF F, of 0 100] by simp
  have "f_le F (f_from_u32 F 100) (f_sum F (f_from_u32 F 100 # map snd ?ph))"
    using foldl_f_add_ge [OF F, of 100 "f_from_u32 F 100" "map snd ?ph"]
    by (simp add: f_sum_def add0 f64_lawsD(1) [OF F] priority_health_nonneg [OF F])
  then have norm: "f_min F (f_from_u32 F 100) (f_sum F (f_from_u32 F 100 # map snd ?ph)) = f_from_u32 F 100"
    by (rule f64_lawsD(8) [OF F])
  have load: "f_div F (f_mul F (f_from_u32 F 100) (f_from_u32 F 100)) (f_from_u32 F 100) = f_from_u32 F 100"
    using f64_lawsD(5,6) [OF F, of 100 100] by simp
  have "f_sum F (map snd [(p, f_from_u32 F 100)]) = f_from_u32 F 100"
    by (simp add: f_sum_def add0)
  note zero = priority_loads_from_zero [OF F this nonneg]
  have "calculate_priority_loads F ps = Ret ((p, 100) # map (\<lambda>k. (k, 0)) (map fst rest))"
    unfolding calculate_priority_loads_def healths
    by (simp del: map_map add: norm [simplified] load zero Let_def f64_lawsD(7) [OF F] split_def o_def)
      (simp add: split_def o_def f64_lawsD(7) [OF F])
  then show thesis by (rule that)
qed

lemma wrr_collect_checked_zeros:
  "wrr_collect_checked w (map (wrr_lb_item_new 0) ks) = map (wrr_lb_item_new 0) ks"
  by (induction ks) (simp_all add: checked_add_u32_def wrr_lb_item_new_def)

text \<open>A round robin whose other weights are zero always returns the first item, and is as before.\<close>
lemma wrr_next_item_single_weight:
  assumes "0 < w" "uint w \<le> i32_max"
  shows "wrr_next_item h \<lparr>wrr_items = wrr_lb_item_new w p # map (wrr_lb_item_new 0) ks\<rparr> =
    (Some p, \<lparr>wrr_items = wrr_lb_item_new w p # map (wrr_lb_item_new 0) ks\<rparr>)"
proof (cases ks)
  case (Cons k ks')
  let ?it = "\<lparr>wrr_weight = w, wrr_current_weight = uint w, wrr_item = p\<rparr>"
  let ?items = "?it # map (wrr_lb_item_new 0) ks"
  have pos: "0 < uint w"
    using assms(1) by (simp add: word_less_def)
  have inc: "map increase_curent_weight (wrr_lb_item_new w p # map (wrr_lb_item_new 0) ks) = ?items"
    using assms(2) pos
    by (simp add: increase_curent_weight_def adjust_current_weight_def wrr_lb_item_new_def i32_of_u32_or_max_def
        saturating_add_i32_def)
  have tot: "foldl saturating_add_i32 0 (map (\<lambda>it. i32_of_u32_or_max (wrr_weight it)) ?items) = uint w"
  proof -
    have "foldl saturating_add_i32 (uint w) (map (\<lambda>it. i32_of_u32_or_max (wrr_weight it)) (map (wrr_lb_item_new 0) ks)) = uint w"
      using assms(2) pos by (induction ks) (simp_all add: wrr_lb_item_new_def i32_of_u32_or_max_def saturating_add_i32_def)
    then show ?thesis
      using assms(2) pos by (simp add: i32_of_u32_or_max_def saturating_add_i32_def)
  qed
  obtain i where i: "reduce_idx (\<lambda>it best. wrr_current_weight it > wrr_current_weight best) ?items = Some i"
    by (metis list.distinct(1) not_None_eq reduce_idx_None)
  have "i = 0"
  proof (rule ccontr)
    assume "i \<noteq> 0"
    then have "wrr_current_weight (?items ! 0) < wrr_current_weight (?items ! i)" "i < length ?items"
      using reduce_idx_first_max(3) [OF i, of 0] reduce_idx_first_max(1) [OF i] by blast+
    with \<open>i \<noteq> 0\<close> pos show False
      by (cases i) (auto simp: wrr_lb_item_new_def)
  qed
  moreover have "adjust_current_weight (- uint w) ?it = wrr_lb_item_new w p"
    by (simp add: adjust_current_weight_def wrr_lb_item_new_def saturating_add_i32_def)
  moreover have "\<not> length (wrr_lb_item_new w p # map (wrr_lb_item_new 0) ks) \<le> 1"
    using Cons by simp
  ultimately show ?thesis
    unfolding wrr_next_item_def Let_def wrr_balancer.simps inc tot i by simp
qed (simp add: wrr_next_item_def wrr_lb_item_new_def)

lemma recalculate_first:
  assumes "f64_laws F" "distinct (map fst ps)" "map_of ps p = Some v" "\<forall>k \<in> fst ` set ps. p \<le> k"
    and "\<forall>(k, v) \<in> set ps. pi_total v \<noteq> 0" "72 \<le> 100 * pi_healthy v div pi_total v"
    and "recalculate_priority_load_factors F ps = Ret lb"
  shows "wrr_next_item h lb = (Some p, lb)"
proof -
  obtain ks where loads: "calculate_priority_loads F ps = Ret ((p, 100) # map (\<lambda>k. (k, 0)) ks)"
    using calculate_priority_loads_first [OF assms(1-6)] by blast
  have "map (\<lambda>f. wrr_lb_item_new (snd f) (fst f)) (map (\<lambda>k. (k, 0)) ks) = map (wrr_lb_item_new 0) ks"
    by simp
  moreover have "wrr_collect_checked 0 (wrr_lb_item_new 100 p # map (wrr_lb_item_new 0) ks) =
      wrr_lb_item_new 100 p # map (wrr_lb_item_new 0) ks"
    using wrr_collect_checked_zeros [of 100 ks] by (simp add: checked_add_u32_def wrr_lb_item_new_def)
  ultimately have "lb = \<lparr>wrr_items = wrr_lb_item_new 100 p # map (wrr_lb_item_new 0) ks\<rparr>"
    using loads assms(7)
    by (simp del: wrr_collect_checked.simps map_map add: recalculate_priority_load_factors_def wrr_new_def)
  then show ?thesis
    using wrr_next_item_single_weight [of 100 h p ks] by simp
qed

section \<open>Invariant\<close>

text \<open>The counters of a level are those of its items, which are few enough for the percentage not to wrap.\<close>
definition info_ok :: "('b \<Rightarrow> 'e set) \<Rightarrow> ('b, 'e) healthy_balancer priority_info \<Rightarrow> bool" where
  "info_ok members info \<longleftrightarrow>
     unat (pi_healthy info) = length (healthy_candidates (hb_items (pi_balancer info))) \<and>
     unat (pi_total info) = length (hb_items (pi_balancer info)) \<and>
     hb_items (pi_balancer info) \<noteq> [] \<and> length (hb_items (pi_balancer info)) \<le> u32_max div 100 \<and>
     healthy_inv members (pi_balancer info) \<and> healthy_ready members (pi_balancer info)"

definition healthy_enough :: "'b priority_info \<Rightarrow> bool" where
  "healthy_enough info \<longleftrightarrow> 72 * unat (pi_total info) \<le> 100 * unat (pi_healthy info)"

definition is_first :: "(u32 \<times> 'v) list \<Rightarrow> u32 \<Rightarrow> 'v \<Rightarrow> bool" where
  "is_first ps p v \<longleftrightarrow> map_of ps p = Some v \<and> (\<forall>k \<in> fst ` set ps. p \<le> k)"

definition default_inv :: "('b \<Rightarrow> 'e set) \<Rightarrow> ('b, 'e) default_balancer \<Rightarrow> bool" where
  "default_inv members db \<longleftrightarrow>
     distinct (map fst (db_priorities db)) \<and> (\<forall>(k, info) \<in> set (db_priorities db). info_ok members info) \<and>
     (\<forall>p info h. is_first (db_priorities db) p info \<longrightarrow> healthy_enough info \<longrightarrow>
        wrr_next_item h (priority_level_lb db) = (Some p, priority_level_lb db))"

lemma healthy_candidates_simps [simp]:
  "healthy_candidates [] = []"
  "healthy_candidates (it # items) = (if hi_health it = Healthy then hi_item it # healthy_candidates items else healthy_candidates items)"
  "healthy_candidates (items @ items') = healthy_candidates items @ healthy_candidates items'"
  by (simp_all add: healthy_candidates_def List.map_filter_def is_healthy_def)

lemma length_healthy_candidates_le: "length (healthy_candidates items) \<le> length items"
  by (induction items) auto

lemma length_healthy_candidates_update:
  "i < length items \<Longrightarrow> hi_health (items ! i) \<noteq> s \<Longrightarrow>
   int (length (healthy_candidates (items[i := (items ! i)\<lparr>hi_health := s\<rparr>]))) =
     int (length (healthy_candidates items)) + (if s = Healthy then 1 else - 1)"
proof (induction items arbitrary: i)
  case (Cons it items)
  show ?case
  proof (cases i)
    case 0
    with Cons.prems show ?thesis
      by (cases "hi_health it"; cases s) simp_all
  next
    case (Suc j)
    with Cons.prems Cons.IH [of j] show ?thesis
      by auto
  qed
qed simp

lemma info_ok_percentage:
  assumes "info_ok members info" "healthy_enough info"
  shows "pi_total info \<noteq> 0" "72 \<le> 100 * pi_healthy info div pi_total info"
proof -
  let ?n = "unat (pi_healthy info)" and ?t = "unat (pi_total info)"
  have t: "0 < ?t" "?n \<le> ?t" "?t \<le> u32_max div 100"
    using assms(1) length_healthy_candidates_le by (auto simp: info_ok_def)
  then show "pi_total info \<noteq> 0" by auto
  have "unat (100 * pi_healthy info) = 100 * ?n"
    using t by (subst unat_times_u32) simp_all
  moreover have "72 \<le> 100 * ?n div ?t"
    using assms(2) t(1) by (simp add: healthy_enough_def less_eq_div_iff_mult_less_eq)
  ultimately show "72 \<le> 100 * pi_healthy info div pi_total info"
    by (simp add: word_le_nat_alt unat_div)
qed

lemma set_priority_simps [simp]:
  "map fst (set_priority p v ps) = map fst ps" "fst ` set (set_priority p v ps) = fst ` set ps"
  by (induction ps) (auto simp: set_priority_def)

lemma map_of_set_priority:
  "map_of (set_priority p v ps) k = (if k = p then map_option (\<lambda>_. v) (map_of ps p) else map_of ps k)"
  by (induction ps) (auto simp: set_priority_def)

lemma set_set_priority: "(k, w) \<in> set (set_priority p v ps) \<Longrightarrow> (k = p \<and> w = v) \<or> (k, w) \<in> set ps"
  by (auto simp: set_priority_def split: if_splits)

context ready_balancer_laws
begin

lemma info_ok_healthy: "info_ok members info \<Longrightarrow> pi_total info \<noteq> 0"
  by (auto simp: info_ok_def)

lemma healthy_next_item_items: "hb_items (snd (healthy_next_item nxt h hb)) = hb_items hb"
  by (simp add: healthy_next_item_def split_def Let_def)

lemma info_ok_next:
  assumes "info_ok members info"
  shows "info_ok members (info\<lparr>pi_balancer := snd (healthy_next_item next_item h (pi_balancer info))\<rparr>)"
  using assms healthy_next_item_inv [of "pi_balancer info" h]
  by (simp add: info_ok_def healthy_next_item_items healthy_ready_def)
    (simp add: healthy_next_item_def split_def Let_def)

lemma info_ok_update:
  assumes ok: "info_ok members info" and upd: "healthy_update_health from_iter eq e s (pi_balancer info) = (Inr Updated, b)"
  shows "info_ok members (info\<lparr>pi_balancer := b,
    pi_healthy := (if is_healthy s then pi_healthy info + 1 else pi_healthy info - 1)\<rparr>)"
  using upd
proof (cases rule: healthy_update_health_cases)
  case (changed i)
  let ?items = "(hb_items (pi_balancer info))[i := (hb_items (pi_balancer info) ! i)\<lparr>hi_health := s\<rparr>]"
  let ?n = "pi_healthy info"
  have b: "hb_items b = ?items"
    using changed by (simp add: healthy_reload_def)
  have n: "int (length (healthy_candidates ?items)) = int (unat ?n) + (if s = Healthy then 1 else - 1)"
    using length_healthy_candidates_update [OF changed(2,4)] ok by (simp add: info_ok_def)
  have le: "length (healthy_candidates ?items) \<le> u32_max div 100"
    using length_healthy_candidates_le [of ?items] ok by (simp add: info_ok_def)
  have "unat (if is_healthy s then ?n + 1 else ?n - 1) = length (healthy_candidates ?items)"
  proof (cases s)
    case Healthy
    with n have "length (healthy_candidates ?items) = unat ?n + 1" by (simp del: of_nat_unat)
    with le Healthy show ?thesis by (simp add: is_healthy_def unat_plus_u32)
  next
    case Unhealthy
    with n have len: "length (healthy_candidates ?items) = unat ?n - 1" and "1 \<le> unat ?n"
      by (simp_all del: of_nat_unat)
    then have "unat (?n - 1) = unat ?n - 1"
      by (subst unat_sub) (simp_all add: word_le_nat_alt)
    with len Unhealthy show ?thesis by (simp add: is_healthy_def)
  qed
  with b ok changed show ?thesis
    using healthy_reload_inv healthy_reload_ready by (auto simp: info_ok_def)
qed simp_all

end

lemma calculate_priority_loads_Ret:
  assumes "\<forall>(k, v) \<in> set ps. pi_total v \<noteq> 0"
  shows "\<exists>lb. recalculate_priority_load_factors F ps = Ret lb"
  using priority_healths_Ret [of "sort_key fst ps" F] assms
  by (simp add: recalculate_priority_load_factors_def calculate_priority_loads_def)

lemma is_first_counts:
  assumes "is_first (set_priority p v ps) q w" "map_of ps p = Some v0" "healthy_enough v = healthy_enough v0"
  shows "\<exists>w0. is_first ps q w0 \<and> healthy_enough w0 = healthy_enough w"
  using assms by (auto simp: is_first_def map_of_set_priority split: if_splits)

context ready_balancer_laws
begin

lemma update_priorities_ok:
  assumes "update_priorities from_iter eq e s ps = (r, ps')" "\<forall>(k, info) \<in> set ps. info_ok members info"
  shows "map fst ps' = map fst ps \<and> (\<forall>(k, info) \<in> set ps'. info_ok members info) \<and> (r \<noteq> Inr Updated \<longrightarrow> ps' = ps)"
  using assms
proof (induction ps arbitrary: r ps')
  case (Cons a ps)
  obtain k info where a: "a = (k, info)" by fastforce
  obtain r0 b where upd: "healthy_update_health from_iter eq e s (pi_balancer info) = (r0, b)" by fastforce
  obtain r1 ps1 where rec: "update_priorities from_iter eq e s ps = (r1, ps1)" by fastforce
  from upd show ?case
  proof (cases rule: healthy_update_health_cases)
    case (changed i)
    with Cons.prems upd a info_ok_update [of info eq e s b] show ?thesis by auto
  next
    case missing
    with Cons.prems upd a Cons.IH [OF rec] rec show ?thesis by auto
  next
    case (same i)
    with Cons.prems upd a show ?thesis by auto
  qed
qed auto

lemma default_next_item_inv:
  assumes inv: "default_inv members db"
  shows "default_inv members (snd (default_next_item next_item h db))"
proof -
  let ?lb = "priority_level_lb db" and ?ps = "db_priorities db"
  obtain c lb where nxt: "wrr_next_item None ?lb = (c, lb)" by fastforce
  have keep: "lb = ?lb" if "is_first ?ps p info" "healthy_enough info" for p info
    using inv that nxt by (auto simp: default_inv_def)
  consider (none) "snd (default_next_item next_item h db) = db\<lparr>priority_level_lb := lb\<rparr>"
    | (some) p info where "map_of ?ps p = Some info"
        "snd (default_next_item next_item h db) =
           \<lparr>priority_level_lb = lb, db_priorities = set_priority p (info\<lparr>pi_balancer := snd (healthy_next_item next_item h (pi_balancer info))\<rparr>) ?ps\<rparr>"
  proof (cases "Option.bind c (map_of ?ps)")
    case None
    with nxt none show thesis
      by (cases c) (simp_all add: default_next_item_def)
  next
    case (Some info)
    then obtain p where "c = Some p" "map_of ?ps p = Some info"
      by (auto simp: bind_eq_Some_conv)
    with nxt some [of p info] show thesis
      by (simp add: default_next_item_def split_def Let_def)
  qed
  then show ?thesis
  proof cases
    case none
    with inv keep show ?thesis by (simp add: default_inv_def)
  next
    case some
    let ?v = "info\<lparr>pi_balancer := snd (healthy_next_item next_item h (pi_balancer info))\<rparr>"
    have "info_ok members ?v"
      using info_ok_next inv map_of_SomeD [OF some(1)] by (force simp: default_inv_def)
    then have "\<forall>(k, i) \<in> set (set_priority p ?v ?ps). info_ok members i"
      using inv set_set_priority [of _ _ p ?v ?ps] by (fastforce simp: default_inv_def)
    moreover have "wrr_next_item h' lb = (Some q, lb)"
      if first: "is_first (set_priority p ?v ?ps) q w" and enough: "healthy_enough w" for q w h'
    proof -
      obtain w0 where "is_first ?ps q w0" "healthy_enough w0"
        using is_first_counts [OF first some(1)] enough by (auto simp: healthy_enough_def)
      then show ?thesis
        using keep [of q w0] inv by (auto simp: default_inv_def)
    qed
    ultimately show ?thesis
      using inv unfolding some(2) default_inv_def by simp
  qed
qed

lemma recalculate_inv:
  assumes "f64_laws F" "distinct (map fst ps)" "\<forall>(k, info) \<in> set ps. info_ok members info"
    and "recalculate_priority_load_factors F ps = Ret lb"
  shows "default_inv members \<lparr>priority_level_lb = lb, db_priorities = ps\<rparr>"
proof -
  have "wrr_next_item h lb = (Some p, lb)" if "is_first ps p info" "healthy_enough info" for p info h
  proof (rule recalculate_first [OF assms(1,2) _ _ _ _ assms(4)])
    show "map_of ps p = Some info" "\<forall>k \<in> fst ` set ps. p \<le> k"
      using that(1) by (simp_all add: is_first_def)
    then have "info_ok members info"
      using assms(3) map_of_SomeD by fastforce
    then show "72 \<le> 100 * pi_healthy info div pi_total info"
      by (rule info_ok_percentage(2) [OF _ that(2)])
    show "\<forall>(k, v) \<in> set ps. pi_total v \<noteq> 0"
      using assms(3) info_ok_healthy by fastforce
  qed
  with assms(2,3) show ?thesis by (simp add: default_inv_def)
qed

lemma default_step_inv:
  assumes "f64_laws F" and "default_step F from_iter eq next_item db db'" and "default_inv members db"
  shows "default_inv members db'"
  using assms(2,3)
proof (induction rule: default_step.induct)
  case (choose db h)
  then show ?case by (rule default_next_item_inv)
next
  case (update e s db r db')
  obtain r0 ps where up: "update_priorities from_iter eq e s (db_priorities db) = (r0, ps)" by fastforce
  have wf: "distinct (map fst (db_priorities db))" "\<forall>(k, info) \<in> set (db_priorities db). info_ok members info"
    using update.prems unfolding default_inv_def by blast+
  note ok = update_priorities_ok [OF up wf(2)]
  show ?case
  proof (cases "r0 = Inr Updated")
    case True
    show ?thesis
    proof (cases "recalculate_priority_load_factors F ps")
      case (Ret lb)
      with True update.hyps up have "db' = \<lparr>priority_level_lb = lb, db_priorities = ps\<rparr>"
        by (simp add: default_update_health_def)
      then show ?thesis
        using recalculate_inv [OF assms(1) _ _ Ret] ok wf(1) by simp
    qed (use True update.hyps up in \<open>simp add: default_update_health_def\<close>)
  next
    case False
    then have "db' = db\<lparr>db_priorities := ps\<rparr>"
      using update.hyps up by (auto simp: default_update_health_def split: sum.splits value_updated.splits)
    with False ok update.prems show ?thesis
      by simp
  qed
qed

lemma default_next_item_first:
  assumes inv: "default_inv members db" and "is_first (db_priorities db) p info" "healthy_enough info"
  shows "\<exists>it \<in> set (hb_items (pi_balancer info)). hi_health it = Healthy \<and> fst (default_next_item next_item h db) = Some (hi_item it)"
proof -
  have ok: "info_ok members info" and p: "map_of (db_priorities db) p = Some info"
    using inv assms(2) map_of_SomeD by (fastforce simp: default_inv_def is_first_def)+
  have "wrr_next_item None (priority_level_lb db) = (Some p, priority_level_lb db)"
    using inv assms(2,3) by (simp add: default_inv_def)
  with p have fst: "fst (default_next_item next_item h db) = fst (next_item h (hb_balancer (pi_balancer info)))"
    by (simp add: default_next_item_def healthy_next_item_def split_def Let_def)
  have "healthy_candidates (hb_items (pi_balancer info)) \<noteq> []"
    using ok assms(3) by (auto simp: info_ok_def healthy_enough_def)
  then obtain e where e: "fst (next_item h (hb_balancer (pi_balancer info))) = Some e"
    using ok ready by (fastforce simp: info_ok_def healthy_ready_def)
  then have "e \<in> members (hb_balancer (pi_balancer info))"
    by (metis next_item_member prod.collapse)
  with ok have "e \<in> set (healthy_candidates (hb_items (pi_balancer info)))"
    by (auto simp: info_ok_def healthy_inv_def)
  with fst e show ?thesis
    by (auto simp: set_healthy_candidates)
qed

end

section \<open>Construction\<close>

text \<open>What \<open>LocalityLbEndpointsBuilder::build\<close> gives: the counters are those of the endpoints.\<close>
definition locality_ok :: "('e \<Rightarrow> health_status) \<Rightarrow> 'e locality_lb_endpoints \<Rightarrow> bool" where
  "locality_ok health l \<longleftrightarrow>
     unat (total_endpoints l) = length (loc_endpoints l) \<and>
     unat (healthy_endpoints l) = length (filter (\<lambda>e. is_healthy (health e)) (loc_endpoints l))"

lemma healthy_candidates_new:
  "healthy_candidates (map (\<lambda>i. healthy_lb_item_new (health i) i) es) = filter (\<lambda>e. is_healthy (health e)) es"
  by (induction es) (simp_all add: healthy_lb_item_new_def is_healthy_def)

context ready_balancer_laws
begin

lemma add_locality_ok:
  assumes wf: "distinct (map fst ps)" "\<forall>(k, info) \<in> set ps. info_ok members info \<and> length (hb_items (pi_balancer info)) \<le> n"
    and l: "locality_ok health l" "loc_endpoints l \<noteq> []" and le: "n + length (loc_endpoints l) \<le> u32_max div 100"
  shows "distinct (map fst (add_locality from_iter dflt health ps l)) \<and>
    (\<forall>(k, info) \<in> set (add_locality from_iter dflt health ps l).
       info_ok members info \<and> length (hb_items (pi_balancer info)) \<le> n + length (loc_endpoints l))"
proof (cases "map_of ps (loc_priority l)")
  case None
  let ?b = "healthy_from_iter from_iter dflt health (loc_endpoints l)"
  have "hb_items ?b = map (\<lambda>i. healthy_lb_item_new (health i) i) (loc_endpoints l)"
    by (simp add: healthy_from_iter_def healthy_new_def healthy_reload_def)
  moreover have "healthy_inv members ?b" "healthy_ready members ?b"
    by (simp_all add: healthy_from_iter_def healthy_new_def healthy_reload_inv healthy_reload_ready)
  ultimately have "info_ok members \<lparr>pi_balancer = ?b, pi_healthy = healthy_endpoints l, pi_total = total_endpoints l\<rparr>"
    using l le by (simp add: info_ok_def locality_ok_def healthy_candidates_new)
  moreover have "loc_priority l \<notin> set (map fst ps)"
    using None by (simp add: map_of_eq_None_iff)
  ultimately show ?thesis
    using None wf \<open>hb_items ?b = _\<close> by (fastforce simp: add_locality_def)
next
  case (Some info)
  let ?b = "healthy_extend from_iter health (loc_endpoints l) (pi_balancer info)"
  let ?info = "\<lparr>pi_balancer = ?b, pi_healthy = pi_healthy info + healthy_endpoints l,
    pi_total = pi_total info + total_endpoints l\<rparr>"
  have info: "info_ok members info" "length (hb_items (pi_balancer info)) \<le> n"
    using wf(2) map_of_SomeD [OF Some] by auto
  have items: "hb_items ?b = hb_items (pi_balancer info) @ map (\<lambda>i. healthy_lb_item_new (health i) i) (loc_endpoints l)"
    by (simp add: healthy_extend_def healthy_reload_def)
  have inv: "healthy_inv members ?b" "healthy_ready members ?b"
    by (simp_all add: healthy_extend_def healthy_reload_inv healthy_reload_ready)
  have "unat (pi_healthy info) \<le> n" "unat (healthy_endpoints l) \<le> length (loc_endpoints l)"
    "unat (pi_total info) \<le> n" "unat (total_endpoints l) \<le> length (loc_endpoints l)"
    using info length_healthy_candidates_le [of "hb_items (pi_balancer info)"] l(1)
    by (simp_all add: info_ok_def locality_ok_def)
  then have "unat (pi_healthy info) + unat (healthy_endpoints l) \<le> u32_max"
    "unat (pi_total info) + unat (total_endpoints l) \<le> u32_max"
    using le by simp_all
  then have "unat (pi_healthy info + healthy_endpoints l) = unat (pi_healthy info) + unat (healthy_endpoints l)"
    "unat (pi_total info + total_endpoints l) = unat (pi_total info) + unat (total_endpoints l)"
    by (simp_all only: unat_plus_u32)
  with info l le items inv have "info_ok members ?info" "length (hb_items ?b) \<le> n + length (loc_endpoints l)"
    by (simp_all add: info_ok_def locality_ok_def healthy_candidates_new)
  then have "\<forall>(k, i) \<in> set (set_priority (loc_priority l) ?info ps).
      info_ok members i \<and> length (hb_items (pi_balancer i)) \<le> n + length (loc_endpoints l)"
    using wf(2) set_set_priority [of _ _ "loc_priority l" ?info ps] by fastforce
  with Some wf(1) show ?thesis
    by (simp add: add_locality_def)
qed

lemma add_localities_ok:
  assumes "\<forall>l \<in> set ls. locality_ok health l \<and> loc_endpoints l \<noteq> []"
    and "distinct (map fst ps)" "\<forall>(k, info) \<in> set ps. info_ok members info \<and> length (hb_items (pi_balancer info)) \<le> n"
    and "n + sum_list (map (\<lambda>l. length (loc_endpoints l)) ls) \<le> u32_max div 100"
  shows "distinct (map fst (foldl (add_locality from_iter dflt health) ps ls)) \<and>
    (\<forall>(k, info) \<in> set (foldl (add_locality from_iter dflt health) ps ls). info_ok members info)"
  using assms
proof (induction ls arbitrary: ps n)
  case (Cons l ls)
  note step = add_locality_ok [OF Cons.prems(2,3), of health l dflt]
  show ?case
    using Cons.IH [of "add_locality from_iter dflt health ps l" "n + length (loc_endpoints l)"] step Cons.prems(1,4)
    by (simp add: add.assoc)
qed auto

lemma default_from_slice_inv:
  assumes "f64_laws F" "\<forall>l \<in> set ls. locality_ok health l \<and> loc_endpoints l \<noteq> []"
    and "sum_list (map (\<lambda>l. length (loc_endpoints l)) ls) \<le> u32_max div 100"
  shows "\<exists>db. default_from_slice F from_iter dflt health ls = Ret db \<and> default_inv members db"
proof -
  let ?ps = "foldl (add_locality from_iter dflt health) [] ls"
  have ok: "distinct (map fst ?ps)" "\<forall>(k, info) \<in> set ?ps. info_ok members info"
    using add_localities_ok [OF assms(2), of "[]" 0 dflt] assms(3) by simp_all
  then have "\<forall>(k, v) \<in> set ?ps. pi_total v \<noteq> 0"
    using info_ok_healthy by fastforce
  then obtain lb where lb: "recalculate_priority_load_factors F ?ps = Ret lb"
    using calculate_priority_loads_Ret by blast
  then show ?thesis
    using recalculate_inv [OF assms(1) ok lb] by (simp add: default_from_slice_def)
qed

lemma default_reachable_first:
  assumes "f64_laws F" "\<forall>l \<in> set ls. locality_ok health l \<and> loc_endpoints l \<noteq> []"
    and "sum_list (map (\<lambda>l. length (loc_endpoints l)) ls) \<le> u32_max div 100"
  shows "\<exists>db0. default_from_slice F from_iter dflt health ls = Ret db0 \<and>
    (\<forall>db p info h. (default_step F from_iter eq next_item)\<^sup>*\<^sup>* db0 db \<longrightarrow>
       is_first (db_priorities db) p info \<longrightarrow> healthy_enough info \<longrightarrow>
       (\<exists>it \<in> set (hb_items (pi_balancer info)).
          hi_health it = Healthy \<and> fst (default_next_item next_item h db) = Some (hi_item it)))"
proof -
  obtain db0 where db0: "default_from_slice F from_iter dflt health ls = Ret db0" "default_inv members db0"
    using default_from_slice_inv [OF assms] by blast
  have "default_inv members db" if "(default_step F from_iter eq next_item)\<^sup>*\<^sup>* db0 db" for db
    using that db0(2) by (induction rule: rtranclp_induct) (auto intro: default_step_inv [OF assms(1)])
  then show ?thesis
    using db0(1) default_next_item_first by blast
qed

end

text \<open>C30: The balancer of a cluster keeps to the first priority while it is healthy enough.  Built from
  localities whose counters are right and that are not empty, the balancer exists (no division by zero),
  and whatever choices and health updates follow, as long as at least 72 percent of the endpoints of
  the first priority are healthy, every choice returns a healthy endpoint of the first priority.\<close>
theorem first_priority_serves:
  assumes "f64_laws F" "\<forall>l \<in> set ls. locality_ok health l \<and> loc_endpoints l \<noteq> []"
    and "sum_list (map (\<lambda>l. length (loc_endpoints l)) ls) \<le> u32_max div 100"
  shows "\<exists>db0. default_from_slice F (wrr_from_iter weight) (wrr_default weight) health ls = Ret db0 \<and>
    (\<forall>db p info h. (default_step F (wrr_from_iter weight) eq wrr_next_item)\<^sup>*\<^sup>* db0 db \<longrightarrow>
       is_first (db_priorities db) p info \<longrightarrow> healthy_enough info \<longrightarrow>
       (\<exists>it \<in> set (hb_items (pi_balancer info)).
          hi_health it = Healthy \<and> fst (default_next_item wrr_next_item h db) = Some (hi_item it)))"
  by (rule wrr.default_reachable_first [OF assms])

definition example_localities :: "nat locality_lb_endpoints list" where
  "example_localities =
     [\<lparr>loc_endpoints = [5], loc_priority = 1, healthy_endpoints = 1, total_endpoints = 1\<rparr>,
      \<lparr>loc_endpoints = [1, 2], loc_priority = 0, healthy_endpoints = 2, total_endpoints = 2\<rparr>,
      \<lparr>loc_endpoints = [3, 4], loc_priority = 0, healthy_endpoints = 2, total_endpoints = 2\<rparr>]"

theorem first_priority_serves_witness:
  "\<exists>db0 db. default_from_slice rat_f64 (wrr_from_iter (\<lambda>_. 1)) (wrr_default (\<lambda>_. 1)) (\<lambda>_. Healthy) example_localities = Ret db0 \<and>
     default_update_health rat_f64 (wrr_from_iter (\<lambda>_. 1)) (=) 1 Unhealthy db0 = Ret (Inr Updated, db) \<and>
     fst (default_next_item wrr_next_item None db) \<in> {Some 2, Some 3, Some 4}"
proof -
  let ?fi = "wrr_from_iter (\<lambda>_. 1) :: nat list \<Rightarrow> nat wrr_balancer" and ?d = "wrr_default (\<lambda>_. 1) :: nat wrr_balancer"
  note [simp] = healthy_lb_item_new_def
  have ok: "\<forall>l \<in> set example_localities. locality_ok (\<lambda>_. Healthy) l \<and> loc_endpoints l \<noteq> []"
    by (simp add: example_localities_def locality_ok_def is_healthy_def)
  obtain db0 where db0: "default_from_slice rat_f64 ?fi ?d (\<lambda>_. Healthy) example_localities = Ret db0"
    and first: "\<And>db p info h. (default_step rat_f64 ?fi (=) wrr_next_item)\<^sup>*\<^sup>* db0 db \<Longrightarrow>
       is_first (db_priorities db) p info \<Longrightarrow> healthy_enough info \<Longrightarrow>
       \<exists>it \<in> set (hb_items (pi_balancer info)). hi_health it = Healthy \<and> fst (default_next_item wrr_next_item h db) = Some (hi_item it)"
    using first_priority_serves [OF rat_f64_laws ok, of "\<lambda>_. 1" "(=)"] by (auto simp: example_localities_def)
  let ?b = "\<lambda>items. healthy_reload ?fi \<lparr>hb_items = items, hb_balancer = ?d\<rparr>"
  let ?p1 = "(1 :: u32, \<lparr>pi_balancer = ?b [\<lparr>hi_item = 5, hi_health = Healthy\<rparr>], pi_healthy = 1, pi_total = 1\<rparr>)"
  have ps0: "db_priorities db0 =
    [?p1, (0, \<lparr>pi_balancer = ?b [\<lparr>hi_item = 1, hi_health = Healthy\<rparr>, \<lparr>hi_item = 2, hi_health = Healthy\<rparr>,
        \<lparr>hi_item = 3, hi_health = Healthy\<rparr>, \<lparr>hi_item = 4, hi_health = Healthy\<rparr>], pi_healthy = 4, pi_total = 4\<rparr>)]"
    using db0
    by (auto simp: default_from_slice_def example_localities_def add_locality_def set_priority_def healthy_from_iter_def
        healthy_new_def healthy_extend_def healthy_reload_def panic_simps Let_def)
  let ?info = "\<lparr>pi_balancer = ?b [\<lparr>hi_item = 1, hi_health = Unhealthy\<rparr>, \<lparr>hi_item = 2, hi_health = Healthy\<rparr>,
        \<lparr>hi_item = 3, hi_health = Healthy\<rparr>, \<lparr>hi_item = 4, hi_health = Healthy\<rparr>], pi_healthy = 3, pi_total = 4\<rparr>"
  have up: "update_priorities ?fi (=) 1 Unhealthy (db_priorities db0) = (Inr Updated, [?p1, (0, ?info)])"
    by (simp add: ps0 healthy_update_health_def healthy_reload_def status_update_health_def is_healthy_def)
  obtain lb where lb: "recalculate_priority_load_factors rat_f64 [?p1, (0, ?info)] = Ret lb"
    using calculate_priority_loads_Ret [of "[?p1, (0, ?info)]" rat_f64] by auto
  let ?db = "\<lparr>priority_level_lb = lb, db_priorities = [?p1, (0, ?info)]\<rparr>"
  have upd: "default_update_health rat_f64 ?fi (=) 1 Unhealthy db0 = Ret (Inr Updated, ?db)"
    using up lb by (simp add: default_update_health_def)
  have "\<exists>it \<in> set (hb_items (pi_balancer ?info)). hi_health it = Healthy \<and> fst (default_next_item wrr_next_item None ?db) = Some (hi_item it)"
    by (rule first [where p = 0]) (use upd in \<open>auto simp: is_first_def healthy_enough_def intro: default_step.update\<close>)
  then have "fst (default_next_item wrr_next_item None ?db) \<in> {Some 2, Some 3, Some 4}"
    by (simp add: healthy_reload_def)
  with db0 upd show ?thesis by blast
qed

end
