(* ===== verification/Lb_Item.thy ===== *)
theory Lb_Item
  imports Balancer "HOL-Library.Multiset"
begin

text \<open>
  The weighted items the random, ring hash and Maglev balancers are built from (\<open>LbItem\<close> of
  \<open>orion-lib/src/clusters/balancers/default_balancer.rs\<close>) and the check of their total weight
  (\<open>collect_checked\<close>, the same in \<open>random.rs\<close>, \<open>ring.rs\<close> and \<open>maglev.rs\<close>).
\<close>

record 'e lb_item =
  lb_item_of :: 'e
  lb_weight :: u32

definition lb_item_new :: "u32 \<Rightarrow> 'e \<Rightarrow> 'e lb_item" where
  "lb_item_new weight item = \<lparr>lb_item_of = item, lb_weight = weight\<rparr>"

text \<open>\<open>take_while\<close> with the running total in the closure; the total is the second component.\<close>
fun collect_checked_from :: "u32 \<Rightarrow> 'e lb_item list \<Rightarrow> 'e lb_item list \<times> u32" where
  "collect_checked_from tot [] = ([], tot)"
| "collect_checked_from tot (it # items) =
     (case checked_add_u32 tot (lb_weight it) of
        None \<Rightarrow> ([], tot)
      | Some new_total \<Rightarrow> (let (taken, t) = collect_checked_from new_total items in (it # taken, t)))"

definition collect_checked :: "'e lb_item list \<Rightarrow> 'e lb_item list \<times> u32" where
  "collect_checked items = collect_checked_from 0 items"

abbreviation total_weight :: "'e lb_item list \<Rightarrow> nat" where
  "total_weight items \<equiv> sum_list (map (\<lambda>it. unat (lb_weight it)) items)"

lemma collect_checked_from_fits:
  "unat tot + total_weight items \<le> u32_max \<Longrightarrow>
   \<exists>t. collect_checked_from tot items = (items, t) \<and> unat t = unat tot + total_weight items"
proof (induction items arbitrary: tot)
  case (Cons it items)
  have le: "unat tot + unat (lb_weight it) \<le> u32_max"
    using Cons.prems by simp
  then have "unat (tot + lb_weight it) = unat tot + unat (lb_weight it)"
    by (simp add: unat_word_ariths)
  with Cons.prems Cons.IH [of "tot + lb_weight it"] le show ?case
    by (auto simp: checked_add_u32_def)
qed simp

lemma collect_checked_fits:
  "total_weight items \<le> u32_max \<Longrightarrow> \<exists>t. collect_checked items = (items, t) \<and> unat t = total_weight items"
  using collect_checked_from_fits [of 0 items] by (simp add: collect_checked_def)

text \<open>In any case the result is a prefix of the items, and the total is its weight.\<close>
lemma collect_checked_from_prefix:
  "collect_checked_from tot items = (taken, t) \<Longrightarrow>
   (\<exists>rest. items = taken @ rest) \<and> unat t = unat tot + total_weight taken"
proof (induction items arbitrary: tot taken t)
  case (Cons it items)
  show ?case
  proof (cases "checked_add_u32 tot (lb_weight it)")
    case (Some new_total)
    then have new: "unat new_total = unat tot + unat (lb_weight it)"
      by (auto simp: checked_add_u32_def unat_word_ariths split: if_splits)
    obtain s t' where rec: "collect_checked_from new_total items = (s, t')" by fastforce
    with Cons.IH [OF rec] Some Cons.prems new show ?thesis by auto
  qed (use Cons.prems in auto)
qed simp

lemma collect_checked_prefix:
  "collect_checked items = (taken, t) \<Longrightarrow> (\<exists>rest. items = taken @ rest) \<and> unat t = total_weight taken"
  using collect_checked_from_prefix [of 0 items taken t] by (simp add: collect_checked_def)

lemma collect_checked_subset: "set (fst (collect_checked items)) \<subseteq> set items"
  using collect_checked_prefix [of items] by (cases "collect_checked items") auto

text \<open>The first item is never dropped.\<close>
lemma collect_checked_nonempty: "items \<noteq> [] \<Longrightarrow> fst (collect_checked items) \<noteq> []"
  by (cases items) (simp_all add: collect_checked_def checked_add_u32_def split_def Let_def)

end
