(* ===== verification/Maglev.thy ===== *)
theory Maglev
  imports Lb_Item F64 "HOL-Library.List_Lexorder" "HOL-Library.Char_ord"
begin

unbundle bit_operations_syntax

text \<open>
  The Maglev balancer (\<open>orion-lib/src/clusters/balancers/maglev.rs\<close>): the lookup table of a prime
  number of entries, filled by walking a permutation of the entries per endpoint, and the compile-time
  primality test of its size.

  The hash (\<open>hash_one_with_seed\<close>, the crate twox-hash), the authority of an endpoint and the arithmetic
  on \<open>f64\<close> are arguments.  A \<open>usize\<close> is a natural number: for the table sizes used the products
  of the walk stay below \<open>2\<^sup>6\<^sup>4\<close>.
\<close>

section \<open>Primality\<close>

text \<open>\<open>next_power_of_two().trailing_zeros()\<close>.\<close>
fun next_power_of_two_exp :: "nat \<Rightarrow> nat" where
  "next_power_of_two_exp n = (if n \<le> 1 then 0 else Suc (next_power_of_two_exp ((n + 1) div 2)))"

declare next_power_of_two_exp.simps [simp del]

text \<open>The loop ends for every start: a step of 0 is followed by one of 6.\<close>
function is_prime_loop :: "nat \<Rightarrow> nat \<Rightarrow> nat \<Rightarrow> nat \<Rightarrow> bool" where
  "is_prime_loop n upper_bound current incr =
     (if current \<le> upper_bound
      then (if n mod current = 0 then False
            else is_prime_loop n upper_bound (current + incr) (incr XOR 6))
      else True)"
  by pat_completeness auto
termination
  by (relation "measures [\<lambda>(n, upper_bound, current, incr). Suc upper_bound - current,
    \<lambda>(n, upper_bound, current, incr). if incr = 0 then 1 else 0]") auto

declare is_prime_loop.simps [simp del]

definition is_prime :: "nat \<Rightarrow> bool" where
  "is_prime n =
     (if n \<le> 1 then False
      else if n \<le> 3 then True
      else let next_square = next_power_of_two_exp n + 1;
               upper_bound = push_bit (next_square div 2) 1
           in if n mod 2 = 0 \<or> n mod 3 = 0 then False
              else is_prime_loop n upper_bound 5 2)"

section \<open>Table and permutations\<close>

record table_builder =
  tb_table :: "nat option list"
  tb_size :: nat

definition table_builder_new :: "nat \<Rightarrow> table_builder" where
  "table_builder_new table_size = \<lparr>tb_table = replicate table_size None, tb_size = 0\<rparr>"

text \<open>\<open>None\<close> is \<open>Err(())\<close>.\<close>
definition try_update :: "table_builder \<Rightarrow> nat \<Rightarrow> nat \<Rightarrow> table_builder option" where
  "try_update tb index value =
     (if index < length (tb_table tb)
      then (case tb_table tb ! index of
              None \<Rightarrow> Some \<lparr>tb_table = (tb_table tb)[index := Some value], tb_size = tb_size tb + 1\<rparr>
            | Some _ \<Rightarrow> None)
      else None)"

definition is_full :: "nat \<Rightarrow> table_builder \<Rightarrow> bool" where
  "is_full table_size tb \<longleftrightarrow> tb_size tb \<ge> table_size"

definition table_build :: "table_builder \<Rightarrow> nat list" where
  "table_build tb = map (\<lambda>entry. case entry of Some i \<Rightarrow> i | None \<Rightarrow> 0) (tb_table tb)"

record 'f permutation =
  perm_offset :: nat
  perm_skip :: nat
  perm_weight :: 'f
  perm_current_weight :: 'f
  perm_target_weight :: 'f
  perm_next :: nat

definition permutation_new :: "(str \<Rightarrow> u64 \<Rightarrow> u64) \<Rightarrow> nat \<Rightarrow> str \<Rightarrow> 'f \<Rightarrow> 'f \<Rightarrow> 'f permutation" where
  "permutation_new hash_one table_size authority weight target_weight =
     \<lparr>perm_offset = unat (hash_one authority 0) mod table_size,
      perm_skip = unat (hash_one authority 1) mod (table_size - 1) + 1,
      perm_weight = weight, perm_current_weight = target_weight, perm_target_weight = target_weight, perm_next = 0\<rparr>"

definition has_enough_weight_after_iterating :: "('f, 'a) f64_ops_scheme \<Rightarrow> 'f permutation \<Rightarrow> bool \<times> 'f permutation" where
  "has_enough_weight_after_iterating F p =
     (let current = f_add F (perm_current_weight p) (perm_weight p);
          has_reached_target = f_le F (perm_target_weight p) current
      in (has_reached_target,
          p\<lparr>perm_current_weight := (if has_reached_target then f_sub F current (perm_target_weight p) else current)\<rparr>))"

definition permutation_next :: "nat \<Rightarrow> 'f permutation \<Rightarrow> nat \<times> 'f permutation" where
  "permutation_next table_size p =
     ((perm_offset p + perm_skip p * perm_next p) mod table_size, p\<lparr>perm_next := perm_next p + 1\<rparr>)"

section \<open>Filling the table\<close>

text \<open>The innermost loop, of at most \<open>TABLE_SIZE\<close> steps.\<close>
fun try_slots :: "nat \<Rightarrow> nat \<Rightarrow> nat \<Rightarrow> table_builder \<Rightarrow> 'f permutation \<Rightarrow> table_builder \<times> 'f permutation" where
  "try_slots table_size 0 item_index tb p = (tb, p)"
| "try_slots table_size (Suc k) item_index tb p =
     (let (index, p') = permutation_next table_size p in
      case try_update tb index item_index of
        Some tb' \<Rightarrow> (tb', p')
      | None \<Rightarrow> try_slots table_size k item_index tb p')"

text \<open>\<open>'item_loop\<close>; the first component tells that the table is full (\<open>break 'table_loop\<close>).\<close>
fun item_loop ::
  "('f, 'a) f64_ops_scheme \<Rightarrow> nat \<Rightarrow> nat \<Rightarrow> table_builder \<Rightarrow> 'f permutation list \<Rightarrow> bool \<times> table_builder \<times> 'f permutation list" where
  "item_loop F table_size item_index tb [] = (False, tb, [])"
| "item_loop F table_size item_index tb (p # ps) =
     (if is_full table_size tb then (True, tb, p # ps)
      else let (enough, p1) = has_enough_weight_after_iterating F p;
               (tb1, p2) = (if enough then try_slots table_size table_size item_index tb p1 else (tb, p1));
               (full, tb2, ps2) = item_loop F table_size (item_index + 1) tb1 ps
           in (full, tb2, p2 # ps2))"

fun table_loop ::
  "('f, 'a) f64_ops_scheme \<Rightarrow> nat \<Rightarrow> nat \<Rightarrow> table_builder \<Rightarrow> 'f permutation list \<Rightarrow> table_builder" where
  "table_loop F table_size 0 tb ps = tb"
| "table_loop F table_size (Suc k) tb ps =
     (case item_loop F table_size 0 tb ps of
        (True, tb', ps') \<Rightarrow> tb'
      | (False, tb', ps') \<Rightarrow> table_loop F table_size k tb' ps')"

section \<open>The balancer\<close>

record 'e maglev_balancer =
  mg_items :: "'e lb_item list"
  mg_table :: "nat list"

definition authority_sorting_key :: "str \<Rightarrow> str" where
  "authority_sorting_key authority = map to_ascii_lowercase_byte authority"

definition default_table_size :: nat where
  "default_table_size = 65537"

definition maglev_permutations ::
  "('f, 'a) f64_ops_scheme \<Rightarrow> (str \<Rightarrow> u64 \<Rightarrow> u64) \<Rightarrow> ('e \<Rightarrow> str) \<Rightarrow> nat \<Rightarrow> u32 \<Rightarrow> 'f \<Rightarrow> 'e lb_item list \<Rightarrow> 'f permutation list" where
  "maglev_permutations F hash_one authority table_size tot max_normalized_weight items =
     map (\<lambda>it. permutation_new hash_one table_size (authority (lb_item_of it))
            (f_div F (f_from_u32 F (lb_weight it)) (f_from_u32 F tot)) max_normalized_weight) items"

definition maglev_with_size ::
  "('f, 'a) f64_ops_scheme \<Rightarrow> (str \<Rightarrow> u64 \<Rightarrow> u64) \<Rightarrow> ('e \<Rightarrow> str) \<Rightarrow> nat \<Rightarrow> 'e lb_item list \<Rightarrow> 'e maglev_balancer" where
  "maglev_with_size F hash_one authority table_size items0 =
     (let (collected, tot) = collect_checked items0;
          items = sort_key (\<lambda>it. authority_sorting_key (authority (lb_item_of it))) collected;
          max_normalized_weight = iter_reduce (f_max F) (map (\<lambda>it. f_div F (f_from_u32 F (lb_weight it)) (f_from_u32 F tot)) items);
          table = (case max_normalized_weight of
             None \<Rightarrow> []
           | Some w \<Rightarrow>
               if length items = 1 then [0]
               else table_build (table_loop F table_size table_size (table_builder_new table_size)
                      (maglev_permutations F hash_one authority table_size tot w items)))
      in \<lparr>mg_items = items, mg_table = table\<rparr>)"

definition maglev_new ::
  "('f, 'a) f64_ops_scheme \<Rightarrow> (str \<Rightarrow> u64 \<Rightarrow> u64) \<Rightarrow> ('e \<Rightarrow> str) \<Rightarrow> 'e lb_item list \<Rightarrow> 'e maglev_balancer" where
  "maglev_new F hash_one authority items = maglev_with_size F hash_one authority default_table_size items"

definition maglev_default ::
  "('f, 'a) f64_ops_scheme \<Rightarrow> (str \<Rightarrow> u64 \<Rightarrow> u64) \<Rightarrow> ('e \<Rightarrow> str) \<Rightarrow> 'e maglev_balancer" where
  "maglev_default F hash_one authority = maglev_new F hash_one authority []"

definition maglev_from_iter ::
  "('f, 'a) f64_ops_scheme \<Rightarrow> (str \<Rightarrow> u64 \<Rightarrow> u64) \<Rightarrow> ('e \<Rightarrow> str) \<Rightarrow> ('e \<Rightarrow> u32) \<Rightarrow> 'e list \<Rightarrow> 'e maglev_balancer" where
  "maglev_from_iter F hash_one authority weight es = maglev_new F hash_one authority (map (\<lambda>e. lb_item_new (weight e) e) es)"

text \<open>\<open>random\<close> is the value \<open>rand::rng().random()\<close> draws.\<close>
definition maglev_next_item :: "u64 \<Rightarrow> u64 option \<Rightarrow> 'e maglev_balancer \<Rightarrow> 'e option \<times> 'e maglev_balancer" where
  "maglev_next_item random hash b =
     (if length (mg_items b) \<le> 1
      then (case mg_items b of [] \<Rightarrow> None | it # _ \<Rightarrow> Some (lb_item_of it), b)
      else let h = (case hash of Some h \<Rightarrow> h | None \<Rightarrow> random);
               table_index = unat h mod length (mg_table b)
           in (if table_index < length (mg_table b) \<and> mg_table b ! table_index < length (mg_items b)
               then Some (lb_item_of (mg_items b ! (mg_table b ! table_index))) else None, b))"

definition maglev_members :: "'e maglev_balancer \<Rightarrow> 'e set" where
  "maglev_members b = lb_item_of ` set (mg_items b)"

section \<open>Correctness of the primality test\<close>

definition prime_nat :: "nat \<Rightarrow> bool" where
  "prime_nat n \<longleftrightarrow> 1 < n \<and> (\<forall>d. d dvd n \<longrightarrow> d = 1 \<or> d = n)"

lemma next_power_of_two_exp_ge: "n \<le> 2 ^ next_power_of_two_exp n"
proof (induction n rule: next_power_of_two_exp.induct)
  case (1 n)
  show ?case
  proof (cases "n \<le> 1")
    case False
    with 1 have "(n + 1) div 2 \<le> 2 ^ next_power_of_two_exp ((n + 1) div 2)"
      by simp
    then have "n \<le> 2 * 2 ^ next_power_of_two_exp ((n + 1) div 2)"
      by linarith
    with False show ?thesis
      by (subst next_power_of_two_exp.simps) simp
  qed (simp add: next_power_of_two_exp.simps)
qed

lemma smallest_divisor_bound:
  assumes "1 < n" "\<not> prime_nat n" "n \<le> b * b"
  obtains d where "1 < d" "d \<le> b" "d dvd n" "d < n"
proof -
  obtain d e where d: "n = d * e" "d \<noteq> 1" "d \<noteq> n"
    using assms(1,2) by (auto simp: prime_nat_def dvd_def)
  then have "1 < d" "1 < e" "d < n" "e < n"
    using assms(1) by (cases d; cases e; auto)+
  moreover have "d \<le> b \<or> e \<le> b"
  proof (rule ccontr)
    assume "\<not> (d \<le> b \<or> e \<le> b)"
    then have "b * b < d * e"
      by (simp add: mult_strict_mono)
    with assms(3) d(1) show False by simp
  qed
  ultimately show thesis
    using that [of d] that [of e] unfolding d(1) by auto
qed

lemma next_power_of_two_exp_lt: "1 < n \<Longrightarrow> 2 ^ (next_power_of_two_exp n - 1) < n"
proof (induction n rule: next_power_of_two_exp.induct)
  case (1 n)
  let ?m = "(n + 1) div 2"
  have e: "next_power_of_two_exp n - 1 = next_power_of_two_exp ?m"
    using "1.prems" by (subst next_power_of_two_exp.simps) simp
  show ?case
  proof (cases "1 < ?m")
    case True
    then have "0 < next_power_of_two_exp ?m"
      by (subst next_power_of_two_exp.simps) simp
    then have "(2 :: nat) ^ next_power_of_two_exp ?m = 2 * 2 ^ (next_power_of_two_exp ?m - 1)"
      by (metis One_nat_def Suc_pred power_Suc)
    moreover have "2 ^ (next_power_of_two_exp ?m - 1) < ?m"
      using 1 True by simp
    ultimately show ?thesis
      unfolding e by linarith
  next
    case False
    then have "next_power_of_two_exp ?m = 0"
      by (simp add: next_power_of_two_exp.simps)
    with "1.prems" show ?thesis unfolding e by simp
  qed
qed

text \<open>The candidates are the numbers above 3 that neither 2 nor 3 divides.\<close>
lemma is_prime_loop_correct:
  assumes "\<not> 2 dvd n" "\<not> 3 dvd n" "4 < current"
    and "(incr = 2 \<and> current mod 6 = 5) \<or> (incr = 4 \<and> current mod 6 = 1)"
  shows "is_prime_loop n b current incr \<longleftrightarrow> (\<forall>d. current \<le> d \<longrightarrow> d \<le> b \<longrightarrow> \<not> d dvd n)"
  using assms
proof (induction n b current incr rule: is_prime_loop.induct)
  case (1 n b current incr)
  have nd: "\<not> d dvd n" if "current < d" "d < current + incr" for d
  proof -
    define q where "q = current div 6"
    have "(incr = 2 \<and> current = 6 * q + 5) \<or> (incr = 4 \<and> current = 6 * q + 1)"
      using "1.prems"(4) unfolding q_def by (metis mult_div_mod_eq)
    with that have "d = 2 * (3 * q + 3) \<or> d = 2 * (3 * q + 1) \<or> d = 3 * (2 * q + 1) \<or> d = 2 * (3 * q + 2)"
      by arith
    then have "2 dvd d \<or> 3 dvd d"
      by (elim disjE) simp_all
    with "1.prems"(1,2) show ?thesis
      by (meson dvd_trans)
  qed
  have xor: "(2 XOR 6 :: nat) = 4" "(4 XOR 6 :: nat) = 2"
    by simp_all
  show ?case
  proof (cases "current \<le> b \<and> n mod current \<noteq> 0")
    case True
    have "(incr XOR 6 = 2 \<and> (current + incr) mod 6 = 5) \<or> (incr XOR 6 = 4 \<and> (current + incr) mod 6 = 1)"
      using "1.prems"(4) xor by (auto simp: mod_add_left_eq [of current 6, symmetric] simp del: mod_add_left_eq)
    then have "is_prime_loop n b (current + incr) (incr XOR 6) \<longleftrightarrow> (\<forall>d. current + incr \<le> d \<longrightarrow> d \<le> b \<longrightarrow> \<not> d dvd n)"
      using True "1.IH" "1.prems"(1-3) by simp
    then have loop: "is_prime_loop n b current incr \<longleftrightarrow> (\<forall>d. current + incr \<le> d \<longrightarrow> d \<le> b \<longrightarrow> \<not> d dvd n)"
      using True by (subst is_prime_loop.simps) simp
    have "\<not> current dvd n"
      using True by (simp add: dvd_eq_mod_eq_0)
    have "\<not> d dvd n" if above: "\<forall>d. current + incr \<le> d \<longrightarrow> d \<le> b \<longrightarrow> \<not> d dvd n" and d: "current \<le> d" "d \<le> b" for d
    proof -
      consider "d = current" | "current < d" "d < current + incr" | "current + incr \<le> d"
        using d(1) by linarith
      then show ?thesis
        by cases (use above d(2) nd \<open>\<not> current dvd n\<close> in auto)
    qed
    then show ?thesis
      unfolding loop by auto
  next
    case False
    then show ?thesis
      by (subst is_prime_loop.simps) (auto simp: dvd_eq_mod_eq_0)
  qed
qed

lemma upper_bound_lt:
  assumes "3 < n"
  shows "(2 :: nat) ^ ((next_power_of_two_exp n + 1) div 2) < n"
proof -
  have "\<not> next_power_of_two_exp n \<le> 1"
  proof
    assume "next_power_of_two_exp n \<le> 1"
    then have "(2 :: nat) ^ next_power_of_two_exp n \<le> 2 ^ 1"
      by (rule power_increasing) simp
    with next_power_of_two_exp_ge [of n] assms show False by simp
  qed
  then have "(2 :: nat) ^ ((next_power_of_two_exp n + 1) div 2) \<le> 2 ^ (next_power_of_two_exp n - 1)"
    by (intro power_increasing) simp_all
  also have "\<dots> < n"
    using next_power_of_two_exp_lt [of n] assms by simp
  finally show ?thesis .
qed

lemma is_prime_iff: "is_prime n \<longleftrightarrow> prime_nat n"
proof -
  let ?b = "2 ^ ((next_power_of_two_exp n + 1) div 2) :: nat"
  have "n \<le> ?b * ?b"
  proof -
    have "next_power_of_two_exp n \<le> 2 * ((next_power_of_two_exp n + 1) div 2)"
      by simp
    then have "(2 :: nat) ^ next_power_of_two_exp n \<le> 2 ^ (2 * ((next_power_of_two_exp n + 1) div 2))"
      by (rule power_increasing) simp
    also have "\<dots> = ?b * ?b"
      by (simp add: mult_2 power_add)
    finally show ?thesis
      using next_power_of_two_exp_ge le_trans by blast
  qed
  have ub: "push_bit ((next_power_of_two_exp n + 1) div 2) 1 = ?b"
    by (simp add: push_bit_eq_mult)
  consider "n \<le> 3" | (div) "3 < n" "2 dvd n \<or> 3 dvd n" | (loop) "3 < n" "\<not> 2 dvd n" "\<not> 3 dvd n"
    by linarith
  then show ?thesis
  proof cases
    case 1
    have "d = 1 \<or> d = m" if "d dvd m" "m = 2 \<or> m = 3" for d m :: nat
    proof -
      have "d \<le> 3" using that dvd_imp_le [of d m] by auto
      then have "d = 0 \<or> d = 1 \<or> d = 2 \<or> d = 3" by linarith
      with that show ?thesis by auto
    qed
    then have small: "prime_nat 2" "prime_nat 3"
      by (simp_all add: prime_nat_def)
    consider "n \<le> 1" | "n = 2" | "n = 3"
      using 1 by linarith
    then show ?thesis
      by cases (use small in \<open>simp_all add: is_prime_def prime_nat_def\<close>)
  next
    case div
    then show ?thesis
      by (auto simp: is_prime_def prime_nat_def dvd_eq_mod_eq_0 Let_def)
  next
    case loop
    have "prime_nat n \<longleftrightarrow> (\<forall>d. 5 \<le> d \<longrightarrow> d \<le> ?b \<longrightarrow> \<not> d dvd n)"
    proof
      assume "prime_nat n"
      with upper_bound_lt [OF loop(1)] show "\<forall>d. 5 \<le> d \<longrightarrow> d \<le> ?b \<longrightarrow> \<not> d dvd n"
        by (auto simp: prime_nat_def)
    next
      assume none: "\<forall>d. 5 \<le> d \<longrightarrow> d \<le> ?b \<longrightarrow> \<not> d dvd n"
      show "prime_nat n"
      proof (rule ccontr)
        assume "\<not> prime_nat n"
        then obtain d where d: "1 < d" "d \<le> ?b" "d dvd n"
          using smallest_divisor_bound [of n ?b] loop(1) \<open>n \<le> ?b * ?b\<close> by auto
        with none have "d < 5" by (meson not_le)
        with d(1) have "d = 2 \<or> d = 3 \<or> d = 4" by linarith
        with d(3) loop(2,3) show False
          by (auto dest: dvd_trans [of 2 4 n, simplified])
      qed
    qed
    then show ?thesis
      using loop is_prime_loop_correct [of n 5 2 ?b] by (simp add: is_prime_def Let_def ub dvd_eq_mod_eq_0)
  qed
qed

text \<open>C31: The primality test that guards the table size at compile time is correct: it accepts exactly the
  numbers above one whose only divisors are one and themselves.\<close>
theorem is_prime_correct: "is_prime n \<longleftrightarrow> 1 < n \<and> {d. d dvd n} = {1, n}"
  by (auto simp: is_prime_iff prime_nat_def)

section \<open>The walk of a permutation\<close>

lemma prime_nat_coprime: "prime_nat N \<Longrightarrow> 1 \<le> s \<Longrightarrow> s < N \<Longrightarrow> coprime s N"
proof (rule coprimeI)
  fix d
  assume N: "prime_nat N" "1 \<le> s" "s < N" and d: "d dvd s" "d dvd N"
  then have "d \<le> s" by (simp add: dvd_imp_le)
  with N d(2) show "is_unit d" by (auto simp: prime_nat_def)
qed

lemma walk_covers:
  fixes N s :: nat
  assumes "coprime s N" "i < N"
  shows "\<exists>k < N. (a + s * (m + k)) mod N = i"
proof -
  let ?f = "\<lambda>k. (a + s * (m + k)) mod N"
  have "inj_on ?f {..<N}"
  proof (rule linorder_inj_onI)
    fix j k
    assume jk: "j < k" "j \<in> {..<N}" "k \<in> {..<N}"
    show "?f j \<noteq> ?f k"
    proof
      assume "?f j = ?f k"
      then have "N dvd (a + s * (m + k)) - (a + s * (m + j))"
        by (metis mod_eq_dvd_iff_nat jk(1) add_le_mono le_refl less_imp_le mult_le_mono2)
      moreover have "(a + s * (m + k)) - (a + s * (m + j)) = s * (k - j)"
        by (simp add: diff_mult_distrib2 algebra_simps)
      ultimately have "N dvd k - j"
        using assms(1) by (simp add: coprime_commute coprime_dvd_mult_right_iff)
      with jk show False
        by (auto dest: dvd_imp_le)
    qed
  qed auto
  moreover have "?f ` {..<N} \<subseteq> {..<N}"
    using assms(2) by auto
  ultimately have "?f ` {..<N} = {..<N}"
    by (intro endo_inj_surj) simp_all
  moreover have "i \<in> {..<N}"
    using assms(2) by simp
  ultimately obtain k where "k \<in> {..<N}" "?f k = i"
    by (metis (no_types, lifting) imageE)
  then show ?thesis by blast
qed

section \<open>Filling the table\<close>

definition table_ok :: "nat \<Rightarrow> nat \<Rightarrow> table_builder \<Rightarrow> bool" where
  "table_ok N n tb \<longleftrightarrow> length (tb_table tb) = N \<and> tb_size tb = length (filter (\<lambda>e. e \<noteq> None) (tb_table tb)) \<and>
     (\<forall>i. Some i \<in> set (tb_table tb) \<longrightarrow> i < n)"

text \<open>Entries are never overwritten.\<close>
definition table_extends :: "table_builder \<Rightarrow> table_builder \<Rightarrow> bool" where
  "table_extends tb tb' \<longleftrightarrow> (\<forall>i. Some i \<in> set (tb_table tb) \<longrightarrow> Some i \<in> set (tb_table tb'))"

definition perm_ok :: "nat \<Rightarrow> 'f permutation \<Rightarrow> bool" where
  "perm_ok N p \<longleftrightarrow> coprime (perm_skip p) N"

lemma table_extends_refl [simp]: "table_extends tb tb"
  by (simp add: table_extends_def)

lemma table_extends_trans: "table_extends a b \<Longrightarrow> table_extends b c \<Longrightarrow> table_extends a c"
  by (simp add: table_extends_def)

lemma length_filter_update:
  "i < length xs \<Longrightarrow> \<not> P (xs ! i) \<Longrightarrow> P y \<Longrightarrow> length (filter P (xs[i := y])) = Suc (length (filter P xs))"
  by (induction xs arbitrary: i) (auto split: nat.splits)

lemma try_update_Some:
  assumes "try_update tb index v = Some tb'" "table_ok N n tb" "v < n"
  shows "table_ok N n tb' \<and> table_extends tb tb' \<and> tb_size tb' = Suc (tb_size tb) \<and> Some v \<in> set (tb_table tb')"
proof -
  have i: "index < length (tb_table tb)" "tb_table tb ! index = None"
    and tb': "tb' = \<lparr>tb_table = (tb_table tb)[index := Some v], tb_size = tb_size tb + 1\<rparr>"
    using assms(1) by (auto simp: try_update_def split: if_splits option.splits)
  have "Some j \<in> set ((tb_table tb)[index := Some v])" if "Some j \<in> set (tb_table tb)" for j
    using that i by (metis in_set_conv_nth length_list_update nth_list_update_neq option.distinct(1))
  moreover have "j < n" if "Some j \<in> set ((tb_table tb)[index := Some v])" for j
    using that assms(2,3) set_update_subset_insert [of "tb_table tb" index "Some v"] by (auto simp: table_ok_def)
  ultimately show ?thesis
    using assms(2) i length_filter_update [of index "tb_table tb" "\<lambda>e. e \<noteq> None" "Some v"]
    by (auto simp: tb' table_ok_def table_extends_def set_update_memI)
qed

lemma try_update_None:
  "try_update tb index v = None \<Longrightarrow> index < length (tb_table tb) \<Longrightarrow> tb_table tb ! index \<noteq> None"
  by (auto simp: try_update_def split: option.splits)

text \<open>The walk finds a free entry within as many steps as there are entries.\<close>
lemma try_slots_spec:
  assumes "try_slots N k v tb p = (tb', p')" "table_ok N n tb" "v < n"
    and "\<exists>j < k. \<exists>i < N. (perm_offset p + perm_skip p * (perm_next p + j)) mod N = i \<and> tb_table tb ! i = None"
  shows "table_ok N n tb' \<and> table_extends tb tb' \<and> tb_size tb' = Suc (tb_size tb) \<and> Some v \<in> set (tb_table tb') \<and>
    (\<exists>m. p' = p\<lparr>perm_next := m\<rparr>)"
  using assms
proof (induction k arbitrary: p)
  case (Suc k)
  let ?i = "(perm_offset p + perm_skip p * perm_next p) mod N" and ?p = "p\<lparr>perm_next := perm_next p + 1\<rparr>"
  show ?case
  proof (cases "try_update tb ?i v")
    case (Some tb1)
    then have "tb' = tb1" "p' = ?p"
      using Suc.prems(1) by (simp_all add: permutation_next_def)
    with try_update_Some [OF Some Suc.prems(2,3)] show ?thesis by blast
  next
    case None
    then have rec: "try_slots N k v tb ?p = (tb', p')"
      using Suc.prems(1) by (simp add: permutation_next_def)
    obtain j i where j: "j < Suc k" "i < N" "(perm_offset p + perm_skip p * (perm_next p + j)) mod N = i" "tb_table tb ! i = None"
      using Suc.prems(4) by blast
    have "j \<noteq> 0"
    proof
      assume "j = 0"
      with j have "?i < length (tb_table tb)" "tb_table tb ! ?i = None"
        using Suc.prems(2) by (simp_all add: table_ok_def)
      with try_update_None [OF None] show False by simp
    qed
    then obtain j' where "j = Suc j'" by (cases j) auto
    with j have "\<exists>j < k. \<exists>i < N. (perm_offset ?p + perm_skip ?p * (perm_next ?p + j)) mod N = i \<and> tb_table tb ! i = None"
      by (intro exI [of _ j']) auto
    from Suc.IH [OF rec Suc.prems(2,3) this] show ?thesis by auto
  qed
qed simp

lemma not_full_free:
  assumes "table_ok N n tb" "\<not> is_full N tb"
  shows "\<exists>i < N. tb_table tb ! i = None"
proof (rule ccontr)
  assume "\<not> ?thesis"
  then have "\<forall>e \<in> set (tb_table tb). e \<noteq> None"
    using assms(1) by (auto simp: table_ok_def in_set_conv_nth)
  then have "filter (\<lambda>e. e \<noteq> None) (tb_table tb) = tb_table tb"
    by (simp add: filter_id_conv)
  with assms show False by (simp add: table_ok_def is_full_def)
qed

lemma try_slots_progress:
  assumes "try_slots N N v tb p = (tb', p')" "table_ok N n tb" "v < n" "perm_ok N p" "\<not> is_full N tb"
  shows "table_ok N n tb' \<and> table_extends tb tb' \<and> tb_size tb' = Suc (tb_size tb) \<and> Some v \<in> set (tb_table tb') \<and>
    (\<exists>m. p' = p\<lparr>perm_next := m\<rparr>)"
proof (rule try_slots_spec [OF assms(1-3)])
  obtain i where i: "i < N" "tb_table tb ! i = None"
    using not_full_free [OF assms(2,5)] by blast
  moreover obtain k where "k < N" "(perm_offset p + perm_skip p * (perm_next p + k)) mod N = i"
    using walk_covers [of "perm_skip p" N i] assms(4) i(1) by (auto simp: perm_ok_def)
  ultimately show "\<exists>j < N. \<exists>i < N. (perm_offset p + perm_skip p * (perm_next p + j)) mod N = i \<and> tb_table tb ! i = None"
    by blast
qed

text \<open>The item of the greatest weight takes an entry in every round.\<close>
definition leader :: "('f, 'a) f64_ops_scheme \<Rightarrow> 'f permutation \<Rightarrow> bool" where
  "leader F p \<longleftrightarrow> perm_current_weight p = perm_target_weight p \<and> perm_weight p = perm_target_weight p \<and>
     f_le F (f_zero F) (perm_target_weight p) \<and> f_le F (perm_target_weight p) (f_from_u32 F 1)"

definition fresh :: "('f, 'a) f64_ops_scheme \<Rightarrow> 'f permutation \<Rightarrow> bool" where
  "fresh F p \<longleftrightarrow> perm_current_weight p = perm_target_weight p \<and>
     f_le F (f_zero F) (perm_target_weight p) \<and> f_le F (f_zero F) (perm_weight p)"

lemma leader_has_enough: "f64_laws F \<Longrightarrow> leader F p \<Longrightarrow> has_enough_weight_after_iterating F p = (True, p)"
  using f64_lawsD(14,19) [of F "perm_target_weight p"]
  by (simp add: leader_def has_enough_weight_after_iterating_def Let_def)

lemma fresh_has_enough: "f64_laws F \<Longrightarrow> fresh F p \<Longrightarrow> fst (has_enough_weight_after_iterating F p)"
  using f64_lawsD(14) [of F "perm_target_weight p" "perm_weight p"]
  by (simp add: fresh_def has_enough_weight_after_iterating_def Let_def)

lemma perm_ok_has_enough [simp]: "perm_ok N (snd (has_enough_weight_after_iterating F p)) = perm_ok N p"
  by (simp add: perm_ok_def has_enough_weight_after_iterating_def Let_def)

lemma perm_ok_next [simp]: "perm_ok N (p\<lparr>perm_next := m\<rparr>) = perm_ok N p"
  by (simp add: perm_ok_def)

lemma leader_next [simp]: "leader F (p\<lparr>perm_next := m\<rparr>) = leader F p"
  by (simp add: leader_def)

text \<open>One item of a round.\<close>
lemma item_step:
  assumes "f64_laws F" "table_ok N n tb" "v < n" "perm_ok N p" "\<not> is_full N tb"
    and he: "has_enough_weight_after_iterating F p = (enough, p1)"
    and st: "(if enough then try_slots N N v tb p1 else (tb, p1)) = (tb1, p2)"
  shows "table_ok N n tb1" "table_extends tb tb1" "perm_ok N p2" "leader F p \<longrightarrow> enough \<and> leader F p2"
    "enough \<Longrightarrow> tb_size tb1 = Suc (tb_size tb) \<and> Some v \<in> set (tb_table tb1)" "\<not> enough \<Longrightarrow> tb1 = tb"
proof -
  have p1: "perm_ok N p1"
    using perm_ok_has_enough [of N F p] he assms(4) by simp
  have lead: "leader F p \<longrightarrow> enough \<and> p1 = p"
    using leader_has_enough [OF assms(1), of p] he by auto
  have "table_ok N n tb1 \<and> table_extends tb tb1 \<and> perm_ok N p2 \<and> (leader F p \<longrightarrow> enough \<and> leader F p2) \<and>
    (enough \<longrightarrow> tb_size tb1 = Suc (tb_size tb) \<and> Some v \<in> set (tb_table tb1)) \<and> (\<not> enough \<longrightarrow> tb1 = tb)"
  proof (cases enough)
    case True
    then have "try_slots N N v tb p1 = (tb1, p2)" using st by simp
    from try_slots_progress [OF this assms(2,3) p1 assms(5)] True p1 lead show ?thesis by auto
  next
    case False
    with st assms(2) p1 lead show ?thesis by auto
  qed
  then show "table_ok N n tb1" "table_extends tb tb1" "perm_ok N p2" "leader F p \<longrightarrow> enough \<and> leader F p2"
    "enough \<Longrightarrow> tb_size tb1 = Suc (tb_size tb) \<and> Some v \<in> set (tb_table tb1)" "\<not> enough \<Longrightarrow> tb1 = tb"
    by auto
qed

lemma item_loop_inv:
  assumes F: "f64_laws F"
  shows "item_loop F N v tb ps = (full, tb', ps') \<Longrightarrow> table_ok N n tb \<Longrightarrow> v + length ps \<le> n \<Longrightarrow>
    \<forall>p \<in> set ps. perm_ok N p \<Longrightarrow>
    table_ok N n tb' \<and> table_extends tb tb' \<and> tb_size tb \<le> tb_size tb' \<and> length ps' = length ps \<and> (\<forall>p \<in> set ps'. perm_ok N p) \<and>
    (full \<longrightarrow> is_full N tb') \<and> (\<not> full \<longrightarrow> (\<exists>p \<in> set ps. leader F p) \<longrightarrow> (\<exists>p \<in> set ps'. leader F p) \<and> tb_size tb < tb_size tb')"
proof (induction ps arbitrary: v tb full tb' ps')
  case (Cons p ps)
  show ?case
  proof (cases "is_full N tb")
    case False
    obtain enough p1 where he: "has_enough_weight_after_iterating F p = (enough, p1)" by fastforce
    obtain tb1 p2 where st: "(if enough then try_slots N N v tb p1 else (tb, p1)) = (tb1, p2)" by fastforce
    obtain ps2 where rec: "item_loop F N (v + 1) tb1 ps = (full, tb', ps2)" and ps': "ps' = p2 # ps2"
      using Cons.prems(1) False he st by (auto split: prod.splits)
    note step = item_step [OF F Cons.prems(2) _ _ False he st]
    have s: "table_ok N n tb1" "table_extends tb tb1" "perm_ok N p2" "leader F p \<longrightarrow> enough \<and> leader F p2"
      "tb_size tb1 = tb_size tb + (if enough then 1 else 0)"
      using step Cons.prems(3,4) by auto
    from Cons.IH [OF rec s(1)] Cons.prems(3,4) s ps' show ?thesis
      by (auto intro: table_extends_trans split: if_splits)
  qed (use Cons.prems in auto)
qed simp

lemma item_loop_first:
  assumes F: "f64_laws F"
  shows "item_loop F N v tb ps = (full, tb', ps') \<Longrightarrow> table_ok N n tb \<Longrightarrow> v + length ps \<le> n \<Longrightarrow>
    \<forall>p \<in> set ps. perm_ok N p \<and> fresh F p \<Longrightarrow> tb_size tb + length ps \<le> N \<Longrightarrow>
    \<not> full \<and> table_extends tb tb' \<and> (\<forall>j < length ps. Some (v + j) \<in> set (tb_table tb'))"
proof (induction ps arbitrary: v tb full tb' ps')
  case (Cons p ps)
  have nf: "\<not> is_full N tb"
    using Cons.prems(5) by (simp add: is_full_def)
  obtain enough p1 where he: "has_enough_weight_after_iterating F p = (enough, p1)" by fastforce
  have enough
    using fresh_has_enough [OF F, of p] he Cons.prems(4) by simp
  obtain tb1 p2 where st: "(if enough then try_slots N N v tb p1 else (tb, p1)) = (tb1, p2)" by fastforce
  obtain ps2 where rec: "item_loop F N (v + 1) tb1 ps = (full, tb', ps2)"
    using Cons.prems(1) nf he st by (auto split: prod.splits)
  note step = item_step [OF F Cons.prems(2) _ _ nf he st]
  have s: "table_ok N n tb1" "table_extends tb tb1" "tb_size tb1 = Suc (tb_size tb)" "Some v \<in> set (tb_table tb1)"
    using step Cons.prems(3,4) \<open>enough\<close> by auto
  have ih: "\<not> full \<and> table_extends tb1 tb' \<and> (\<forall>j < length ps. Some (v + 1 + j) \<in> set (tb_table tb'))"
    using Cons.IH [OF rec s(1)] Cons.prems(3-5) s(3) by simp
  then have "Some (v + j) \<in> set (tb_table tb')" if "j < length (p # ps)" for j
    using that s(4) by (cases j) (auto simp: table_extends_def)
  with ih s(2) show ?case
    by (blast intro: table_extends_trans)
qed simp

lemma table_loop_inv:
  assumes F: "f64_laws F"
  shows "table_ok N (length ps) tb \<Longrightarrow> \<forall>p \<in> set ps. perm_ok N p \<Longrightarrow> \<exists>p \<in> set ps. leader F p \<Longrightarrow> N \<le> tb_size tb + k \<Longrightarrow>
    table_ok N (length ps) (table_loop F N k tb ps) \<and> table_extends tb (table_loop F N k tb ps) \<and>
    is_full N (table_loop F N k tb ps)"
proof (induction k arbitrary: tb ps)
  case (Suc k)
  obtain full tb' ps' where it: "item_loop F N 0 tb ps = (full, tb', ps')"
    by (metis prod_cases3)
  note inv = item_loop_inv [OF F it Suc.prems(1) _ Suc.prems(2)]
  show ?case
  proof (cases full)
    case True
    with it inv show ?thesis by simp
  next
    case False
    have "table_ok N (length ps') tb'" "\<forall>p \<in> set ps'. perm_ok N p" "\<exists>p \<in> set ps'. leader F p" "N \<le> tb_size tb' + k"
      "length ps' = length ps" "table_extends tb tb'"
      using inv False Suc.prems(3,4) by auto
    with Suc.IH [of ps' tb'] False it show ?thesis
      by (auto intro: table_extends_trans)
  qed
qed (simp add: is_full_def)

lemma table_ok_full:
  assumes "table_ok N n tb" "is_full N tb"
  shows "None \<notin> set (tb_table tb)"
proof -
  have "length (filter (\<lambda>e. e \<noteq> None) (tb_table tb)) = length (tb_table tb)"
    using assms length_filter_le [of "\<lambda>e. e \<noteq> None" "tb_table tb"] by (simp add: table_ok_def is_full_def)
  then show ?thesis
    by (metis (mono_tags, lifting) length_filter_less nat_neq_iff)
qed

text \<open>A table filled to the end holds every index once at least, and nothing else.\<close>
lemma table_loop_build:
  assumes F: "f64_laws F" and "\<forall>p \<in> set ps. perm_ok N p \<and> fresh F p" "\<exists>p \<in> set ps. leader F p" "length ps \<le> N"
  defines "table \<equiv> table_build (table_loop F N N (table_builder_new N) ps)"
  shows "length table = N" "set table = {..<length ps}"
proof -
  let ?tb = "table_builder_new N"
  have ok: "table_ok N (length ps) ?tb"
    by (simp add: table_ok_def table_builder_new_def)
  have perms: "\<forall>p \<in> set ps. perm_ok N p"
    using assms(2) by blast
  have final: "table_ok N (length ps) (table_loop F N N ?tb ps)" "is_full N (table_loop F N N ?tb ps)"
    using table_loop_inv [OF F ok perms assms(3), of N] by simp_all
  note none = table_ok_full [OF final]
  have "Some j \<in> set (tb_table (table_loop F N N ?tb ps))" if j: "j < length ps" for j
  proof -
    obtain full tb' ps' where it: "item_loop F N 0 ?tb ps = (full, tb', ps')"
      by (metis prod_cases3)
    have first: "\<not> full" "Some j \<in> set (tb_table tb')"
      using item_loop_first [OF F it ok _ assms(2)] assms(4) j by (auto simp: table_builder_new_def)
    obtain k where k: "N = Suc k"
      using j assms(4) by (cases N) auto
    have inv: "table_ok N (length ps') tb'" "\<forall>p \<in> set ps'. perm_ok N p" "\<exists>p \<in> set ps'. leader F p" "N \<le> tb_size tb' + k"
      using item_loop_inv [OF F it ok _ perms] first(1) assms(3) k by (auto simp: table_builder_new_def)
    have "table_loop F N (Suc k) ?tb ps = table_loop F N k tb' ps'"
      using it first(1) by simp
    then have "table_loop F N N ?tb ps = table_loop F N k tb' ps'"
      using k by simp
    with table_loop_inv [OF F inv] first(2) show ?thesis
      by (simp add: table_extends_def)
  qed
  then have "{..<length ps} \<subseteq> set table"
    by (force simp: table_def table_build_def)
  moreover have "set table \<subseteq> {..<length ps}"
    using final(1) none by (auto simp: table_def table_build_def table_ok_def split: option.splits)
  ultimately show "length table = N" "set table = {..<length ps}"
    using final(1) by (auto simp: table_def table_build_def table_ok_def)
qed

lemma iter_reduce_max:
  assumes F: "f64_laws F" and "iter_reduce (f_max F) xs = Some m"
  shows "m \<in> set xs"
proof -
  have "foldl (f_max F) x ys \<in> insert x (set ys)" for x ys
  proof (induction ys arbitrary: x)
    case (Cons y ys)
    have "f_max F x y \<in> {x, y}"
      using f64_lawsD(16) [OF F, of x y] by blast
    with Cons.IH [of "f_max F x y"] show ?case by auto
  qed simp
  with assms(2) show ?thesis
    by (cases xs) fastforce+
qed

lemma maglev_permutations_ok:
  assumes F: "f64_laws F" and N: "is_prime N" and "unat tot = total_weight items" "0 < tot"
    and w: "iter_reduce (f_max F) (map (\<lambda>it. f_div F (f_from_u32 F (lb_weight it)) (f_from_u32 F tot)) items) = Some w"
  shows "\<forall>p \<in> set (maglev_permutations F hash_one authority N tot w items). perm_ok N p \<and> fresh F p"
    "\<exists>p \<in> set (maglev_permutations F hash_one authority N tot w items). leader F p"
proof -
  let ?nw = "\<lambda>it. f_div F (f_from_u32 F (lb_weight it)) (f_from_u32 F tot)"
  have prime: "prime_nat N"
    using N by (simp add: is_prime_iff)
  then have "1 < N" by (simp add: prime_nat_def)
  have le: "lb_weight it \<le> tot" if "it \<in> set items" for it
  proof -
    have "unat (lb_weight it) \<le> total_weight items"
      using that by (intro member_le_sum_list) auto
    with assms(3) show ?thesis by (simp add: word_le_nat_alt)
  qed
  obtain m where m: "m \<in> set items" "w = ?nw m"
    using iter_reduce_max [OF F w] by auto
  have nw: "f_le F (f_zero F) (?nw it)" "f_le F (?nw it) (f_from_u32 F 1)" if "it \<in> set items" for it
    using f64_lawsD(17,18) [OF F le [OF that] assms(4)] by auto
  have "coprime (h mod (N - 1) + 1) N" for h
  proof (rule prime_nat_coprime [OF prime])
    have "h mod (N - 1) < N - 1" using \<open>1 < N\<close> by simp
    then show "h mod (N - 1) + 1 < N" by linarith
  qed simp
  then have "perm_ok N p" if "p \<in> set (maglev_permutations F hash_one authority N tot w items)" for p
    using that by (auto simp: maglev_permutations_def permutation_new_def perm_ok_def)
  then show "\<forall>p \<in> set (maglev_permutations F hash_one authority N tot w items). perm_ok N p \<and> fresh F p"
    using nw m by (auto simp: maglev_permutations_def permutation_new_def fresh_def)
  show "\<exists>p \<in> set (maglev_permutations F hash_one authority N tot w items). leader F p"
    using nw m by (auto simp: maglev_permutations_def permutation_new_def leader_def intro!: bexI [of _ m])
qed

lemma default_table_size_prime: "is_prime default_table_size"
  by (simp add: is_prime_def default_table_size_def next_power_of_two_exp.simps is_prime_loop.simps push_bit_eq_mult)

text \<open>The balancer over more than one endpoint.\<close>
lemma maglev_with_size_table:
  assumes F: "f64_laws F" and N: "is_prime N" and "total_weight items \<le> u32_max" "0 < total_weight items"
    and "2 \<le> length items" "length items \<le> N"
    and b_def: "b = maglev_with_size F hash_one authority N items"
  shows "mset (mg_items b) = mset items" "length (mg_table b) = N" "set (mg_table b) = {..<length items}"
proof -
  obtain t where t: "collect_checked items = (items, t)" "unat t = total_weight items"
    using collect_checked_fits [OF assms(3)] by blast
  let ?items = "sort_key (\<lambda>it. authority_sorting_key (authority (lb_item_of it))) items"
  let ?ws = "map (\<lambda>it. f_div F (f_from_u32 F (lb_weight it)) (f_from_u32 F t)) ?items"
  have len: "length ?items = length items" by simp
  have "?items \<noteq> []"
    using assms(5) len by fastforce
  then obtain w where w: "iter_reduce (f_max F) ?ws = Some w"
    by (cases ?items) (simp_all del: length_sort)
  have tot: "unat t = total_weight ?items" "0 < t"
    using t(2) assms(4) by (simp_all add: sum_mset_sum_list [symmetric] word_less_nat_alt)
  let ?ps = "maglev_permutations F hash_one authority N t w ?items"
  have "length ?ps = length items"
    by (simp add: maglev_permutations_def)
  then have "length (mg_table b) = N \<and> set (mg_table b) = {..<length items}"
    using table_loop_build [OF F maglev_permutations_ok [OF F N tot w, of hash_one authority]] w t(1) len assms(5,6)
    by (simp add: b_def maglev_with_size_def Let_def)
  moreover have "mg_items b = ?items"
    by (simp add: b_def maglev_with_size_def t(1) Let_def)
  ultimately show "mset (mg_items b) = mset items" "length (mg_table b) = N" "set (mg_table b) = {..<length items}"
    by simp_all
qed

text \<open>Lookups in a table that holds every index and nothing else.\<close>
lemma maglev_next_item_full:
  assumes "set (mg_table b) = {..<length (mg_items b)}" "mg_table b \<noteq> []" "2 \<le> length (mg_items b)"
  defines "entry \<equiv> \<lambda>h :: u64. mg_table b ! (unat h mod length (mg_table b))"
  shows "maglev_next_item random hash b = (Some (lb_item_of (mg_items b ! entry (case hash of Some h \<Rightarrow> h | None \<Rightarrow> random))), b)"
    and "entry h < length (mg_items b)"
proof -
  have entry: "unat h mod length (mg_table b) < length (mg_table b)" for h :: u64
    using assms(2) by simp
  then have below: "entry h < length (mg_items b)" for h
    unfolding entry_def using assms(1) nth_mem by blast
  then show "entry h < length (mg_items b)" .
  show "maglev_next_item random hash b = (Some (lb_item_of (mg_items b ! entry (case hash of Some h \<Rightarrow> h | None \<Rightarrow> random))), b)"
    using assms(3) entry below [of "case hash of Some h \<Rightarrow> h | None \<Rightarrow> random"]
    by (simp add: maglev_next_item_def Let_def entry_def)
qed

lemma maglev_next_item_onto:
  assumes "set (mg_table b) = {..<length (mg_items b)}" "mg_table b \<noteq> []" "2 \<le> length (mg_items b)"
    and "length (mg_table b) \<le> 2 ^ 64" "it \<in> set (mg_items b)"
  shows "\<exists>hash. \<forall>random. fst (maglev_next_item random (Some hash) b) = Some (lb_item_of it)"
proof -
  obtain j where j: "j < length (mg_items b)" "mg_items b ! j = it"
    using assms(5) by (auto simp: in_set_conv_nth)
  then have "j \<in> set (mg_table b)"
    using assms(1) by simp
  then obtain i where i: "i < length (mg_table b)" "mg_table b ! i = j"
    by (auto simp: in_set_conv_nth)
  have "i < 2 ^ 64"
    using i(1) assms(4) by linarith
  then have "unat (word_of_nat i :: u64) mod length (mg_table b) = i"
    using i(1) by (simp add: unat_of_nat take_bit_nat_eq_self)
  with i j show ?thesis
    by (intro exI [of _ "word_of_nat i"]) (simp add: maglev_next_item_full(1) [OF assms(1-3)])
qed

text \<open>C32: The Maglev table is complete and reaches everyone.  For endpoints of non-zero weights whose total
  fits in 32 bits, and no more of them than the table has entries, every request hash (given or drawn
  at random) selects one of the endpoints, and every endpoint is selected by some hash.\<close>
theorem maglev_complete:
  assumes "f64_laws F" "es \<noteq> []" "\<forall>e \<in> set es. weight e \<noteq> 0"
    and "sum_list (map (\<lambda>e. unat (weight e)) es) \<le> u32_max" "length es \<le> default_table_size"
  shows "(\<forall>random hash. \<exists>e \<in> set es. maglev_next_item random hash (maglev_from_iter F hash_one authority weight es)
            = (Some e, maglev_from_iter F hash_one authority weight es)) \<and>
    (\<forall>e \<in> set es. \<exists>hash. \<forall>random. fst (maglev_next_item random (Some hash) (maglev_from_iter F hash_one authority weight es)) = Some e)"
proof (cases "length es = 1")
  case True
  then obtain e where "es = [e]"
    by (cases es) auto
  then show ?thesis
    by (auto simp: maglev_from_iter_def maglev_new_def maglev_with_size_def collect_checked_def checked_add_u32_def
        maglev_next_item_def lb_item_new_def Let_def)
next
  case False
  let ?items = "map (\<lambda>e. lb_item_new (weight e) e) es" and ?b = "maglev_from_iter F hash_one authority weight es"
  have two: "2 \<le> length es"
    using False assms(2) by (cases es rule: remdups_adj.cases) auto
  have pos: "0 < sum_list (map (\<lambda>e. unat (weight e)) es)"
    using assms(2,3) by (cases es) (auto simp: unat_gt_0)
  have b: "?b = maglev_with_size F hash_one authority default_table_size ?items"
    by (simp add: maglev_from_iter_def maglev_new_def)
  have tw: "total_weight ?items = sum_list (map (\<lambda>e. unat (weight e)) es)"
    by (simp add: lb_item_new_def o_def)
  note table = maglev_with_size_table [OF assms(1) default_table_size_prime _ _ _ _ b, unfolded tw length_map,
      OF assms(4) pos two assms(5)]
  have len: "length (mg_items ?b) = length es"
    using table(1) by (metis length_map size_mset)
  have set_items: "lb_item_of ` set (mg_items ?b) = set es"
    using arg_cong [OF table(1), of "\<lambda>m. lb_item_of ` set_mset m"] by (force simp: lb_item_new_def)
  have l: "length (mg_table ?b) = 65537"
    using table(2) by (simp only: default_table_size_def)
  have "mg_table ?b \<noteq> []"
    using l by (metis list.size(3) zero_neq_numeral)
  with l have full: "set (mg_table ?b) = {..<length (mg_items ?b)}" "mg_table ?b \<noteq> []" "2 \<le> length (mg_items ?b)"
    "length (mg_table ?b) \<le> 2 ^ 64"
    using table(3) len two by simp_all
  have "\<exists>e \<in> set es. maglev_next_item random hash ?b = (Some e, ?b)" for random hash
    unfolding maglev_next_item_full(1) [OF full(1-3)]
    using maglev_next_item_full(2) [OF full(1-3)] nth_mem set_items by blast
  moreover have "\<exists>hash. \<forall>random. fst (maglev_next_item random (Some hash) ?b) = Some e" if "e \<in> set es" for e
    using maglev_next_item_onto [OF full] that unfolding set_items [symmetric] by blast
  ultimately show ?thesis by blast
qed

section \<open>Rebuilding the table\<close>

lemma sort_key_mset_eq:
  assumes "mset xs = mset ys" "inj_on f (set xs)"
  shows "sort_key f xs = sort_key f ys"
proof (rule properties_for_sort_key)
  have set: "set xs = set ys"
    using assms(1) by (metis set_mset_mset)
  show "mset (sort_key f ys) = mset xs"
    using assms(1) by simp
  show "filter (\<lambda>x. f k = f x) (sort_key f ys) = filter (\<lambda>x. f k = f x) xs" if "k \<in> set (sort_key f ys)" for k
  proof -
    have k: "k \<in> set xs"
      using that set by simp
    have inj: "filter (\<lambda>x. f k = f x) zs = filter ((=) k) zs" if "set zs = set xs" for zs
      by (rule filter_cong [OF refl]) (use that k in \<open>simp add: inj_on_eq_iff [OF assms(2) k]\<close>)
    have "count (mset (sort_key f ys)) k = count (mset xs) k"
      using assms(1) by simp
    then have "length (filter ((=) k) (sort_key f ys)) = length (filter ((=) k) xs)"
      by (simp only: count_mset count_list_eq_length_filter)
    then have "filter ((=) k) (sort_key f ys) = filter ((=) k) xs"
      by (metis replicate_length_filter)
    then show ?thesis
      using inj [of "sort_key f ys"] inj [of xs] set by simp
  qed
  show "sorted (map f (sort_key f ys))"
    by (rule sorted_sort_key)
qed

text \<open>C33: The Maglev balancer does not depend on the order of the endpoints: rebuilt from the same endpoints in
  another order it is the same balancer, so every hash keeps its endpoint.  The endpoints have distinct
  authorities (up to case) and their total weight fits in 32 bits.\<close>
theorem maglev_order_independent:
  assumes "mset es = mset es'" "inj_on (\<lambda>e. authority_sorting_key (authority e)) (set es)"
    and "sum_list (map (\<lambda>e. unat (weight e)) es) \<le> u32_max"
  shows "maglev_from_iter F hash_one authority weight es = maglev_from_iter F hash_one authority weight es'"
proof -
  let ?items = "map (\<lambda>e. lb_item_new (weight e) e)" and ?key = "\<lambda>it. authority_sorting_key (authority (lb_item_of it))"
  have tw: "total_weight (?items xs) = sum_list (map (\<lambda>e. unat (weight e)) xs)" for xs
    by (simp add: lb_item_new_def o_def)
  have same: "sum_list (map (\<lambda>e. unat (weight e)) es') = sum_list (map (\<lambda>e. unat (weight e)) es)"
    using assms(1) by (metis mset_map sum_mset_sum_list)
  obtain t where t: "collect_checked (?items es) = (?items es, t)" "unat t = sum_list (map (\<lambda>e. unat (weight e)) es)"
    using collect_checked_fits [of "?items es"] assms(3) unfolding tw by blast
  obtain t' where t': "collect_checked (?items es') = (?items es', t')" "unat t' = sum_list (map (\<lambda>e. unat (weight e)) es)"
    using collect_checked_fits [of "?items es'"] assms(3) unfolding tw same by blast
  have "t = t'"
    using t(2) t'(2) by (metis word_unat_eq_iff)
  moreover have "sort_key ?key (?items es) = sort_key ?key (?items es')"
    by (rule sort_key_mset_eq) (use assms(1,2) in \<open>auto simp: inj_on_def lb_item_new_def\<close>)
  ultimately show ?thesis
    by (simp add: maglev_from_iter_def maglev_new_def maglev_with_size_def t(1) t'(1))
qed

section \<open>The contract of a balancer\<close>

interpretation maglev: balancer_laws "maglev_from_iter F hash_one authority weight" "maglev_next_item random" maglev_members
  for F :: "('f, 'x) f64_ops_scheme" and hash_one authority weight random
proof
  show "maglev_members (maglev_from_iter F hash_one authority weight es) \<subseteq> set es" for es
    using collect_checked_subset [of "map (\<lambda>e. lb_item_new (weight e) e) es"]
    by (force simp: maglev_members_def maglev_from_iter_def maglev_new_def maglev_with_size_def split_def Let_def lb_item_new_def)
  show "e \<in> maglev_members b" if "maglev_next_item random h b = (Some e, b')" for h b e b'
    using that by (auto simp: maglev_next_item_def maglev_members_def Let_def split: if_splits list.splits)
  show "maglev_members b' = maglev_members b" if "maglev_next_item random h b = (r, b')" for h b r b'
    using that by (auto simp: maglev_next_item_def Let_def split: if_splits)
qed

section \<open>Examples\<close>

theorem maglev_complete_witness:
  "\<exists>h. fst (maglev_next_item 0 (Some h) (maglev_from_iter rat_f64 (\<lambda>a s. of_nat (length a) + s) id (\<lambda>_. 1) [''a:80'', ''bb:80''])) = Some ''bb:80''"
  using maglev_complete [OF rat_f64_laws, of "[''a:80'', ''bb:80'']" "\<lambda>_. 1" "\<lambda>a s. of_nat (length a) + s" id]
  by (auto simp: default_table_size_def)

theorem maglev_order_independent_witness:
  "maglev_from_iter rat_f64 (\<lambda>a s. of_nat (length a) + s) id (\<lambda>_. 1) [''a:80'', ''b:80''] =
   maglev_from_iter rat_f64 (\<lambda>a s. of_nat (length a) + s) id (\<lambda>_. 1) [''b:80'', ''a:80'']"
  by (rule maglev_order_independent) (simp_all add: authority_sorting_key_def to_ascii_lowercase_byte_def)

end
