(* ===== verification/Ring_Hash.thy ===== *)
theory Ring_Hash
  imports Lb_Item F64
begin

text \<open>
  The ring hash balancer (\<open>orion-lib/src/clusters/balancers/ring.rs\<close>): slots in proportion to the
  weights, sorted by hash, and a binary search for the hash of the request.

  The hash of a slot (the crate twox-hash over the authority and the index of the slot), the authority
  and the arithmetic on \<open>f64\<close> are arguments.  The loop that adds slots compares floating point numbers, so
  it is a partial function; \<open>ring_lookup\<close> includes that it ends.
\<close>

section \<open>Binary search\<close>

text \<open>\<open>slice::binary_search_by_key\<close> of the standard library, on the keys: \<open>Inr\<close> is \<open>Ok\<close>, \<open>Inl\<close> is \<open>Err\<close>.\<close>
function bsearch_loop :: "u64 list \<Rightarrow> u64 \<Rightarrow> nat \<Rightarrow> nat \<Rightarrow> nat" where
  "bsearch_loop keys key base sz =
     (if sz > 1
      then let half = sz div 2; mid = base + half
           in bsearch_loop keys key (if keys ! mid > key then base else mid) (sz - half)
      else base)"
  by pat_completeness auto
termination
  by (relation "measure (\<lambda>(keys, key, base, sz). sz)") auto

declare bsearch_loop.simps [simp del]

definition binary_search :: "u64 list \<Rightarrow> u64 \<Rightarrow> nat + nat" where
  "binary_search keys key =
     (if keys = [] then Inl 0
      else let base = bsearch_loop keys key 0 (length keys)
           in if keys ! base = key then Inr base
              else Inl (if keys ! base < key then base + 1 else base))"

section \<open>The ring\<close>

record 'e ring_balancer =
  rg_items :: "'e lb_item list"
  rg_ring :: "(u64 \<times> nat) list"

definition default_min_ring_size :: u32 where
  "default_min_ring_size = 1024"

definition default_max_ring_size :: u32 where
  "default_max_ring_size = 1024 * 1024 * 8"

text \<open>The slots of one item: the inner \<open>while\<close>.  The index of a slot is an \<open>i32\<close> in the source and unbounded here; the
  largest ring has 8 million slots.\<close>
partial_function (option) ring_slots ::
  "('f, 'a) f64_ops_scheme \<Rightarrow> (str \<Rightarrow> int \<Rightarrow> u64) \<Rightarrow> str \<Rightarrow> nat \<Rightarrow> 'f \<Rightarrow> 'f \<Rightarrow> int \<Rightarrow> (u64 \<times> nat) list
     \<Rightarrow> ('f \<times> (u64 \<times> nat) list) option" where
  "ring_slots F hash_slot item_key index current_slots target_slots slot_index ring =
     (if f_lt F current_slots target_slots
      then ring_slots F hash_slot item_key index (f_add F current_slots (f_from_u32 F 1)) target_slots (slot_index + 1)
             (ring @ [(hash_slot item_key slot_index, index)])
      else Some (current_slots, ring))"

fun ring_items ::
  "('f, 'a) f64_ops_scheme \<Rightarrow> (str \<Rightarrow> int \<Rightarrow> u64) \<Rightarrow> 'f \<Rightarrow> (str \<times> 'f) list \<Rightarrow> nat \<Rightarrow> 'f \<Rightarrow> 'f \<Rightarrow> (u64 \<times> nat) list
     \<Rightarrow> (u64 \<times> nat) list option" where
  "ring_items F hash_slot scale [] index current_slots target_slots ring = Some ring"
| "ring_items F hash_slot scale ((item_key, weight) # items) index current_slots target_slots ring =
     (let item_slots = f_mul F weight scale; target_slots' = f_add F target_slots item_slots in
      case ring_slots F hash_slot item_key index current_slots target_slots' 0 ring of
        None \<Rightarrow> None
      | Some (current_slots', ring') \<Rightarrow> ring_items F hash_slot scale items (index + 1) current_slots' target_slots' ring')"

definition ring_scale :: "('f, 'a) f64_ops_scheme \<Rightarrow> u32 \<Rightarrow> u32 \<Rightarrow> 'f \<Rightarrow> 'f" where
  "ring_scale F min_ring_size max_ring_size minimum_weight =
     f_min F (f_div F (f_ceil F (f_mul F minimum_weight (f_from_u32 F min_ring_size))) minimum_weight) (f_from_u32 F max_ring_size)"

definition ring_new_with_settings ::
  "('f, 'a) f64_ops_scheme \<Rightarrow> (str \<Rightarrow> int \<Rightarrow> u64) \<Rightarrow> ('e \<Rightarrow> str) \<Rightarrow> 'e lb_item list \<Rightarrow> u32 \<Rightarrow> u32 \<Rightarrow> 'e ring_balancer option" where
  "ring_new_with_settings F hash_slot authority items0 min_ring_size max_ring_size =
     (let (items, tot) = collect_checked items0;
          normalized_weights = map (\<lambda>it. f_div F (f_from_u32 F (lb_weight it)) (f_from_u32 F tot)) items
      in case iter_reduce (f_min F) normalized_weights of
           None \<Rightarrow> Some \<lparr>rg_items = items, rg_ring = []\<rparr>
         | Some minimum_weight \<Rightarrow>
             map_option (\<lambda>ring. \<lparr>rg_items = items, rg_ring = sort_key fst ring\<rparr>)
               (ring_items F hash_slot (ring_scale F min_ring_size max_ring_size minimum_weight)
                 (zip (map (\<lambda>it. authority (lb_item_of it)) items) normalized_weights) 0 (f_zero F) (f_zero F) []))"

definition ring_new ::
  "('f, 'a) f64_ops_scheme \<Rightarrow> (str \<Rightarrow> int \<Rightarrow> u64) \<Rightarrow> ('e \<Rightarrow> str) \<Rightarrow> 'e lb_item list \<Rightarrow> 'e ring_balancer option" where
  "ring_new F hash_slot authority items =
     ring_new_with_settings F hash_slot authority items default_min_ring_size default_max_ring_size"

definition ring_from_iter ::
  "('f, 'a) f64_ops_scheme \<Rightarrow> (str \<Rightarrow> int \<Rightarrow> u64) \<Rightarrow> ('e \<Rightarrow> str) \<Rightarrow> ('e \<Rightarrow> u32) \<Rightarrow> 'e list \<Rightarrow> 'e ring_balancer option" where
  "ring_from_iter F hash_slot authority weight es =
     ring_new F hash_slot authority (map (\<lambda>e. lb_item_new (weight e) e) es)"

definition ring_default :: "('f, 'a) f64_ops_scheme \<Rightarrow> (str \<Rightarrow> int \<Rightarrow> u64) \<Rightarrow> ('e \<Rightarrow> str) \<Rightarrow> 'e ring_balancer option" where
  "ring_default F hash_slot authority = ring_new F hash_slot authority []"

text \<open>\<open>random\<close> is the value \<open>rand::rng().random()\<close> draws; \<open>ring.len() - 1\<close> wraps on an empty ring, and
  the lookup then returns \<open>None\<close>.\<close>
definition ring_next_item :: "u64 \<Rightarrow> u64 option \<Rightarrow> 'e ring_balancer \<Rightarrow> 'e option \<times> 'e ring_balancer" where
  "ring_next_item random hash b =
     (if length (rg_items b) \<le> 1
      then (case rg_items b of [] \<Rightarrow> None | it # _ \<Rightarrow> Some (lb_item_of it), b)
      else let h = (case hash of Some h \<Rightarrow> h | None \<Rightarrow> random);
               last_index = (if rg_ring b = [] then 2 ^ 64 - 1 else length (rg_ring b) - 1);
               ring_index = (case binary_search (map fst (rg_ring b)) h of
                   Inr matching_index \<Rightarrow> matching_index
                 | Inl closest_index \<Rightarrow> min closest_index last_index)
           in (if ring_index < length (rg_ring b) \<and> snd (rg_ring b ! ring_index) < length (rg_items b)
               then Some (lb_item_of (rg_items b ! snd (rg_ring b ! ring_index))) else None, b))"

definition ring_members :: "'e ring_balancer \<Rightarrow> 'e set" where
  "ring_members b = lb_item_of ` set (rg_items b)"

section \<open>The search\<close>

lemma bsearch_loop_spec:
  assumes "sorted keys" "0 < sz" "base + sz \<le> length keys"
    and "\<forall>i < base. keys ! i \<le> key" "\<forall>i. base + sz \<le> i \<longrightarrow> i < length keys \<longrightarrow> key < keys ! i"
    and "base = 0 \<or> keys ! base \<le> key"
  shows "bsearch_loop keys key base sz < length keys \<and>
    (\<forall>i < bsearch_loop keys key base sz. keys ! i \<le> key) \<and>
    (\<forall>i. bsearch_loop keys key base sz < i \<longrightarrow> i < length keys \<longrightarrow> key < keys ! i) \<and>
    (bsearch_loop keys key base sz = 0 \<or> keys ! bsearch_loop keys key base sz \<le> key)"
  using assms
proof (induction keys key base sz rule: bsearch_loop.induct)
  case (1 keys key base sz)
  show ?case
  proof (cases "sz > 1")
    case True
    let ?half = "sz div 2" and ?mid = "base + sz div 2"
    have mid: "?mid < length keys" "0 < ?half" "?half < sz"
      using True "1.prems"(3) by auto
    show ?thesis
    proof (cases "keys ! ?mid > key")
      case gt: True
      have "\<forall>i. base + (sz - ?half) \<le> i \<longrightarrow> i < length keys \<longrightarrow> key < keys ! i"
      proof (intro allI impI)
        fix i assume i: "base + (sz - ?half) \<le> i" "i < length keys"
        then have "?mid \<le> i" by linarith
        with gt i(2) show "key < keys ! i"
          using sorted_nth_mono [OF "1.prems"(1)] by (meson less_le_trans)
      qed
      with "1.IH" [OF True refl refl] "1.prems" mid gt True show ?thesis
        by (subst (1 2 3 4 5) bsearch_loop.simps) (simp add: Let_def)
    next
      case False
      then have le: "keys ! ?mid \<le> key" by simp
      have "\<forall>i < ?mid. keys ! i \<le> key"
        using le mid(1) sorted_nth_mono [OF "1.prems"(1)] by (meson less_imp_le order_trans)
      with "1.IH" [OF True refl refl] "1.prems" mid False True show ?thesis
        by (subst (1 2 3 4 5) bsearch_loop.simps) (simp add: Let_def)
    qed
  next
    case False
    with "1.prems" show ?thesis
      by (subst (1 2 3 4 5) bsearch_loop.simps) auto
  qed
qed

lemma binary_search_spec:
  assumes "sorted keys"
  shows "case binary_search keys key of
      Inr i \<Rightarrow> i < length keys \<and> keys ! i = key
    | Inl i \<Rightarrow> i \<le> length keys \<and> (\<forall>j < i. keys ! j < key) \<and> (\<forall>j. i \<le> j \<longrightarrow> j < length keys \<longrightarrow> key < keys ! j)"
proof (cases "keys = []")
  case False
  let ?b = "bsearch_loop keys key 0 (length keys)"
  have b: "?b < length keys" "\<forall>i < ?b. keys ! i \<le> key" "\<forall>i. ?b < i \<longrightarrow> i < length keys \<longrightarrow> key < keys ! i" "?b = 0 \<or> keys ! ?b \<le> key"
    using bsearch_loop_spec [OF assms, of "length keys" 0 key] False by auto
  consider "keys ! ?b = key" | (lt) "keys ! ?b < key" | (gt) "keys ! ?b > key"
    by fastforce
  then show ?thesis
  proof cases
    case lt
    have "keys ! j < key" if "j < ?b + 1" for j
    proof -
      have "keys ! j \<le> keys ! ?b"
        using that b(1) sorted_nth_mono [OF assms] by simp
      with lt show ?thesis by simp
    qed
    with lt False b show ?thesis by (auto simp: binary_search_def Let_def)
  next
    case gt
    with b(4) have "?b = 0" by (meson not_le)
    with gt b False show ?thesis
      by (auto simp: binary_search_def Let_def) (metis gr_zeroI)
  qed (use False b in \<open>simp add: binary_search_def\<close>)
qed (simp add: binary_search_def)

section \<open>Building the ring\<close>

text \<open>The targets the loop over the items works towards.\<close>
fun ring_targets :: "('f, 'a) f64_ops_scheme \<Rightarrow> 'f \<Rightarrow> 'f \<Rightarrow> 'f list \<Rightarrow> 'f list" where
  "ring_targets F scale target [] = []"
| "ring_targets F scale target (w # ws) =
     (let target' = f_add F target (f_mul F w scale) in target' # ring_targets F scale target' ws)"

lemma ring_slots_total:
  assumes "f64_laws F" "f_le F target (f_from_u32 F m)" "n \<le> m" "snd ` set ring \<subseteq> {..index}"
  shows "\<exists>n' ring'. ring_slots F hash_slot key index (f_from_u32 F n) target k ring = Some (f_from_u32 F n', ring') \<and>
    n' \<le> m \<and> snd ` set ring' \<subseteq> {..index}"
  using assms(3,4)
proof (induction "unat m - unat n" arbitrary: n k ring)
  case 0
  then have "n = m" by (simp add: word_le_nat_alt word_unat_eq_iff)
  with f64_lawsD(20) [OF assms(1,2)] 0 show ?case
    by (subst ring_slots.simps) auto
next
  case (Suc d)
  show ?case
  proof (cases "f_lt F (f_from_u32 F n) target")
    case True
    have lt: "unat n < unat m" using Suc.hyps(2) by simp
    moreover have "unat m \<le> u32_max" by simp
    ultimately have le: "unat n + unat (1 :: u32) \<le> u32_max"
      by (simp del: unat_u32_le)
    have un: "unat (n + 1) = unat n + 1"
      using unat_plus_u32 [OF le] by simp
    have "\<exists>n' ring'. ring_slots F hash_slot key index (f_from_u32 F (n + 1)) target (k + 1) (ring @ [(hash_slot key k, index)]) =
        Some (f_from_u32 F n', ring') \<and> n' \<le> m \<and> snd ` set ring' \<subseteq> {..index}"
      by (rule Suc.hyps(1)) (use Suc.hyps(2) Suc.prems un lt in \<open>auto simp: word_le_nat_alt\<close>)
    then show ?thesis
      using True f64_lawsD(3) [OF assms(1) le] by (subst ring_slots.simps) simp
  next
    case False
    with Suc.prems show ?thesis by (subst ring_slots.simps) auto
  qed
qed

lemma ring_items_total:
  assumes "f64_laws F"
  shows "\<forall>t \<in> set (ring_targets F scale target (map snd items)). f_le F t (f_from_u32 F m) \<Longrightarrow> n \<le> m \<Longrightarrow>
    snd ` set ring \<subseteq> {..<index} \<Longrightarrow>
    \<exists>ring'. ring_items F hash_slot scale items index (f_from_u32 F n) target ring = Some ring' \<and>
      snd ` set ring' \<subseteq> {..<index + length items}"
proof (induction items arbitrary: index n target ring)
  case (Cons a items)
  obtain key w where a: "a = (key, w)" by fastforce
  let ?target = "f_add F target (f_mul F w scale)"
  have "f_le F ?target (f_from_u32 F m)" "snd ` set ring \<subseteq> {..index}"
    using Cons.prems a by (auto simp: Let_def)
  from ring_slots_total [OF assms this(1) Cons.prems(2) this(2), of hash_slot key 0]
  obtain n' ring' where s: "ring_slots F hash_slot key index (f_from_u32 F n) ?target 0 ring = Some (f_from_u32 F n', ring')"
      "n' \<le> m" "snd ` set ring' \<subseteq> {..index}"
    by blast
  have "snd ` set ring' \<subseteq> {..<index + 1}"
    using s(3) by auto
  with Cons.IH [of ?target n' ring' "index + 1"] Cons.prems(1) s a show ?case
    by (simp add: Let_def)
qed simp

lemma ring_next_item_slot:
  assumes ring: "sorted (map fst (rg_ring b))" "snd ` set (rg_ring b) \<subseteq> {..<length (rg_items b)}"
    and "2 \<le> length (rg_items b)" "rg_ring b \<noteq> []"
  shows "\<exists>j < length (rg_ring b).
      ring_next_item random (Some h) b = (Some (lb_item_of (rg_items b ! snd (rg_ring b ! j))), b) \<and>
      snd (rg_ring b ! j) < length (rg_items b) \<and>
      (fst (rg_ring b ! j) = h \<or>
       (h < fst (rg_ring b ! j) \<and> (\<forall>i < j. fst (rg_ring b ! i) < h)) \<or>
       (j = length (rg_ring b) - 1 \<and> (\<forall>i < length (rg_ring b). fst (rg_ring b ! i) < h)))"
proof -
  let ?n = "length (rg_ring b)"
  have snd: "snd (rg_ring b ! j) < length (rg_items b)" if "j < ?n" for j
    using ring(2) nth_mem [OF that] by auto
  have nxt: "ring_next_item random (Some h) b = (Some (lb_item_of (rg_items b ! snd (rg_ring b ! j))), b)"
    if "j < ?n" "j = (case binary_search (map fst (rg_ring b)) h of Inr i \<Rightarrow> i | Inl i \<Rightarrow> min i (?n - 1))" for j
    using that snd [OF that(1)] assms(3,4)
    by (cases "binary_search (map fst (rg_ring b)) h") (simp_all add: ring_next_item_def Let_def)
  note spec = binary_search_spec [OF ring(1), of h]
  show ?thesis
  proof (cases "binary_search (map fst (rg_ring b)) h")
    case (Inr i)
    have i: "i < ?n" "fst (rg_ring b ! i) = h"
      using spec unfolding Inr by auto
    show ?thesis
      by (rule exI [of _ i]) (simp add: i snd nxt Inr)
  next
    case (Inl i)
    have i: "i \<le> ?n" "\<And>j. j < i \<Longrightarrow> fst (rg_ring b ! j) < h" "\<And>j. i \<le> j \<Longrightarrow> j < ?n \<Longrightarrow> h < fst (rg_ring b ! j)"
      using spec unfolding Inl by auto
    show ?thesis
    proof (cases "i < ?n")
      case True
      then have "i = min i (?n - 1)" by simp
      then show ?thesis
        using True i by (intro exI [of _ i]) (simp add: snd nxt Inl)
    next
      case False
      then have "i = ?n" using i(1) by simp
      with assms(4) i(2) show ?thesis
        by (intro exI [of _ "?n - 1"]) (simp add: snd nxt Inl)
    qed
  qed
qed

text \<open>The targets stay within the range of 32-bit integers (they are at most the maximal ring size, up to
  rounding).\<close>
definition ring_weights :: "('f, 'a) f64_ops_scheme \<Rightarrow> ('e \<Rightarrow> u32) \<Rightarrow> 'e list \<Rightarrow> 'f list" where
  "ring_weights F weight es =
     map (\<lambda>e. f_div F (f_from_u32 F (weight e)) (f_from_u32 F (word_of_nat (sum_list (map (\<lambda>e. unat (weight e)) es))))) es"

definition ring_bounded :: "('f, 'a) f64_ops_scheme \<Rightarrow> ('e \<Rightarrow> u32) \<Rightarrow> 'e list \<Rightarrow> bool" where
  "ring_bounded F weight es \<longleftrightarrow>
     (case iter_reduce (f_min F) (ring_weights F weight es) of
        None \<Rightarrow> True
      | Some w \<Rightarrow>
          \<forall>t \<in> set (ring_targets F (ring_scale F default_min_ring_size default_max_ring_size w) (f_zero F) (ring_weights F weight es)).
            f_le F t (f_from_u32 F 4294967295))"

lemma ring_from_iter_total:
  assumes "f64_laws F" "sum_list (map (\<lambda>e. unat (weight e)) es) \<le> u32_max" "ring_bounded F weight es" "es \<noteq> []"
  shows "\<exists>ring. ring_from_iter F hash_slot authority weight es =
      Some \<lparr>rg_items = map (\<lambda>e. lb_item_new (weight e) e) es, rg_ring = sort_key fst ring\<rparr> \<and> snd ` set ring \<subseteq> {..<length es}"
proof -
  let ?items = "map (\<lambda>e. lb_item_new (weight e) e) es" and ?W = "sum_list (map (\<lambda>e. unat (weight e)) es)"
  let ?ws = "ring_weights F weight es"
  have tw: "total_weight ?items = ?W"
    by (simp add: lb_item_new_def o_def)
  obtain t where t: "collect_checked ?items = (?items, t)" "unat t = ?W"
    using collect_checked_fits [of ?items] assms(2) unfolding tw by blast
  have tW: "t = word_of_nat ?W"
    unfolding t(2) [symmetric] by simp
  have ws: "map (\<lambda>it. f_div F (f_from_u32 F (lb_weight it)) (f_from_u32 F t)) ?items = ?ws"
    and auth: "map (\<lambda>it. authority (lb_item_of it)) ?items = map authority es"
    by (simp_all add: ring_weights_def tW lb_item_new_def)
  obtain w where w: "iter_reduce (f_min F) ?ws = Some w"
    using assms(4) by (cases es) (simp_all add: ring_weights_def)
  let ?scale = "ring_scale F default_min_ring_size default_max_ring_size w"
  have len: "length ?ws = length es" by (simp add: ring_weights_def)
  then have snds: "map snd (zip (map authority es) ?ws) = ?ws" by simp
  have "\<forall>t \<in> set (ring_targets F ?scale (f_zero F) (map snd (zip (map authority es) ?ws))). f_le F t (f_from_u32 F 4294967295)"
    unfolding snds using assms(3) w by (simp add: ring_bounded_def)
  from ring_items_total [OF assms(1) this, of 0 "[]" 0 hash_slot] len
  obtain ring where ring: "ring_items F hash_slot ?scale (zip (map authority es) ?ws) 0 (f_zero F) (f_zero F) [] = Some ring"
      "snd ` set ring \<subseteq> {..<length es}"
    by auto
  have "ring_from_iter F hash_slot authority weight es = Some \<lparr>rg_items = ?items, rg_ring = sort_key fst ring\<rparr>"
    unfolding ring_from_iter_def ring_new_def ring_new_with_settings_def t(1) prod.case Let_def ws auth w option.case ring(1)
    by simp
  with ring(2) show ?thesis by blast
qed

text \<open>C34: The ring hash balancer of at least two endpoints whose weights add up within 32 bits.  When the targets of the slots stay within the
  range of 32-bit integers, building the ring ends.  A lookup returns the endpoint of a slot of the ring: one with exactly the hash if
  there is one, else the first slot above the hash, else, when all slots are below it, the last slot of the ring; without a hash the
  drawn number takes its place, and a ring without slots gives nothing.  This is not the slot with the closest hash the
  documentation names (\<open>ring_lookup_not_closest\<close>), and the search does not go around the ring.\<close>
theorem ring_lookup:
  assumes "f64_laws F" "2 \<le> length es" "sum_list (map (\<lambda>e. unat (weight e)) es) \<le> u32_max" "ring_bounded F weight es"
  shows "\<exists>b. ring_from_iter F hash_slot authority weight es = Some b \<and> map lb_item_of (rg_items b) = es \<and>
    (\<forall>random. ring_next_item random None b = ring_next_item random (Some random) b) \<and>
    (rg_ring b = [] \<longrightarrow> (\<forall>random h. ring_next_item random (Some h) b = (None, b))) \<and>
    (rg_ring b \<noteq> [] \<longrightarrow> (\<forall>random h. \<exists>j < length (rg_ring b).
      ring_next_item random (Some h) b = (Some (lb_item_of (rg_items b ! snd (rg_ring b ! j))), b) \<and>
      snd (rg_ring b ! j) < length (rg_items b) \<and>
      (fst (rg_ring b ! j) = h \<or>
       (h < fst (rg_ring b ! j) \<and> (\<forall>i < j. fst (rg_ring b ! i) < h)) \<or>
       (j = length (rg_ring b) - 1 \<and> (\<forall>i < length (rg_ring b). fst (rg_ring b ! i) < h)))))"
proof -
  have "es \<noteq> []" using assms(2) by auto
  then obtain ring where b: "ring_from_iter F hash_slot authority weight es =
      Some \<lparr>rg_items = map (\<lambda>e. lb_item_new (weight e) e) es, rg_ring = sort_key fst ring\<rparr>" (is "_ = Some ?b")
    and ring: "snd ` set ring \<subseteq> {..<length es}"
    using ring_from_iter_total [OF assms(1,3,4)] by blast
  have "sorted (map fst (rg_ring ?b))" "snd ` set (rg_ring ?b) \<subseteq> {..<length (rg_items ?b)}" "2 \<le> length (rg_items ?b)"
    using ring assms(2) by simp_all
  note slot = ring_next_item_slot [OF this]
  have "map lb_item_of (rg_items ?b) = es"
    by (simp add: lb_item_new_def o_def)
  moreover have "\<forall>random. ring_next_item random None ?b = ring_next_item random (Some random) ?b"
    by (simp add: ring_next_item_def)
  moreover have "rg_ring ?b = [] \<longrightarrow> (\<forall>random h. ring_next_item random (Some h) ?b = (None, ?b))"
    using assms(2) by (simp add: ring_next_item_def)
  ultimately show ?thesis using b slot by blast
qed

text \<open>Two slots with the hashes 10 and 100: a request with the hash 11 goes to the second.\<close>
lemma ring_lookup_not_closest:
  "fst (ring_next_item random (Some 11)
     \<lparr>rg_items = [lb_item_new 1 ''a'', lb_item_new 1 ''b''], rg_ring = [(10, 0), (100, 1)]\<rparr>) = Some ''b''"
  by (simp add: ring_next_item_def binary_search_def bsearch_loop.simps lb_item_new_def Let_def)

theorem ring_lookup_witness:
  "\<exists>b. ring_from_iter rat_f64 (\<lambda>a i. of_nat (length a) + of_int i) id (\<lambda>_. 1) [''a'', ''bb''] = Some b \<and> map lb_item_of (rg_items b) = [''a'', ''bb'']"
proof -
  have "ring_bounded rat_f64 (\<lambda>_. 1) [''a'', ''bb'']"
    by (simp add: ring_bounded_def ring_weights_def ring_scale_def rat_f64_def default_min_ring_size_def
        default_max_ring_size_def Let_def)
  from ring_lookup [OF rat_f64_laws _ _ this, of "\<lambda>a i. of_nat (length a) + of_int i" id] show ?thesis
    by auto
qed

interpretation ring: balancer_laws
  "\<lambda>es. case ring_from_iter F hash_slot authority weight es of Some b \<Rightarrow> b | None \<Rightarrow> \<lparr>rg_items = [], rg_ring = []\<rparr>"
  "ring_next_item random" ring_members
  for F :: "('f, 'x) f64_ops_scheme" and hash_slot authority weight random
proof
  show "ring_members (case ring_from_iter F hash_slot authority weight es of Some b \<Rightarrow> b | None \<Rightarrow> \<lparr>rg_items = [], rg_ring = []\<rparr>) \<subseteq> set es" for es
    using collect_checked_subset [of "map (\<lambda>e. lb_item_new (weight e) e) es"]
    by (force simp: ring_members_def ring_from_iter_def ring_new_def ring_new_with_settings_def split_def Let_def lb_item_new_def
        split: option.splits)
  show "e \<in> ring_members b" if "ring_next_item random h b = (Some e, b')" for h b e b'
    using that by (auto simp: ring_next_item_def ring_members_def Let_def split: if_splits list.splits)
  show "ring_members b' = ring_members b" if "ring_next_item random h b = (r, b')" for h b r b'
    using that by (auto simp: ring_next_item_def Let_def split: if_splits)
qed

end
