(* ===== verification/Random_Least.thy ===== *)
theory Random_Least
  imports Lb_Item F64
begin

text \<open>
  The random balancer (\<open>orion-lib/src/clusters/balancers/random.rs\<close>) and the least request balancer
  (\<open>least.rs\<close>).

  The crate rand is a parameter: the state of a generator is a type, \<open>WeightedIndex\<close>, \<open>choose_multiple\<close> and
  \<open>random_range\<close> are functions on it (\<open>choose_multiple\<close> on the positions of the items).  The load of an
  endpoint is read when the choice is made, so it is an argument of the choice.
\<close>

section \<open>Random choice\<close>

record ('w, 'g) weighted_index_ops =
  weighted_index_new :: "u32 list \<Rightarrow> 'w option"
  weighted_sample :: "'w \<Rightarrow> 'g \<Rightarrow> nat \<times> 'g"

record ('w, 'g, 'e) random_balancer =
  rb_items :: "'e lb_item list"
  weighted_index :: "'w option"
  rb_rng :: 'g

definition random_new_with_rng :: "('w, 'g) weighted_index_ops \<Rightarrow> 'e lb_item list \<Rightarrow> 'g \<Rightarrow> ('w, 'g, 'e) random_balancer" where
  "random_new_with_rng R items rng =
     (let items = fst (collect_checked items)
      in \<lparr>rb_items = items, weighted_index = weighted_index_new R (map lb_weight items), rb_rng = rng\<rparr>)"

text \<open>\<open>rng\<close> is the generator \<open>SmallRng::from_rng\<close> returns.\<close>
definition random_from_iter :: "('w, 'g) weighted_index_ops \<Rightarrow> 'g \<Rightarrow> ('e \<Rightarrow> u32) \<Rightarrow> 'e list \<Rightarrow> ('w, 'g, 'e) random_balancer" where
  "random_from_iter R rng weight es = random_new_with_rng R (map (\<lambda>e. lb_item_new (weight e) e) es) rng"

definition random_default :: "('w, 'g) weighted_index_ops \<Rightarrow> 'g \<Rightarrow> ('e \<Rightarrow> u32) \<Rightarrow> ('w, 'g, 'e) random_balancer" where
  "random_default R rng weight = random_from_iter R rng weight []"

definition random_next_item ::
  "('w, 'g) weighted_index_ops \<Rightarrow> u64 option \<Rightarrow> ('w, 'g, 'e) random_balancer \<Rightarrow> 'e option \<times> ('w, 'g, 'e) random_balancer" where
  "random_next_item R hash b =
     (case weighted_index b of
        None \<Rightarrow> (None, b)
      | Some w \<Rightarrow>
          let (i, rng) = weighted_sample R w (rb_rng b)
          in (if i < length (rb_items b) then Some (lb_item_of (rb_items b ! i)) else None, b\<lparr>rb_rng := rng\<rparr>))"

definition random_members :: "('w, 'g, 'e) random_balancer \<Rightarrow> 'e set" where
  "random_members b = lb_item_of ` set (rb_items b)"

text \<open>\<open>WeightedIndex\<close>: an index exists when some weight is not zero and the sum does not overflow, and a sample
  is a position of non-zero weight.\<close>
definition weighted_index_laws :: "('w, 'g) weighted_index_ops \<Rightarrow> bool" where
  "weighted_index_laws R \<longleftrightarrow>
     (\<forall>ws. (weighted_index_new R ws \<noteq> None \<longleftrightarrow> (\<exists>w \<in> set ws. w \<noteq> 0) \<and> sum_list (map unat ws) \<le> u32_max)) \<and>
     (\<forall>ws w g i g'. weighted_index_new R ws = Some w \<longrightarrow> weighted_sample R w g = (i, g') \<longrightarrow> i < length ws \<and> ws ! i \<noteq> 0)"

section \<open>Least request\<close>

record ('f, 'e) least_lb_item =
  ll_weight :: u32
  ll_current_weight :: 'f
  ll_item :: 'e

definition least_lb_item_new :: "('f, 'a) f64_ops_scheme \<Rightarrow> u32 \<Rightarrow> 'e \<Rightarrow> ('f, 'e) least_lb_item" where
  "least_lb_item_new F weight item = \<lparr>ll_weight = weight, ll_current_weight = f_zero F, ll_item = item\<rparr>"

text \<open>\<open>powf\<close> is \<open>f64::powf\<close> with the \<open>f32\<close> exponent; \<open>load + 1\<close> wraps.\<close>
definition least_weight ::
  "('f, 'a) f64_ops_scheme \<Rightarrow> ('f \<Rightarrow> 'p \<Rightarrow> 'f) \<Rightarrow> ('p \<Rightarrow> bool) \<Rightarrow> ('e \<Rightarrow> u32) \<Rightarrow> 'p \<Rightarrow> ('f, 'e) least_lb_item \<Rightarrow> 'f" where
  "least_weight F powf is_zero load active_request_bias it =
     (if is_zero active_request_bias then f_from_u32 F (ll_weight it)
      else f_div F (f_from_u32 F (ll_weight it)) (powf (f_from_u32 F (load (ll_item it) + 1)) active_request_bias))"

definition least_adjust_current_weight :: "('f, 'a) f64_ops_scheme \<Rightarrow> 'f \<Rightarrow> ('f, 'e) least_lb_item \<Rightarrow> ('f, 'e) least_lb_item" where
  "least_adjust_current_weight F value it = it\<lparr>ll_current_weight := f_add F (ll_current_weight it) value\<rparr>"

record 'g choice_ops =
  choose_multiple :: "'g \<Rightarrow> nat \<Rightarrow> nat \<Rightarrow> nat list \<times> 'g"
  random_range :: "'g \<Rightarrow> nat \<Rightarrow> nat \<times> 'g"

record ('f, 'p, 'g, 'e) least_balancer =
  ls_items :: "('f, 'e) least_lb_item list"
  active_request_bias :: 'p
  p2c_choice_count :: u32
  all_weights_equal :: bool
  ls_rng :: 'g

definition all_equal :: "('f, 'e) least_lb_item list \<Rightarrow> bool" where
  "all_equal items = (case items of [] \<Rightarrow> True | first # rest \<Rightarrow> list_all (\<lambda>it. ll_weight it = ll_weight first) rest)"

definition least_new_with_settings_and_rng ::
  "('f, 'e) least_lb_item list \<Rightarrow> 'p \<Rightarrow> u32 \<Rightarrow> 'g \<Rightarrow> ('f, 'p, 'g, 'e) least_balancer" where
  "least_new_with_settings_and_rng items bias choice_count rng =
     \<lparr>ls_items = items, active_request_bias = bias, p2c_choice_count = choice_count,
      all_weights_equal = all_equal items, ls_rng = rng\<rparr>"

text \<open>\<open>new\<close> with the default bias 1.0 and two choices.\<close>
definition least_from_iter ::
  "('f, 'a) f64_ops_scheme \<Rightarrow> 'p \<Rightarrow> 'g \<Rightarrow> ('e \<Rightarrow> u32) \<Rightarrow> 'e list \<Rightarrow> ('f, 'p, 'g, 'e) least_balancer" where
  "least_from_iter F bias_one rng weight es =
     least_new_with_settings_and_rng (map (\<lambda>e. least_lb_item_new F (weight e) e) es) bias_one 2 rng"

definition least_default ::
  "('f, 'a) f64_ops_scheme \<Rightarrow> 'p \<Rightarrow> 'g \<Rightarrow> ('e \<Rightarrow> u32) \<Rightarrow> ('f, 'p, 'g, 'e) least_balancer" where
  "least_default F bias_one rng weight = least_from_iter F bias_one rng weight []"

definition least_next_item_wrr ::
  "('f, 'a) f64_ops_scheme \<Rightarrow> ('f \<Rightarrow> 'p \<Rightarrow> 'f) \<Rightarrow> ('p \<Rightarrow> bool) \<Rightarrow> ('f \<Rightarrow> 'f) \<Rightarrow> ('e \<Rightarrow> u32) \<Rightarrow> ('f, 'p, 'g, 'e) least_balancer
     \<Rightarrow> 'e option \<times> ('f, 'p, 'g, 'e) least_balancer" where
  "least_next_item_wrr F powf is_zero neg load b =
     (if length (ls_items b) \<le> 1
      then (case ls_items b of [] \<Rightarrow> None | it # _ \<Rightarrow> Some (ll_item it), b)
      else let weights = map (least_weight F powf is_zero load (active_request_bias b)) (ls_items b);
               items = map (\<lambda>(it, w). least_adjust_current_weight F w it) (zip (ls_items b) weights);
               tot = f_sum F weights
           in case reduce_idx (\<lambda>it best. f_lt F (ll_current_weight best) (ll_current_weight it)) items of
                None \<Rightarrow> (None, b\<lparr>ls_items := items\<rparr>)
              | Some i \<Rightarrow> (Some (ll_item (items ! i)), b\<lparr>ls_items := items[i := least_adjust_current_weight F (neg tot) (items ! i)]\<rparr>))"

text \<open>\<open>chosen.into_iter().cycle().skip(offset).take(cnt)\<close>.\<close>
definition cycle_skip_take :: "'a list \<Rightarrow> nat \<Rightarrow> nat \<Rightarrow> 'a list" where
  "cycle_skip_take xs offset cnt = (if xs = [] then [] else map (\<lambda>i. xs ! ((offset + i) mod length xs)) [0..<cnt])"

fun least_loaded :: "('e \<Rightarrow> u32) \<Rightarrow> 'e \<Rightarrow> 'e list \<Rightarrow> 'e" where
  "least_loaded load best [] = best"
| "least_loaded load best (e # es) = (if load e < load best then least_loaded load e es else least_loaded load best es)"

text \<open>An empty range panics in \<open>random_range\<close>.\<close>
definition least_next_item_p2c ::
  "'g choice_ops \<Rightarrow> ('e \<Rightarrow> u32) \<Rightarrow> ('f, 'p, 'g, 'e) least_balancer \<Rightarrow> ('e option \<times> ('f, 'p, 'g, 'e) least_balancer) outcome" where
  "least_next_item_p2c R load b =
     (if length (ls_items b) \<le> 1
      then Ret (case ls_items b of [] \<Rightarrow> None | it # _ \<Rightarrow> Some (ll_item it), b)
      else let choice_count = unat (p2c_choice_count b);
               (chosen_items, rng1) = choose_multiple R (ls_rng b) (length (ls_items b)) choice_count
           in if chosen_items = [] then Panic
              else let (random_offset, rng2) = random_range R rng1 (length chosen_items);
                       b' = b\<lparr>ls_rng := rng2\<rparr>
                   in Ret (case map (\<lambda>i. ll_item (ls_items b ! i)) (cycle_skip_take chosen_items random_offset choice_count) of
                             [] \<Rightarrow> (None, b')
                           | first # rest \<Rightarrow> (Some (least_loaded load first rest), b')))"

definition least_next_item ::
  "('f, 'a) f64_ops_scheme \<Rightarrow> ('f \<Rightarrow> 'p \<Rightarrow> 'f) \<Rightarrow> ('p \<Rightarrow> bool) \<Rightarrow> ('f \<Rightarrow> 'f) \<Rightarrow> 'g choice_ops \<Rightarrow> ('e \<Rightarrow> u32) \<Rightarrow> u64 option
     \<Rightarrow> ('f, 'p, 'g, 'e) least_balancer \<Rightarrow> ('e option \<times> ('f, 'p, 'g, 'e) least_balancer) outcome" where
  "least_next_item F powf is_zero neg R load hash b =
     (if all_weights_equal b then least_next_item_p2c R load b
      else Ret (least_next_item_wrr F powf is_zero neg load b))"

text \<open>The crate rand: \<open>choose_multiple\<close> gives as many distinct positions as asked for and available,
  \<open>random_range(0..n)\<close> a number below \<open>n\<close>.\<close>
definition choice_laws :: "'g choice_ops \<Rightarrow> bool" where
  "choice_laws R \<longleftrightarrow>
     (\<forall>g n k. let idx = fst (choose_multiple R g n k) in
        distinct idx \<and> set idx \<subseteq> {..<n} \<and> length idx = min n k) \<and>
     (\<forall>g n. 0 < n \<longrightarrow> fst (random_range R g n) < n)"

section \<open>The random balancer returns an endpoint with weight\<close>

lemma random_next_item_ready:
  assumes "weighted_index_laws R" "e \<in> set es" "weight e \<noteq> 0" "sum_list (map (\<lambda>e. unat (weight e)) es) \<le> u32_max"
  shows "\<exists>e' \<in> set es. weight e' \<noteq> 0 \<and> fst (random_next_item R hash (random_from_iter R rng weight es)) = Some e'"
proof -
  let ?items = "map (\<lambda>e. lb_item_new (weight e) e) es"
  have tw: "total_weight ?items = sum_list (map (\<lambda>e. unat (weight e)) es)"
    by (simp add: lb_item_new_def o_def)
  have "fst (collect_checked ?items) = ?items"
    using collect_checked_fits [of ?items] assms(4) unfolding tw by auto
  then have b: "random_from_iter R rng weight es =
      \<lparr>rb_items = ?items, weighted_index = weighted_index_new R (map weight es), rb_rng = rng\<rparr>"
    by (simp add: random_from_iter_def random_new_with_rng_def lb_item_new_def o_def)
  obtain w where w: "weighted_index_new R (map weight es) = Some w"
    using assms by (fastforce simp: weighted_index_laws_def o_def)
  obtain i g where s: "weighted_sample R w rng = (i, g)" by fastforce
  have "i < length (map weight es) \<and> map weight es ! i \<noteq> 0"
    by (rule assms(1) [unfolded weighted_index_laws_def, THEN conjunct2, rule_format, OF w s])
  then have "i < length es" "weight (es ! i) \<noteq> 0"
    by auto
  then show ?thesis
    by (intro bexI [of _ "es ! i"]) (simp_all add: b random_next_item_def w s lb_item_new_def)
qed

interpretation random: balancer_laws "random_from_iter R rng weight" "random_next_item R" random_members
  for R :: "('w, 'g) weighted_index_ops" and rng weight
proof
  show "random_members (random_from_iter R rng weight es) \<subseteq> set es" for es
    using collect_checked_subset [of "map (\<lambda>e. lb_item_new (weight e) e) es"]
    by (force simp: random_members_def random_from_iter_def random_new_with_rng_def Let_def lb_item_new_def)
  show "e \<in> random_members b" if "random_next_item R h b = (Some e, b')" for h b e b'
    using that by (auto simp: random_next_item_def random_members_def Let_def split: if_splits option.splits prod.splits)
  show "random_members b' = random_members b" if "random_next_item R h b = (r, b')" for h b r b'
    using that by (auto simp: random_next_item_def random_members_def Let_def split: option.splits prod.splits)
qed

section \<open>Power of two choices\<close>

lemma least_loaded_min: "least_loaded load e es \<in> set (e # es) \<and> (\<forall>x \<in> set (e # es). load (least_loaded load e es) \<le> load x)"
proof (induction es arbitrary: e)
  case (Cons a es)
  show ?case
  proof (cases "load a < load e")
    case True
    with Cons.IH [of a] show ?thesis by auto
  next
    case False
    with Cons.IH [of e] show ?thesis by auto
  qed
qed simp

text \<open>A rotation of the chosen items, with repetitions when fewer are available than asked for.\<close>
lemma set_cycle_skip_take:
  assumes "length xs \<le> cnt" "xs \<noteq> []"
  shows "set (cycle_skip_take xs offset cnt) = set xs"
proof -
  let ?n = "length xs"
  have "set (cycle_skip_take xs offset cnt) = (\<lambda>i. xs ! ((offset + i) mod ?n)) ` {..<cnt}"
    using assms(2) by (auto simp: cycle_skip_take_def atLeast0LessThan)
  moreover have "xs ! j \<in> (\<lambda>i. xs ! ((offset + i) mod ?n)) ` {..<cnt}" if "j < ?n" for j
  proof -
    let ?i = "(j + (?n - offset mod ?n)) mod ?n"
    have "(offset + ?i) mod ?n = (offset mod ?n + (j + (?n - offset mod ?n))) mod ?n"
      by (simp add: mod_simps)
    also have "offset mod ?n + (j + (?n - offset mod ?n)) = j + ?n"
      using mod_less_divisor [of ?n offset] that by linarith
    finally have "(offset + ?i) mod ?n = j"
      using that by simp
    moreover have "?i < cnt"
      using assms by (meson length_greater_0_conv less_le_trans mod_less_divisor)
    ultimately show ?thesis by (intro image_eqI [of _ _ ?i]) simp_all
  qed
  moreover have "xs ! ((offset + i) mod ?n) \<in> set xs" for i
    using assms(2) by (intro nth_mem) simp
  ultimately show ?thesis
    by (auto simp: in_set_conv_nth)
qed

text \<open>C35: Power of two choices.  When all weights are equal the least request balancer samples two
  different endpoints (whatever the generator draws) and returns the one of least load: the other sampled
  endpoint has no lower load.  It does not panic.\<close>
theorem p2c_least_loaded:
  assumes "choice_laws R" "2 \<le> length es" "\<forall>e \<in> set es. weight e = w"
  shows "\<exists>i j b'. i < length es \<and> j < length es \<and> i \<noteq> j \<and> load (es ! i) \<le> load (es ! j) \<and>
    least_next_item F powf is_zero neg R load hash (least_from_iter F bias rng weight es) = Ret (Some (es ! i), b')"
proof -
  let ?b = "least_from_iter F bias rng weight es"
  have b: "ls_items ?b = map (\<lambda>e. least_lb_item_new F (weight e) e) es" "p2c_choice_count ?b = 2" "all_weights_equal ?b" "ls_rng ?b = rng"
    using assms(3) by (auto simp: least_from_iter_def least_new_with_settings_and_rng_def all_equal_def least_lb_item_new_def
        list_all_iff split: list.splits)
  obtain idx g1 where ch: "choose_multiple R rng (length es) 2 = (idx, g1)" by fastforce
  have "distinct idx \<and> set idx \<subseteq> {..<length es} \<and> length idx = min (length es) 2"
    using assms(1) ch unfolding choice_laws_def Let_def by (metis fst_conv)
  then have idx: "distinct idx" "set idx \<subseteq> {..<length es}" "length idx = 2"
    using assms(2) by auto
  then obtain i0 j0 where ij: "idx = [i0, j0]" "i0 \<noteq> j0"
    by (auto simp: length_Suc_conv numeral_2_eq_2)
  obtain off g2 where off: "random_range R g1 (length idx) = (off, g2)" by fastforce
  obtain k ks where ks: "cycle_skip_take idx off 2 = k # ks" "set (k # ks) = {i0, j0}"
    using set_cycle_skip_take [of "idx" 2 off] idx(3) ij by (cases "cycle_skip_take idx off 2") auto
  let ?item = "\<lambda>i. es ! i"
  let ?r = "least_loaded load (?item k) (map ?item ks)"
  have "?r \<in> ?item ` {i0, j0}" and least: "\<forall>x \<in> ?item ` {i0, j0}. load ?r \<le> load x"
    using least_loaded_min [of load "?item k" "map ?item ks"] ks(2) by (auto simp: image_iff)
  then obtain i where i: "i \<in> {i0, j0}" "?r = es ! i" by blast
  have lt: "i0 < length es" "j0 < length es" "k < length es" "\<forall>i \<in> set ks. i < length es"
    using idx(2) ij ks(2) by auto
  have items: "ll_item (ls_items ?b ! k) = es ! k" "map (\<lambda>i. ll_item (ls_items ?b ! i)) ks = map ?item ks" "length (ls_items ?b) = length es"
    using lt by (auto simp: b least_lb_item_new_def)
  have "least_next_item F powf is_zero neg R load hash ?b = Ret (Some (es ! i), ?b\<lparr>ls_rng := g2\<rparr>)"
    using assms(2) idx(3) ch off ks(1) i(2) b(2-4) ij(1)
    by (simp add: least_next_item_def least_next_item_p2c_def Let_def items)
  moreover obtain j where "j \<in> {i0, j0}" "i \<noteq> j" "load (es ! i) \<le> load (es ! j)"
    using i ij(2) least by (metis imageI insertCI)
  ultimately show ?thesis
    using i(1) lt(1,2) by blast
qed

definition example_choice :: "unit choice_ops" where
  "example_choice = \<lparr>choose_multiple = (\<lambda>_ n k. ([0..<min n k], ())), random_range = (\<lambda>_ n. (0, ()))\<rparr>"

lemma example_choice_laws: "choice_laws example_choice"
  by (auto simp: choice_laws_def example_choice_def Let_def)

theorem p2c_least_loaded_witness:
  "\<exists>b'. least_next_item rat_f64 (\<lambda>x _. x) (\<lambda>_. False) uminus example_choice (\<lambda>e. if e = ''a'' then 7 else 3) None
     (least_from_iter rat_f64 () () (\<lambda>_. 1) [''a'', ''b'']) = Ret (Some ''b'', b')"
proof -
  let ?es = "[''a'', ''b'']" and ?load = "\<lambda>e. if e = ''a'' then 7 else 3 :: u32"
  obtain i j b' where ij: "i < length ?es" "j < length ?es" "i \<noteq> j" "?load (?es ! i) \<le> ?load (?es ! j)"
    and r: "least_next_item rat_f64 (\<lambda>x _. x) (\<lambda>_. False) uminus example_choice ?load None
      (least_from_iter rat_f64 () () (\<lambda>_. 1) ?es) = Ret (Some (?es ! i), b')"
    using p2c_least_loaded [OF example_choice_laws, of ?es "\<lambda>_. 1" 1 ?load rat_f64 "\<lambda>x _. x" "\<lambda>_. False" uminus None "()" "()"] by auto
  have "i = 1"
    using ij by (cases i; cases j) auto
  with r show ?thesis by auto
qed

end
