(* ===== verification/Async_Stream.thy ===== *)
theory Async_Stream
  imports Orion_Prelude
begin

text \<open>
  Byte streams.  A stream is a state with a read operation (\<open>poll_read\<close> of \<open>tokio::io::AsyncRead\<close> run to
  completion): asked for at most \<open>n\<close> bytes it gives some, none at the end of the stream, or an error.  The locale
  \<open>async_stream\<close> is the contract of a connection that does not fail: it gives its data in order, in pieces of
  any size.  \<open>utils/rewindable_stream.rs\<close> wraps a stream and records what is read from it; the wrapper meets the
  same contract, and rewound it gives the recorded bytes again.

  \<open>AsyncReadExt::read_exact\<close> of tokio is a parameter of the definitions that use it, with its documented behaviour
  as \<open>read_exact_laws\<close>: it is a sequence of reads that ends when the bytes are there, or fails when a
  read gives nothing or an error.
\<close>

section \<open>Reading\<close>

datatype read_result = ReadOk "u8 list" | ReadWouldBlock | ReadError

type_synonym 's async_read = "nat \<Rightarrow> 's \<Rightarrow> read_result \<times> 's"

text \<open>A sequence of reads that give data, with all the data they give.\<close>
inductive reads :: "'s async_read \<Rightarrow> 's \<Rightarrow> u8 list \<Rightarrow> 's \<Rightarrow> bool" for read where
  reads_none: "reads read s [] s"
| reads_more: "read n s = (ReadOk bytes, s') \<Longrightarrow> reads read s' bs s'' \<Longrightarrow> reads read s (bytes @ bs) s''"

type_synonym 's read_exact = "nat \<Rightarrow> 's \<Rightarrow> u8 list option \<times> 's"

definition read_exact_laws :: "'s async_read \<Rightarrow> 's read_exact \<Rightarrow> bool" where
  "read_exact_laws read read_exact \<longleftrightarrow> (\<forall>n s. case read_exact n s of
      (Some bs, s') \<Rightarrow> length bs = n \<and> reads read s bs s'
    | (None, s') \<Rightarrow> \<exists>bs s1 k. length bs < n \<and> 0 < k \<and> reads read s bs s1 \<and>
                       (read k s1 = (ReadOk [], s') \<or> read k s1 = (ReadWouldBlock, s') \<or> read k s1 = (ReadError, s')))"

section \<open>Rewindable streams\<close>

datatype 's rewindable =
    HeadBufferingReadOnlyMode 's "u8 list"
  | FullReplayMode 's "u8 list" nat

definition rewindable_new :: "'s \<Rightarrow> 's rewindable" where
  "rewindable_new inner = HeadBufferingReadOnlyMode inner []"

fun into_stream :: "'s rewindable \<Rightarrow> 's" where
  "into_stream (FullReplayMode inner _ _) = inner"
| "into_stream (HeadBufferingReadOnlyMode inner _) = inner"

fun into_rewound_stream :: "'s rewindable \<Rightarrow> 's rewindable" where
  "into_rewound_stream (HeadBufferingReadOnlyMode inner buffer) = FullReplayMode inner buffer 0"
| "into_rewound_stream (FullReplayMode inner replay_buffer read_pos) = FullReplayMode inner replay_buffer read_pos"

fun rewindable_read :: "'s async_read \<Rightarrow> 's rewindable async_read" where
  "rewindable_read read n (HeadBufferingReadOnlyMode inner buffer) =
     (case read n inner of
        (ReadOk bytes_read, inner') \<Rightarrow> (ReadOk bytes_read, HeadBufferingReadOnlyMode inner' (buffer @ bytes_read))
      | (other, inner') \<Rightarrow> (other, HeadBufferingReadOnlyMode inner' buffer))"
| "rewindable_read read n (FullReplayMode inner replay_buffer read_pos) =
     (if read_pos < length replay_buffer
      then let remaining_buffer = drop read_pos replay_buffer;
               to_copy = min (length remaining_buffer) n
           in (ReadOk (take to_copy remaining_buffer), FullReplayMode inner replay_buffer (read_pos + to_copy))
      else case read n inner of (r, inner') \<Rightarrow> (r, FullReplayMode inner' replay_buffer read_pos))"

text \<open>Writing: only once nothing is left to replay.\<close>
fun rewindable_write :: "('s \<Rightarrow> u8 list \<Rightarrow> (unit + nat) \<times> 's) \<Rightarrow> u8 list \<Rightarrow> 's rewindable \<Rightarrow> (unit + nat) \<times> 's rewindable" where
  "rewindable_write write buf (HeadBufferingReadOnlyMode inner buffer) = (Inl (), HeadBufferingReadOnlyMode inner buffer)"
| "rewindable_write write buf (FullReplayMode inner replay_buffer read_pos) =
     (if read_pos \<ge> length replay_buffer
      then case write inner buf of (r, inner') \<Rightarrow> (r, FullReplayMode inner' replay_buffer read_pos)
      else (Inl (), FullReplayMode inner replay_buffer read_pos))"

text \<open>The data a wrapped stream still has to give.\<close>
fun rewindable_data :: "('s \<Rightarrow> u8 list) \<Rightarrow> 's rewindable \<Rightarrow> u8 list" where
  "rewindable_data data (HeadBufferingReadOnlyMode inner buffer) = data inner"
| "rewindable_data data (FullReplayMode inner replay_buffer read_pos) = drop read_pos replay_buffer @ data inner"

section \<open>The contract of a connection\<close>

locale async_stream =
  fixes read :: "'s async_read" and data :: "'s \<Rightarrow> u8 list"
  assumes read_in_order: "\<exists>bytes s'. read n s = (ReadOk bytes, s') \<and> data s = bytes @ data s' \<and> length bytes \<le> n \<and>
    (0 < n \<and> data s \<noteq> [] \<longrightarrow> bytes \<noteq> [])"
begin

lemma readE:
  obtains bytes s' where "read n s = (ReadOk bytes, s')" "data s = bytes @ data s'" "length bytes \<le> n"
    "0 < n \<Longrightarrow> data s \<noteq> [] \<Longrightarrow> bytes \<noteq> []"
  using read_in_order [of n s] by blast

lemma reads_data: "reads read s bs s' \<Longrightarrow> data s = bs @ data s'"
proof (induction rule: reads.induct)
  case (reads_more n s bytes s' bs s'')
  obtain b t where "read n s = (ReadOk b, t)" "data s = b @ data t"
    by (rule readE [of n s]) (rule that, assumption+)
  with reads_more show ?case by simp
qed simp

lemma read_exact_available:
  assumes "read_exact_laws read read_exact" "n \<le> length (data s)"
  obtains s' where "read_exact n s = (Some (take n (data s)), s')" "data s' = drop n (data s)"
    "reads read s (take n (data s)) s'"
proof -
  have law: "case read_exact n s of (Some bs, s') \<Rightarrow> length bs = n \<and> reads read s bs s'
    | (None, s') \<Rightarrow> \<exists>bs s1 k. length bs < n \<and> 0 < k \<and> reads read s bs s1 \<and>
        (read k s1 = (ReadOk [], s') \<or> read k s1 = (ReadWouldBlock, s') \<or> read k s1 = (ReadError, s'))"
    by (rule assms(1) [unfolded read_exact_laws_def, THEN spec, THEN spec])
  show thesis
  proof (cases "read_exact n s")
    case (Pair r s')
    show ?thesis
    proof (cases r)
      case None
      with law Pair obtain bs s1 k where *: "length bs < n" "0 < k" "reads read s bs s1"
        "read k s1 = (ReadOk [], s') \<or> read k s1 = (ReadWouldBlock, s') \<or> read k s1 = (ReadError, s')" by auto
      have "data s1 \<noteq> []"
        using reads_data [OF *(3)] *(1) assms(2) by auto
      moreover obtain b t where "read k s1 = (ReadOk b, t)" "0 < k \<Longrightarrow> data s1 \<noteq> [] \<Longrightarrow> b \<noteq> []"
        by (rule readE [of k s1]) (rule that, assumption+)
      ultimately show ?thesis
        using *(2,4) by auto
    next
      case (Some bs)
      with law Pair have *: "length bs = n" "reads read s bs s'" by auto
      from reads_data [OF *(2)] have "bs = take n (data s)" "data s' = drop n (data s)"
        using *(1) by simp_all
      with Some Pair *(2) show ?thesis by (intro that) simp_all
    qed
  qed
qed

end

locale rewindable_stream = inner: async_stream inner_read inner_data
  for inner_read :: "'s async_read" and inner_data :: "'s \<Rightarrow> u8 list"

sublocale rewindable_stream \<subseteq> outer: async_stream "rewindable_read inner_read" "rewindable_data inner_data"
proof
  fix n s
  show "\<exists>bytes s'. rewindable_read inner_read n s = (ReadOk bytes, s') \<and>
      rewindable_data inner_data s = bytes @ rewindable_data inner_data s' \<and> length bytes \<le> n \<and>
      (0 < n \<and> rewindable_data inner_data s \<noteq> [] \<longrightarrow> bytes \<noteq> [])"
  proof (cases s)
    case (HeadBufferingReadOnlyMode i b)
    moreover obtain bytes i' where "inner_read n i = (ReadOk bytes, i')" "inner_data i = bytes @ inner_data i'" "length bytes \<le> n"
      "0 < n \<Longrightarrow> inner_data i \<noteq> [] \<Longrightarrow> bytes \<noteq> []"
      by (rule inner.readE [of n i]) (rule that, assumption+)
    ultimately show ?thesis by auto
  next
    case (FullReplayMode i b p)
    show ?thesis
    proof (cases "p < length b")
      case True
      let ?k = "min (length b - p) n"
      have "drop p b = take ?k (drop p b) @ drop (p + ?k) b"
        using append_take_drop_id [of ?k "drop p b"] by (simp add: add.commute)
      moreover have "rewindable_read inner_read n s = (ReadOk (take ?k (drop p b)), FullReplayMode i b (p + ?k))"
        using True FullReplayMode by (simp add: Let_def)
      moreover have "0 < n \<Longrightarrow> take ?k (drop p b) \<noteq> []"
        using True by simp
      ultimately show ?thesis using FullReplayMode by fastforce
    next
      case False
      moreover obtain bytes i' where "inner_read n i = (ReadOk bytes, i')" "inner_data i = bytes @ inner_data i'" "length bytes \<le> n"
        "0 < n \<Longrightarrow> inner_data i \<noteq> [] \<Longrightarrow> bytes \<noteq> []"
        by (rule inner.readE [of n i]) (rule that, assumption+)
      ultimately show ?thesis using FullReplayMode by auto
    qed
  qed
qed

text \<open>The wrapper records exactly what is read through it.\<close>
lemma rewindable_reads:
  assumes "reads (rewindable_read read) s bs s'" "s = HeadBufferingReadOnlyMode inner buffer"
  shows "\<exists>inner'. s' = HeadBufferingReadOnlyMode inner' (buffer @ bs) \<and> reads read inner bs inner'"
  using assms
proof (induction arbitrary: inner buffer rule: reads.induct)
  case (reads_none s)
  then show ?case by (auto intro: reads.reads_none)
next
  case (reads_more n s bytes s' bs s'')
  then obtain i' where r: "read n inner = (ReadOk bytes, i')" "s' = HeadBufferingReadOnlyMode i' (buffer @ bytes)"
    by (auto split: prod.splits read_result.splits)
  from reads_more.IH [OF r(2)] obtain i'' where "s'' = HeadBufferingReadOnlyMode i'' (buffer @ bytes @ bs)" "reads read i' bs i''"
    by auto
  with r(1) show ?case by (auto intro: reads.reads_more)
qed

section \<open>A stream over bytes in memory\<close>

definition cursor_read :: "u8 list async_read" where
  "cursor_read n s = (ReadOk (take n s), drop n s)"

interpretation cursor: async_stream cursor_read "\<lambda>s. s"
  by unfold_locales (auto simp: cursor_read_def)

interpretation rewindable_cursor: rewindable_stream cursor_read "\<lambda>s. s"
  by unfold_locales

section \<open>Big-endian integers\<close>

definition from_be_bytes :: "u8 list \<Rightarrow> 'a::len word" where
  "from_be_bytes bs = word_of_nat (foldl (\<lambda>a b. a * 256 + unat b) 0 bs)"

definition to_be_bytes :: "nat \<Rightarrow> 'a::len word \<Rightarrow> u8 list" where
  "to_be_bytes k w = map (\<lambda>i. word_of_nat (unat w div 256 ^ i)) (rev [0..<k])"

lemma length_to_be_bytes [simp]: "length (to_be_bytes k w) = k"
  by (simp add: to_be_bytes_def)

lemma foldl_be_bytes:
  "foldl (\<lambda>a b. a * 256 + unat b) acc (map (\<lambda>i. word_of_nat (n div 256 ^ i) :: u8) (rev [0..<k])) = acc * 256 ^ k + n mod 256 ^ k"
proof (induction k arbitrary: acc)
  case (Suc k)
  have "n mod (256 ^ k * 256) = 256 ^ k * (n div 256 ^ k mod 256) + n mod 256 ^ k"
    by (rule mod_mult2_eq)
  with Suc show ?case
    by (simp add: unat_of_nat algebra_simps)
qed simp

lemma from_to_be_bytes:
  assumes "LENGTH('a::len) = 8 * k"
  shows "from_be_bytes (to_be_bytes k (w :: 'a word)) = w"
proof -
  have "unat w < 256 ^ k"
    using unsigned_less [of w] assms by (simp add: power_mult)
  then show ?thesis
    by (simp add: from_be_bytes_def to_be_bytes_def foldl_be_bytes)
qed

section \<open>An instance of exact reads\<close>

function read_exact_loop :: "'s async_read \<Rightarrow> u8 list \<Rightarrow> nat \<Rightarrow> 's \<Rightarrow> u8 list option \<times> 's" where
  "read_exact_loop read acc n s =
     (if n = 0 then (Some acc, s)
      else case read n s of
             (ReadOk (b # bs), s') \<Rightarrow> read_exact_loop read (acc @ b # bs) (n - length (b # bs)) s'
           | (ReadOk [], s') \<Rightarrow> (None, s')
           | (ReadWouldBlock, s') \<Rightarrow> (None, s')
           | (ReadError, s') \<Rightarrow> (None, s'))"
  by pat_completeness auto

termination
  by (relation "measure (\<lambda>(_, _, n, _). n)") auto

declare read_exact_loop.simps [simp del]

context async_stream
begin

lemma read_exact_loop_law:
  "case read_exact_loop read acc n s of
     (Some bs, s') \<Rightarrow> \<exists>bs'. bs = acc @ bs' \<and> length bs' = n \<and> reads read s bs' s'
   | (None, s') \<Rightarrow> \<exists>bs s1 k. length bs < n \<and> 0 < k \<and> reads read s bs s1 \<and>
       (read k s1 = (ReadOk [], s') \<or> read k s1 = (ReadWouldBlock, s') \<or> read k s1 = (ReadError, s'))"
proof (induction n arbitrary: acc s rule: less_induct)
  case (less n)
  obtain bytes t where r: "read n s = (ReadOk bytes, t)" "length bytes \<le> n"
    by (rule readE [of n s]) (rule that, assumption+)
  show ?case
  proof (cases "n = 0 \<or> bytes = []")
    case True
    then show ?thesis
    proof
      assume "n = 0"
      then show ?thesis by (simp add: read_exact_loop.simps [of read acc 0 s] reads_none)
    next
      assume b: "bytes = []"
      show ?thesis
      proof (cases "n = 0")
        case True
        then show ?thesis by (simp add: read_exact_loop.simps [of read acc 0 s] reads_none)
      next
        case False
        then have "read_exact_loop read acc n s = (None, t)"
          using r b by (simp add: read_exact_loop.simps [of read acc n s])
        moreover have "\<exists>bs s1 k. length bs < n \<and> 0 < k \<and> reads read s bs s1 \<and>
            (read k s1 = (ReadOk [], t) \<or> read k s1 = (ReadWouldBlock, t) \<or> read k s1 = (ReadError, t))"
          using r(1) b False by (intro exI [of _ "[]"] exI [of _ s] exI [of _ n]) (simp add: reads_none)
        ultimately show ?thesis by simp
      qed
    qed
  next
    case False
    let ?m = "n - length bytes"
    have step: "read_exact_loop read acc n s = read_exact_loop read (acc @ bytes) ?m t"
      using False r by (cases bytes) (simp_all add: read_exact_loop.simps [of read acc n s])
    have "?m < n" using False r(2) by (cases bytes) simp_all
    note IH = less.IH [OF this, of t "acc @ bytes"]
    show ?thesis
    proof (cases "read_exact_loop read (acc @ bytes) ?m t")
      case (Pair res t')
      show ?thesis
      proof (cases res)
        case None
        with IH Pair obtain bs s1 k where *: "length bs < ?m" "0 < k" "reads read t bs s1"
          "read k s1 = (ReadOk [], t') \<or> read k s1 = (ReadWouldBlock, t') \<or> read k s1 = (ReadError, t')" by auto
        have "reads read s (bytes @ bs) s1" using r(1) *(3) by (rule reads_more)
        moreover have "length (bytes @ bs) < n" using *(1) by simp
        ultimately have "\<exists>bs s1 k. length bs < n \<and> 0 < k \<and> reads read s bs s1 \<and>
            (read k s1 = (ReadOk [], t') \<or> read k s1 = (ReadWouldBlock, t') \<or> read k s1 = (ReadError, t'))"
          using *(2,4) by (intro exI [of _ "bytes @ bs"] exI [of _ s1] exI [of _ k]) simp
        then show ?thesis using step Pair None by simp
      next
        case (Some bs)
        with IH Pair obtain bs' where *: "bs = (acc @ bytes) @ bs'" "length bs' = ?m" "reads read t bs' t'" by auto
        have "reads read s (bytes @ bs') t'" using r(1) *(3) by (rule reads_more)
        with * r(2) step Pair Some show ?thesis by (simp add: exI [of _ "bytes @ bs'"])
      qed
    qed
  qed
qed

lemma read_exact_loop_laws: "read_exact_laws read (read_exact_loop read [])"
  unfolding read_exact_laws_def
proof (intro allI)
  fix n s
  show "case read_exact_loop read [] n s of (Some bs, s') \<Rightarrow> length bs = n \<and> reads read s bs s'
    | (None, s') \<Rightarrow> \<exists>bs s1 k. length bs < n \<and> 0 < k \<and> reads read s bs s1 \<and>
        (read k s1 = (ReadOk [], s') \<or> read k s1 = (ReadWouldBlock, s') \<or> read k s1 = (ReadError, s'))"
    using read_exact_loop_law [where acc = "[]" and n = n and s = s] by (simp split: prod.splits option.splits)
qed

end

end
