(* ===== verification/Tlv_Filter.thy ===== *)
theory Tlv_Filter
  imports Async_Stream
begin

text \<open>
  The listener filter that reads the original destination of a connection from type-length-value entries in front
  of the data (\<open>transport/tlv_listener_filter.rs\<close>), and the addresses a connection carries
  (\<open>listeners/filter_state.rs\<close>).  The reading loop is a total function: its measure is the room left before the
  maximal length and the phase of the parser.  Indexing the buffer may panic in the model; that it does not is
  part of the bound on the buffer.
\<close>

section \<open>Metadata of a connection\<close>

datatype tlv_type = TlvCustom u8 | TlvNoOp

definition tlv_type_of_u8 :: "u8 \<Rightarrow> tlv_type" where
  "tlv_type_of_u8 value = (if value = 0 then TlvNoOp else TlvCustom value)"

fun u8_of_tlv_type :: "tlv_type \<Rightarrow> u8" where
  "u8_of_tlv_type TlvNoOp = 0"
| "u8_of_tlv_type (TlvCustom value) = value"

datatype proxy_transport = ProtoUnspecified | ProtoStream | ProtoDatagram

text \<open>The constructors carry the fields of the source in their order; the data of TLV entries is a list of
  entries with distinct keys.\<close>
datatype downstream_connection_metadata =
    MdSocket (md_peer: socket_addr) (md_local: socket_addr) (md_original: "socket_addr option")
  | MdProxyProtocol socket_addr socket_addr proxy_transport "(tlv_type \<times> u8 list) list" socket_addr socket_addr
  | MdTlv socket_addr "(u8 \<times> u8 list) list" socket_addr socket_addr

fun peer_address :: "downstream_connection_metadata \<Rightarrow> socket_addr" where
  "peer_address (MdSocket peer loc _) = peer"
| "peer_address (MdProxyProtocol original_peer _ _ _ _ _) = original_peer"
| "peer_address (MdTlv _ _ proxy_peer _) = proxy_peer"

fun local_address :: "downstream_connection_metadata \<Rightarrow> socket_addr" where
  "local_address (MdSocket _ loc _) = loc"
| "local_address (MdProxyProtocol _ original_destination _ _ _ _) = original_destination"
| "local_address (MdTlv original_destination _ _ _) = original_destination"

fun original_destination_address :: "downstream_connection_metadata \<Rightarrow> socket_addr" where
  "original_destination_address (MdSocket _ _ (Some dst)) = dst"
| "original_destination_address (MdSocket _ loc None) = loc"
| "original_destination_address (MdProxyProtocol _ original_destination _ _ _ _) = original_destination"
| "original_destination_address (MdTlv original_destination _ _ _) = original_destination"

section \<open>The filter\<close>

definition tlv_type_len :: nat where "tlv_type_len = 1"
definition tlv_length_len :: nat where "tlv_length_len = 4"
definition tlv_type_service_address :: u8 where "tlv_type_service_address = 1"
definition tlv_type_ending :: u8 where "tlv_type_ending = 0xfe"
definition service_address_ipv4_len :: u32 where "service_address_ipv4_len = 6"
definition service_address_ipv6_len :: u32 where "service_address_ipv6_len = 18"
definition max_tlv_length_const :: nat where "max_tlv_length_const = 256"

lemmas tlv_consts = tlv_type_len_def tlv_length_len_def tlv_type_service_address_def tlv_type_ending_def
  service_address_ipv4_len_def service_address_ipv6_len_def max_tlv_length_const_def

datatype tlv_parse_state = TypeAndLength | Content

datatype read_or_parse_state = TlvDone | TlvError | SkipFilter

record tlv_filter =
  tlv_state :: tlv_parse_state
  expected_length :: nat
  tlv_index :: nat
  content_length :: u32
  max_tlv_length :: nat
  tlv_buffer :: "u8 list"

definition tlv_new :: "nat \<Rightarrow> tlv_filter" where
  "tlv_new max_length =
     \<lparr>tlv_state = TypeAndLength, expected_length = tlv_type_len + tlv_length_len, tlv_index = 0, content_length = 0,
      max_tlv_length = max_length, tlv_buffer = []\<rparr>"

definition tlv_default :: tlv_filter where
  "tlv_default = tlv_new max_tlv_length_const"

text \<open>The errors of these functions carry only a message.\<close>
definition read_u32_be :: "tlv_filter \<Rightarrow> nat \<Rightarrow> u32 option" where
  "read_u32_be f offset =
     (if offset + 4 > length (tlv_buffer f) then None
      else Some (from_be_bytes [tlv_buffer f ! offset, tlv_buffer f ! (offset + 1), tlv_buffer f ! (offset + 2), tlv_buffer f ! (offset + 3)]))"

definition read_u16_be :: "tlv_filter \<Rightarrow> nat \<Rightarrow> u16 option" where
  "read_u16_be f offset =
     (if offset + 2 > length (tlv_buffer f) then None
      else Some (from_be_bytes [tlv_buffer f ! offset, tlv_buffer f ! (offset + 1)]))"

definition validate_service_address_length :: "u32 \<Rightarrow> bool" where
  "validate_service_address_length cl \<longleftrightarrow> cl = service_address_ipv4_len \<or> cl = service_address_ipv6_len"

definition parse_ipv4_address :: "tlv_filter \<Rightarrow> nat \<Rightarrow> socket_addr option" where
  "parse_ipv4_address f content_start =
     (if content_start + 6 > length (tlv_buffer f) then None
      else let ip_bytes = take 4 (drop content_start (tlv_buffer f))
           in map_option (\<lambda>port. \<lparr>sa_ip = V4 (from_be_bytes ip_bytes), sa_port = port\<rparr>) (read_u16_be f (content_start + 4)))"

definition parse_ipv6_address :: "tlv_filter \<Rightarrow> nat \<Rightarrow> socket_addr option" where
  "parse_ipv6_address f content_start =
     (if content_start + 18 > length (tlv_buffer f) then None
      else let ip_bytes = take 16 (drop content_start (tlv_buffer f))
           in map_option (\<lambda>port. \<lparr>sa_ip = V6 (from_be_bytes ip_bytes), sa_port = port\<rparr>) (read_u16_be f (content_start + 16)))"

definition process_service_address_tlv :: "tlv_filter \<Rightarrow> read_or_parse_state \<times> tlv_filter" where
  "process_service_address_tlv f =
     (if expected_length f < tlv_index f + tlv_type_len + tlv_length_len
      then (TlvDone, f\<lparr>expected_length := tlv_index f + tlv_type_len + tlv_length_len\<rparr>)
      else case read_u32_be f (tlv_index f + 1) of
        None \<Rightarrow> (TlvError, f)
      | Some cl \<Rightarrow>
          if \<not> validate_service_address_length cl then (TlvError, f)
          else let f1 = f\<lparr>expected_length := tlv_index f + tlv_type_len + tlv_length_len + unat cl\<rparr>
               in if expected_length f1 > max_tlv_length f1 then (TlvError, f1)
                  else (TlvDone, f1\<lparr>content_length := cl, tlv_index := tlv_index f1 + (tlv_type_len + tlv_length_len),
                                   tlv_state := Content\<rparr>))"

definition process_ending_tlv :: "tlv_filter \<Rightarrow> read_or_parse_state \<times> tlv_filter" where
  "process_ending_tlv f =
     (if expected_length f < tlv_index f + tlv_type_len + tlv_length_len
      then (TlvDone, f\<lparr>expected_length := tlv_index f + tlv_type_len + tlv_length_len\<rparr>)
      else case read_u32_be f (tlv_index f + 1) of
        None \<Rightarrow> (TlvError, f)
      | Some end_length \<Rightarrow> (if end_length \<noteq> 0 then TlvError else TlvDone, f))"

definition process_tlv_content :: "tlv_filter \<Rightarrow> read_or_parse_state \<times> tlv_filter" where
  "process_tlv_content f =
     (TlvDone, f\<lparr>expected_length := expected_length f + tlv_type_len, tlv_index := tlv_index f + unat (content_length f),
               tlv_state := TypeAndLength\<rparr>)"

text \<open>A read fills at most the slice of \<open>temp_buf\<close> it is given.\<close>
function read_required_data ::
  "'s async_read \<Rightarrow> tlv_filter \<Rightarrow> 's \<Rightarrow> read_or_parse_state \<times> tlv_filter \<times> 's" where
  "read_required_data read f s =
     (if length (tlv_buffer f) < expected_length f
      then let bytes_needed = expected_length f - length (tlv_buffer f);
               read_size = min bytes_needed 512
           in (case read read_size s of
                 (ReadOk [], s') \<Rightarrow> (if length (tlv_buffer f) \<ge> expected_length f then TlvDone else SkipFilter, f, s')
               | (ReadOk (b # bytes), s') \<Rightarrow> read_required_data read (f\<lparr>tlv_buffer := tlv_buffer f @ take read_size (b # bytes)\<rparr>) s'
               | (ReadWouldBlock, s') \<Rightarrow> (SkipFilter, f, s')
               | (ReadError, s') \<Rightarrow> (TlvError, f, s'))
      else (TlvDone, f, s))"
  by pat_completeness auto

termination
  by (relation "measure (\<lambda>(read, f, s). expected_length f - length (tlv_buffer f))") auto

declare read_required_data.simps [simp del]

text \<open>Reading changes nothing but the buffer, which stays within the expected length.\<close>
lemma read_required_data_frame:
  assumes "read_required_data read f s = (r, f', s')"
  shows "(\<exists>more. f' = f\<lparr>tlv_buffer := tlv_buffer f @ more\<rparr> \<and> (more \<noteq> [] \<longrightarrow> length (tlv_buffer f @ more) \<le> expected_length f))
    \<and> (r = TlvDone \<longrightarrow> expected_length f \<le> length (tlv_buffer f'))"
  using assms
proof (induction "expected_length f - length (tlv_buffer f)" arbitrary: f s rule: less_induct)
  case less
  show ?case
  proof (cases "length (tlv_buffer f) < expected_length f")
    case False
    with less.prems have "r = TlvDone" "f' = f" by (simp_all add: read_required_data.simps [of read f s])
    with False show ?thesis by (intro conjI exI [of _ "[]"]) simp_all
  next
    case True
    define k where "k = min (expected_length f - length (tlv_buffer f)) 512"
    obtain rr t where rd: "read k s = (rr, t)" by fastforce
    show ?thesis
    proof (cases "\<exists>b bytes. rr = ReadOk (b # bytes)")
      case False
      with True less.prems rd have "r \<noteq> TlvDone" "f' = f"
        by (auto simp: read_required_data.simps [of read f s] k_def [symmetric] Let_def split: read_result.splits list.splits)
      then show ?thesis by (intro conjI exI [of _ "[]"]) simp_all
    next
      case got: True
      then obtain b bytes where rr: "rr = ReadOk (b # bytes)" by blast
      let ?f = "f\<lparr>tlv_buffer := tlv_buffer f @ take k (b # bytes)\<rparr>"
      have step: "read_required_data read ?f t = (r, f', s')"
        using True less.prems rd rr by (simp add: read_required_data.simps [of read f s] k_def [symmetric] Let_def)
      have "k > 0" using True by (simp add: k_def)
      then have "expected_length ?f - length (tlv_buffer ?f) < expected_length f - length (tlv_buffer f)"
        using True by simp
      from less.hyps [OF this step]
      have IH: "(\<exists>more. f' = ?f\<lparr>tlv_buffer := tlv_buffer ?f @ more\<rparr> \<and> (more \<noteq> [] \<longrightarrow> length (tlv_buffer ?f @ more) \<le> expected_length ?f))
          \<and> (r = TlvDone \<longrightarrow> expected_length ?f \<le> length (tlv_buffer f'))" .
      then obtain more where more: "f' = ?f\<lparr>tlv_buffer := tlv_buffer ?f @ more\<rparr>"
        "more \<noteq> [] \<longrightarrow> length (tlv_buffer ?f @ more) \<le> expected_length ?f" by blast
      have "length (tlv_buffer f @ take k (b # bytes)) \<le> expected_length f"
        using True by (simp add: k_def)
      with more IH show ?thesis
        by (intro conjI exI [of _ "take k (b # bytes) @ more"]) auto
    qed
  qed
qed

text \<open>The phase of the parser, for the measure of its loop.\<close>
definition tlv_phase :: "tlv_filter \<Rightarrow> nat" where
  "tlv_phase f = (if tlv_state f = Content then 2 else if expected_length f < tlv_index f + tlv_type_len + tlv_length_len then 1 else 0)"

lemma process_service_address_tlv_measure:
  assumes "process_service_address_tlv f = (TlvDone, f')" "tlv_state f = TypeAndLength"
  shows "max_tlv_length f' = max_tlv_length f \<and>
    (max_tlv_length f' - tlv_index f' < max_tlv_length f - tlv_index f \<or> tlv_index f' = tlv_index f \<and> tlv_phase f' < tlv_phase f)"
  using assms
  by (auto simp: process_service_address_tlv_def tlv_phase_def tlv_consts Let_def split: if_splits option.splits)

lemma process_tlv_content_measure:
  assumes "process_tlv_content f = (TlvDone, f')" "tlv_state f = Content"
  shows "max_tlv_length f' = max_tlv_length f \<and> tlv_index f \<le> tlv_index f' \<and> tlv_phase f' < tlv_phase f"
  using assms by (auto simp: process_tlv_content_def tlv_phase_def)

lemma read_required_data_phase:
  assumes "read_required_data read f s = (r, f', s')"
  shows "max_tlv_length f' = max_tlv_length f \<and> tlv_index f' = tlv_index f \<and> tlv_phase f' = tlv_phase f"
  using read_required_data_frame [OF assms] by (auto simp: tlv_phase_def)

function read_and_parse_tlv ::
  "'s async_read \<Rightarrow> tlv_filter \<Rightarrow> 's \<Rightarrow> (read_or_parse_state \<times> tlv_filter \<times> 's) outcome" where
  "read_and_parse_tlv read f s =
     (case read_required_data read f s of
        (TlvDone, f1, s1) \<Rightarrow>
          (case tlv_state f1 of
             TypeAndLength \<Rightarrow>
               if tlv_index f1 \<ge> length (tlv_buffer f1) then Panic
               else let ty = tlv_buffer f1 ! tlv_index f1
                    in if ty = tlv_type_service_address then
                         (case process_service_address_tlv f1 of
                            (TlvDone, f2) \<Rightarrow> read_and_parse_tlv read f2 s1
                          | (other, f2) \<Rightarrow> Ret (other, f2, s1))
                       else if ty = tlv_type_ending then
                         (case process_ending_tlv f1 of (r, f2) \<Rightarrow> Ret (r, f2, s1))
                       else Ret (TlvError, f1, s1)
           | Content \<Rightarrow>
               (case process_tlv_content f1 of
                  (TlvDone, f2) \<Rightarrow> read_and_parse_tlv read f2 s1
                | (other, f2) \<Rightarrow> Ret (other, f2, s1)))
      | (other, f1, s1) \<Rightarrow> Ret (other, f1, s1))"
  by pat_completeness auto

termination
proof (relation "measures [\<lambda>(read, f, s). max_tlv_length f - tlv_index f, \<lambda>(read, f, s). tlv_phase f]", goal_cases)
  case 1
  then show ?case by simp
next
  case (2 read f s r1 p f1 s1 ty r2 f2)
  then have "read_required_data read f s = (TlvDone, f1, s1)" "process_service_address_tlv f1 = (TlvDone, f2)" "tlv_state f1 = TypeAndLength"
    by simp_all
  from process_service_address_tlv_measure [OF this(2,3)] read_required_data_phase [OF this(1)] show ?case by auto
next
  case (3 read f s r1 p f1 s1 r2 f2)
  then have "read_required_data read f s = (TlvDone, f1, s1)" "process_tlv_content f1 = (TlvDone, f2)" "tlv_state f1 = Content"
    by simp_all
  from process_tlv_content_measure [OF this(2,3)] read_required_data_phase [OF this(1)] show ?case by auto
qed

declare read_and_parse_tlv.simps [simp del]

function extract_from :: "tlv_filter \<Rightarrow> nat \<Rightarrow> socket_addr option" where
  "extract_from f current_index =
     (if current_index + tlv_type_len + tlv_length_len \<le> length (tlv_buffer f)
      then let ty = tlv_buffer f ! current_index
           in if ty = tlv_type_ending then None
              else case read_u32_be f (current_index + tlv_type_len) of
                None \<Rightarrow> None
              | Some cl \<Rightarrow>
                  let content_start = current_index + tlv_type_len + tlv_length_len;
                      next_index = current_index + (tlv_type_len + tlv_length_len + unat cl)
                  in if content_start + unat cl > length (tlv_buffer f) then None
                     else if ty = tlv_type_service_address then
                       (case (if cl = service_address_ipv4_len then parse_ipv4_address f content_start
                              else if cl = service_address_ipv6_len then parse_ipv6_address f content_start
                              else None) of
                          Some addr \<Rightarrow> Some addr
                        | None \<Rightarrow> extract_from f next_index)
                     else extract_from f next_index
      else None)"
  by pat_completeness auto

termination
  by (relation "measure (\<lambda>(f, i). length (tlv_buffer f) - i)") (auto simp: tlv_consts)

declare extract_from.simps [simp del]

definition extract_original_destination :: "tlv_filter \<Rightarrow> socket_addr option" where
  "extract_original_destination f = extract_from f 0"

definition process_stream ::
  "'s async_read \<Rightarrow> tlv_filter \<Rightarrow> 's \<Rightarrow> socket_addr \<Rightarrow> socket_addr
     \<Rightarrow> ((unit + 's \<times> downstream_connection_metadata) \<times> tlv_filter) outcome" where
  "process_stream read f s loc peer =
     mapP (\<lambda>(r, f', s').
       (case r of
          TlvDone \<Rightarrow>
            (case extract_original_destination f' of
               Some original_dest \<Rightarrow> Inr (s', MdTlv original_dest [] peer loc)
             | None \<Rightarrow> Inr (s', MdSocket peer loc None))
        | SkipFilter \<Rightarrow> Inr (s', MdSocket peer loc None)
        | TlvError \<Rightarrow> Inl (), f'))
     (read_and_parse_tlv read f s)"

section \<open>The buffer is bounded and indexing is safe\<close>

definition tlv_inv :: "tlv_filter \<Rightarrow> bool" where
  "tlv_inv f \<longleftrightarrow> length (tlv_buffer f) \<le> expected_length f \<and>
     (case tlv_state f of
        TypeAndLength \<Rightarrow> tlv_index f + 1 \<le> expected_length f \<and> expected_length f \<le> tlv_index f + 5 \<and> tlv_index f \<le> max_tlv_length f
      | Content \<Rightarrow> expected_length f = tlv_index f + unat (content_length f) \<and> expected_length f \<le> max_tlv_length f)"

definition tlv_measure :: "tlv_filter \<Rightarrow> nat" where
  "tlv_measure f = 3 * (max_tlv_length f - tlv_index f) + tlv_phase f"

lemma tlv_inv_new: "tlv_inv (tlv_new max_length)"
  by (simp add: tlv_inv_def tlv_new_def tlv_consts)

lemma tlv_inv_length: "tlv_inv f \<Longrightarrow> length (tlv_buffer f) \<le> max_tlv_length f + 5"
  by (auto simp: tlv_inv_def split: tlv_parse_state.splits)

lemma tlv_inv_read:
  assumes "tlv_inv f" "read_required_data read f s = (r, f', s')"
  shows "tlv_inv f' \<and> (r = TlvDone \<longrightarrow> length (tlv_buffer f') = expected_length f') \<and>
    max_tlv_length f' = max_tlv_length f \<and> tlv_measure f' = tlv_measure f"
proof -
  obtain more where f': "f' = f\<lparr>tlv_buffer := tlv_buffer f @ more\<rparr>"
    and le: "more \<noteq> [] \<longrightarrow> length (tlv_buffer f @ more) \<le> expected_length f"
    and don: "r = TlvDone \<longrightarrow> expected_length f \<le> length (tlv_buffer f')"
    using read_required_data_frame [OF assms(2)] by blast
  have "length (tlv_buffer f') \<le> expected_length f"
    using assms(1) le f' by (cases more) (auto simp: tlv_inv_def)
  with assms(1) f' don show ?thesis
    by (auto simp: tlv_inv_def tlv_measure_def tlv_phase_def split: tlv_parse_state.splits)
qed

lemma tlv_inv_service:
  assumes "tlv_inv f" "tlv_state f = TypeAndLength" "length (tlv_buffer f) = expected_length f"
    and "process_service_address_tlv f = (r, f')"
  shows "length (tlv_buffer f') \<le> max_tlv_length f + 5 \<and> max_tlv_length f' = max_tlv_length f \<and> r \<noteq> SkipFilter \<and>
    (r = TlvDone \<longrightarrow> tlv_inv f' \<and> tlv_measure f' < tlv_measure f)"
  using assms
  by (auto simp: process_service_address_tlv_def tlv_inv_def tlv_measure_def tlv_phase_def tlv_consts Let_def split: if_splits option.splits)

lemma tlv_inv_content:
  assumes "tlv_inv f" "tlv_state f = Content" "length (tlv_buffer f) = expected_length f"
    and "process_tlv_content f = (r, f')"
  shows "r = TlvDone \<and> max_tlv_length f' = max_tlv_length f \<and> tlv_inv f' \<and> tlv_measure f' < tlv_measure f"
  using assms
  by (auto simp: process_tlv_content_def tlv_inv_def tlv_measure_def tlv_phase_def tlv_consts)

lemma tlv_ending_buffer: "process_ending_tlv f = (r, f') \<Longrightarrow> tlv_buffer f' = tlv_buffer f"
  by (auto simp: process_ending_tlv_def split: if_splits option.splits)

lemma read_and_parse_tlv_bounded:
  assumes "tlv_inv f"
  shows "\<exists>r f' s'. read_and_parse_tlv read f s = Ret (r, f', s') \<and> length (tlv_buffer f') \<le> max_tlv_length f + 5"
  using assms
proof (induction "tlv_measure f" arbitrary: f s rule: less_induct)
  case less
  obtain r f1 s1 where rd: "read_required_data read f s = (r, f1, s1)" using prod_cases3 by blast
  note f1 = tlv_inv_read [OF less.prems rd]
  have IH: "\<exists>r f' s'. read_and_parse_tlv read f2 t = Ret (r, f', s') \<and> length (tlv_buffer f') \<le> max_tlv_length f + 5"
    if "tlv_inv f2" "tlv_measure f2 < tlv_measure f1" "max_tlv_length f2 = max_tlv_length f1" for f2 t
    using less.hyps [of f2] that f1 by simp
  show ?case
  proof (cases "r = TlvDone")
    case False
    then show ?thesis using rd f1 tlv_inv_length [of f1]
      by (cases r) (simp_all add: read_and_parse_tlv.simps [of read f s])
  next
    case don: True
    then have len: "length (tlv_buffer f1) = expected_length f1" using f1 by simp
    show ?thesis
    proof (cases "tlv_state f1")
      case Content
      obtain q f2 where pc: "process_tlv_content f1 = (q, f2)" by fastforce
      with Content len f1 have *: "q = TlvDone" "max_tlv_length f2 = max_tlv_length f1" "tlv_inv f2" "tlv_measure f2 < tlv_measure f1"
        using tlv_inv_content [of f1 q f2] by blast+
      then show ?thesis using IH [OF *(3,4,2)] rd don Content pc
        by (simp add: read_and_parse_tlv.simps [of read f s])
    next
      case TypeAndLength
      have idx: "tlv_index f1 < length (tlv_buffer f1)"
        using TypeAndLength f1 len by (simp add: tlv_inv_def)
      obtain q f2 where ps: "process_service_address_tlv f1 = (q, f2)" by fastforce
      obtain q' f3 where pe: "process_ending_tlv f1 = (q', f3)" by fastforce
      note s2 = tlv_inv_service [OF _ TypeAndLength len ps]
      consider (service) "tlv_buffer f1 ! tlv_index f1 = tlv_type_service_address"
        | (other) "tlv_buffer f1 ! tlv_index f1 \<noteq> tlv_type_service_address" by blast
      then show ?thesis
      proof cases
        case other
        then show ?thesis using rd don TypeAndLength idx pe tlv_ending_buffer [OF pe] tlv_inv_length [of f1] f1
          by (simp add: read_and_parse_tlv.simps [of read f s] Let_def)
      next
        case service
        then show ?thesis using rd don TypeAndLength idx ps s2 f1 IH [of f2 s1]
          by (cases q) (simp_all add: read_and_parse_tlv.simps [of read f s] Let_def)
      qed
    qed
  qed
qed

text \<open>C36: Whatever a peer sends, and however it is cut into reads or interrupted, the TLV filter ends without a
  panic and buffers at most five bytes more than the configured maximum.\<close>
theorem tlv_buffer_bounded:
  "\<exists>res f. process_stream read (tlv_new max_length) s loc peer = Ret (res, f) \<and> length (tlv_buffer f) \<le> max_length + 5"
proof -
  obtain r f s' where "read_and_parse_tlv read (tlv_new max_length) s = Ret (r, f, s')"
    "length (tlv_buffer f) \<le> max_length + 5"
    using read_and_parse_tlv_bounded [OF tlv_inv_new, of read max_length s] by (auto simp: tlv_new_def)
  then show ?thesis by (simp add: process_stream_def)
qed

section \<open>Reading back what was written\<close>

fun ip_bytes :: "ip_addr \<Rightarrow> u8 list" where
  "ip_bytes (V4 w) = to_be_bytes 4 w"
| "ip_bytes (V6 w) = to_be_bytes 16 w"

definition encode_content :: "socket_addr \<Rightarrow> u8 list" where
  "encode_content a = ip_bytes (sa_ip a) @ to_be_bytes 2 (sa_port a)"

definition content_len :: "socket_addr \<Rightarrow> u32" where
  "content_len a = (case sa_ip a of V4 _ \<Rightarrow> service_address_ipv4_len | V6 _ \<Rightarrow> service_address_ipv6_len)"

text \<open>A service address entry as a sender writes it.\<close>
definition encode_service_address :: "socket_addr \<Rightarrow> u8 list" where
  "encode_service_address a = tlv_type_service_address # to_be_bytes 4 (content_len a) @ encode_content a"

lemma unat_content_len: "unat (content_len a) = length (encode_content a)"
  by (simp add: content_len_def encode_content_def tlv_consts split: ip_addr.splits)

lemma content_len_valid: "validate_service_address_length (content_len a)"
  by (simp add: content_len_def validate_service_address_length_def split: ip_addr.splits)

lemma length_encode_service_address: "length (encode_service_address a) = 5 + length (encode_content a)"
  by (simp add: encode_service_address_def)

lemma take_4: "drop i xs = a # b # c # d # ys \<Longrightarrow> [xs ! i, xs ! (i + 1), xs ! (i + 2), xs ! (i + 3)] = [a, b, c, d]"
proof -
  assume *: "drop i xs = a # b # c # d # ys"
  then have i: "i \<le> length xs"
    by (cases "i \<le> length xs") simp_all
  have "xs ! (i + k) = (a # b # c # d # ys) ! k" for k
    using nth_drop [OF i, of k] * by simp
  from this [of 0] this [of 1] this [of 2] this [of 3] show ?thesis by simp
qed

lemma read_u32_be_at:
  assumes "drop i (tlv_buffer f) = to_be_bytes 4 w @ rest"
  shows "read_u32_be f i = Some w"
proof -
  have "rev [0..<4] = [3, 2, 1, 0 :: nat]" by (simp add: upt_rec)
  then obtain a b c d where abcd: "to_be_bytes 4 w = [a, b, c, d]"
    unfolding to_be_bytes_def by simp
  have "length (drop i (tlv_buffer f)) \<ge> 4"
    by (simp add: assms)
  then have "\<not> i + 4 > length (tlv_buffer f)" by simp
  moreover have "from_be_bytes [a, b, c, d] = w"
    using from_to_be_bytes [of 4 w] by (simp add: abcd)
  ultimately show ?thesis
    using take_4 [of i "tlv_buffer f" a b c d rest] assms by (simp add: read_u32_be_def abcd)
qed

lemma read_u16_be_at:
  assumes "drop i (tlv_buffer f) = to_be_bytes 2 w @ rest"
  shows "read_u16_be f i = Some w"
proof -
  have "rev [0..<2] = [1, 0 :: nat]" by (simp add: upt_rec)
  then obtain a b where ab: "to_be_bytes 2 w = [a, b]"
    unfolding to_be_bytes_def by simp
  have len: "length (drop i (tlv_buffer f)) \<ge> 2"
    by (simp add: assms)
  then have i: "i \<le> length (tlv_buffer f)" "\<not> i + 2 > length (tlv_buffer f)" by simp_all
  have nth: "tlv_buffer f ! (i + k) = (a # b # rest) ! k" for k
    using nth_drop [OF i(1), of k] assms ab by simp
  have "from_be_bytes [a, b] = w"
    using from_to_be_bytes [of 2 w] by (simp add: ab)
  with i(2) nth [of 0] nth [of 1] show ?thesis
    by (simp add: read_u16_be_def)
qed

lemma extract_first:
  assumes "tlv_buffer f = encode_service_address a @ rest"
  shows "extract_original_destination f = Some a"
proof -
  have len: "length (tlv_buffer f) = 5 + length (encode_content a) + length rest"
    by (simp add: assms length_encode_service_address)
  have cl: "read_u32_be f 1 = Some (content_len a)"
    by (rule read_u32_be_at [where rest = "encode_content a @ rest"]) (simp add: assms encode_service_address_def)
  have d5: "drop 5 (tlv_buffer f) = encode_content a @ rest"
    by (simp add: assms encode_service_address_def)
  have addr: "(if content_len a = service_address_ipv4_len then parse_ipv4_address f 5
      else if content_len a = service_address_ipv6_len then parse_ipv6_address f 5 else None) = Some a"
  proof (cases "sa_ip a")
    case (V4 w)
    have "read_u16_be f 9 = Some (sa_port a)"
      using arg_cong [OF d5, of "drop 4"] by (intro read_u16_be_at [where rest = rest]) (simp add: encode_content_def V4)
    moreover have "take 4 (drop 5 (tlv_buffer f)) = to_be_bytes 4 w"
      by (simp add: d5 encode_content_def V4)
    moreover have "from_be_bytes (to_be_bytes 4 w) = w"
      by (rule from_to_be_bytes) simp
    ultimately show ?thesis
      using V4 len by (simp add: content_len_def parse_ipv4_address_def encode_content_def)
  next
    case (V6 w)
    have "read_u16_be f 21 = Some (sa_port a)"
      using arg_cong [OF d5, of "drop 16"] by (intro read_u16_be_at [where rest = rest]) (simp add: encode_content_def V6)
    moreover have "take 16 (drop 5 (tlv_buffer f)) = to_be_bytes 16 w"
      by (simp add: d5 encode_content_def V6)
    moreover have "from_be_bytes (to_be_bytes 16 w) = w"
      by (rule from_to_be_bytes) simp
    moreover have "service_address_ipv6_len \<noteq> service_address_ipv4_len"
      by (simp add: tlv_consts)
    ultimately show ?thesis
      using V6 len by (simp add: content_len_def parse_ipv6_address_def encode_content_def)
  qed
  have "tlv_buffer f ! 0 = tlv_type_service_address"
    by (simp add: assms encode_service_address_def)
  moreover have "tlv_type_service_address \<noteq> tlv_type_ending"
    by (simp add: tlv_consts)
  ultimately show ?thesis
    using len cl addr unat_content_len [of a]
    unfolding extract_original_destination_def extract_from.simps [of f 0]
    by (simp add: Let_def tlv_type_len_def tlv_length_len_def)
qed

lemma read_and_parse_service:
  assumes "read_required_data read f s = (TlvDone, f1, s1)" "tlv_state f1 = TypeAndLength" "tlv_index f1 < length (tlv_buffer f1)"
    "tlv_buffer f1 ! tlv_index f1 = tlv_type_service_address" "process_service_address_tlv f1 = (TlvDone, f2)"
  shows "read_and_parse_tlv read f s = read_and_parse_tlv read f2 s1"
  using assms by (simp add: read_and_parse_tlv.simps [of read f s] Let_def)

lemma read_and_parse_content:
  assumes "read_required_data read f s = (TlvDone, f1, s1)" "tlv_state f1 = Content" "process_tlv_content f1 = (TlvDone, f2)"
  shows "read_and_parse_tlv read f s = read_and_parse_tlv read f2 s1"
  using assms by (simp add: read_and_parse_tlv.simps [of read f s])

context async_stream
begin

text \<open>What has been read and what is to come, together, do not change; reading moves the border.\<close>
lemma read_required_data_available:
  assumes "length (tlv_buffer f) \<le> expected_length f" "expected_length f \<le> length (tlv_buffer f @ data s)"
  shows "\<exists>s'. read_required_data read f s = (TlvDone, f\<lparr>tlv_buffer := take (expected_length f) (tlv_buffer f @ data s)\<rparr>, s') \<and>
    data s' = drop (expected_length f) (tlv_buffer f @ data s)"
  using assms
proof (induction "expected_length f - length (tlv_buffer f)" arbitrary: f s rule: less_induct)
  case less
  show ?case
  proof (cases "length (tlv_buffer f) < expected_length f")
    case False
    with less.prems show ?thesis by (simp add: read_required_data.simps [of read f s])
  next
    case True
    define k where "k = min (expected_length f - length (tlv_buffer f)) 512"
    obtain bytes t where rd: "read k s = (ReadOk bytes, t)" "data s = bytes @ data t" "length bytes \<le> k"
      "0 < k \<Longrightarrow> data s \<noteq> [] \<Longrightarrow> bytes \<noteq> []"
      by (rule readE [of k s]) (rule that, assumption+)
    have "k > 0" "data s \<noteq> []" using True less.prems(2) by (auto simp: k_def)
    then have ne: "bytes \<noteq> []" by (rule rd(4))
    let ?f = "f\<lparr>tlv_buffer := tlv_buffer f @ bytes\<rparr>"
    have step: "read_required_data read f s = read_required_data read ?f t"
      using True rd(1,3) ne by (cases bytes) (simp_all add: read_required_data.simps [of read f s] k_def [symmetric] Let_def)
    have "\<exists>s'. read_required_data read ?f t = (TlvDone, ?f\<lparr>tlv_buffer := take (expected_length ?f) (tlv_buffer ?f @ data t)\<rparr>, s') \<and>
      data s' = drop (expected_length ?f) (tlv_buffer ?f @ data t)"
    proof (rule less.hyps)
      show "expected_length ?f - length (tlv_buffer ?f) < expected_length f - length (tlv_buffer f)"
        using True ne by (cases bytes) auto
      show "length (tlv_buffer ?f) \<le> expected_length ?f" using rd(3) True by (auto simp: k_def)
      show "expected_length ?f \<le> length (tlv_buffer ?f @ data t)" using less.prems(2) rd(2) by simp
    qed
    with step rd(2) show ?thesis by simp
  qed
qed

text \<open>One service address entry, from its type on.\<close>
lemma parse_entry:
  assumes f: "tlv_state f = TypeAndLength" "tlv_index f = length pre" "length (tlv_buffer f) \<le> expected_length f"
    and expected: "expected_length f = length pre + 1 \<or> expected_length f = length pre + 5"
    and all: "tlv_buffer f @ data s = pre @ encode_service_address a @ tail" "tail \<noteq> []"
    and fits: "length pre + length (encode_service_address a) \<le> max_tlv_length f"
  shows "\<exists>f' s'. read_and_parse_tlv read f s = read_and_parse_tlv read f' s' \<and> tlv_state f' = TypeAndLength \<and>
    max_tlv_length f' = max_tlv_length f \<and>
    tlv_index f' = length (pre @ encode_service_address a) \<and> expected_length f' = length (pre @ encode_service_address a) + 1 \<and>
    tlv_buffer f' @ data s' = tlv_buffer f @ data s \<and> length (tlv_buffer f') \<le> expected_length f'"
  using f expected all(1) fits
proof (induction "length pre + 5 - expected_length f" arbitrary: f s rule: less_induct)
  case less
  let ?all = "pre @ encode_service_address a @ tail"
  have len: "length ?all \<ge> length pre + 5 + length (encode_content a)"
    by (simp add: length_encode_service_address)
  obtain s1 where rd: "read_required_data read f s = (TlvDone, f\<lparr>tlv_buffer := take (expected_length f) ?all\<rparr>, s1)"
    "data s1 = drop (expected_length f) ?all"
    using read_required_data_available [of f s] less.prems len by auto
  let ?f1 = "f\<lparr>tlv_buffer := take (expected_length f) ?all\<rparr>"
  have idx: "tlv_index ?f1 < length (tlv_buffer ?f1)" using less.prems len by auto
  have ty: "tlv_buffer ?f1 ! tlv_index ?f1 = tlv_type_service_address"
    using idx less.prems(2) by (simp add: nth_append encode_service_address_def)
  show ?case
  proof (cases "expected_length f = length pre + 1")
    case True
    let ?f2 = "?f1\<lparr>expected_length := length pre + 5\<rparr>"
    have eq: "read_and_parse_tlv read f s = read_and_parse_tlv read ?f2 s1"
      by (rule read_and_parse_service [OF rd(1) _ idx ty])
        (use less.prems(1,2) True in \<open>simp_all add: process_service_address_tlv_def tlv_type_len_def tlv_length_len_def add.commute\<close>)
    have "\<exists>f' s'. read_and_parse_tlv read ?f2 s1 = read_and_parse_tlv read f' s' \<and> tlv_state f' = TypeAndLength \<and>
      max_tlv_length f' = max_tlv_length ?f2 \<and>
      tlv_index f' = length (pre @ encode_service_address a) \<and> expected_length f' = length (pre @ encode_service_address a) + 1 \<and>
      tlv_buffer f' @ data s' = tlv_buffer ?f2 @ data s1 \<and> length (tlv_buffer f') \<le> expected_length f'"
      by (rule less.hyps) (use less.prems True rd(2) in \<open>simp_all del: take_append drop_append\<close>)
    with eq rd(2) less.prems show ?thesis by (simp del: take_append drop_append)
  next
    case False
    then have e5: "expected_length f = length pre + 5" using less.prems(4) by simp
    have cl: "read_u32_be ?f1 (length pre + 1) = Some (content_len a)"
      by (rule read_u32_be_at [where rest = "[]"]) (simp add: e5 encode_service_address_def)
    let ?f2 = "?f1\<lparr>expected_length := length pre + 5 + length (encode_content a), content_length := content_len a,
      tlv_index := length pre + 5, tlv_state := Content\<rparr>"
    have eq: "read_and_parse_tlv read f s = read_and_parse_tlv read ?f2 s1"
      by (rule read_and_parse_service [OF rd(1) _ idx ty])
        (use less.prems(1,2,6) e5 cl content_len_valid [of a] in
          \<open>simp_all add: process_service_address_tlv_def Let_def tlv_type_len_def tlv_length_len_def
            unat_content_len length_encode_service_address add.commute\<close>)
    have all2: "tlv_buffer ?f2 @ data s1 = ?all" using rd(2) by (simp del: take_append drop_append)
    obtain s2 where rd2: "read_required_data read ?f2 s1 = (TlvDone, ?f2\<lparr>tlv_buffer := take (expected_length ?f2) ?all\<rparr>, s2)"
      "data s2 = drop (expected_length ?f2) ?all"
    proof -
      have "length (tlv_buffer ?f2) \<le> expected_length ?f2" "expected_length ?f2 \<le> length ?all"
        using len e5 by simp_all
      from read_required_data_available [of ?f2 s1, unfolded all2, OF this] show thesis
        by (elim exE conjE) (rule that)
    qed
    let ?f3 = "?f2\<lparr>tlv_buffer := take (expected_length ?f2) ?all, expected_length := length pre + 5 + length (encode_content a) + 1,
      tlv_index := length pre + 5 + length (encode_content a), tlv_state := TypeAndLength\<rparr>"
    have "read_and_parse_tlv read ?f2 s1 = read_and_parse_tlv read ?f3 s2"
      by (rule read_and_parse_content [OF rd2(1)]) (simp_all add: process_tlv_content_def tlv_type_len_def unat_content_len)
    with eq have "read_and_parse_tlv read f s = read_and_parse_tlv read ?f3 s2" by simp
    moreover have "tlv_buffer ?f3 @ data s2 = tlv_buffer f @ data s"
      using rd2(2) less.prems(5) by (simp del: take_append drop_append)
    ultimately show ?thesis
      by (intro exI [of _ ?f3] exI [of _ s2]) (simp add: length_encode_service_address)
  qed
qed

lemma parse_ending:
  assumes "tlv_state f = TypeAndLength" "tlv_index f = length pre" "expected_length f = length pre + 1"
    "length (tlv_buffer f) \<le> expected_length f" "tlv_buffer f @ data s = pre @ tlv_type_ending # rest"
  shows "\<exists>f' s'. read_and_parse_tlv read f s = Ret (TlvDone, f', s') \<and> tlv_buffer f' = pre @ [tlv_type_ending] \<and> data s' = rest"
proof -
  obtain s1 where rd: "read_required_data read f s = (TlvDone, f\<lparr>tlv_buffer := pre @ [tlv_type_ending]\<rparr>, s1)" "data s1 = rest"
    using read_required_data_available [of f s] assms by auto
  have "tlv_type_ending \<noteq> tlv_type_service_address" by (simp add: tlv_consts)
  with rd assms show ?thesis
    by (simp add: read_and_parse_tlv.simps [of read f s] process_ending_tlv_def tlv_type_len_def tlv_length_len_def Let_def)
qed

lemma parse_entries:
  assumes "tlv_state f = TypeAndLength" "tlv_index f = length pre" "length (tlv_buffer f) \<le> expected_length f"
    "expected_length f = length pre + 1 \<or> (as \<noteq> [] \<and> expected_length f = length pre + 5)"
    "tlv_buffer f @ data s = pre @ concat (map encode_service_address as) @ tlv_type_ending # rest"
    "length pre + length (concat (map encode_service_address as)) \<le> max_tlv_length f"
  shows "\<exists>f' s'. read_and_parse_tlv read f s = Ret (TlvDone, f', s') \<and>
    tlv_buffer f' = pre @ concat (map encode_service_address as) @ [tlv_type_ending] \<and> data s' = rest"
  using assms
proof (induction as arbitrary: pre f s)
  case Nil
  then show ?case using parse_ending [of f pre s rest] by simp
next
  case (Cons a as)
  have "\<exists>f' s'. read_and_parse_tlv read f s = read_and_parse_tlv read f' s' \<and> tlv_state f' = TypeAndLength \<and>
      max_tlv_length f' = max_tlv_length f \<and>
      tlv_index f' = length (pre @ encode_service_address a) \<and> expected_length f' = length (pre @ encode_service_address a) + 1 \<and>
      tlv_buffer f' @ data s' = tlv_buffer f @ data s \<and> length (tlv_buffer f') \<le> expected_length f'"
    by (rule parse_entry [where tail = "concat (map encode_service_address as) @ tlv_type_ending # rest"])
      (use Cons.prems in auto)
  then obtain f' s' where *: "read_and_parse_tlv read f s = read_and_parse_tlv read f' s'" "tlv_state f' = TypeAndLength"
      "max_tlv_length f' = max_tlv_length f" "tlv_index f' = length (pre @ encode_service_address a)"
      "expected_length f' = length (pre @ encode_service_address a) + 1"
      "tlv_buffer f' @ data s' = tlv_buffer f @ data s" "length (tlv_buffer f') \<le> expected_length f'"
    by blast
  have "\<exists>f'' s''. read_and_parse_tlv read f' s' = Ret (TlvDone, f'', s'') \<and>
      tlv_buffer f'' = (pre @ encode_service_address a) @ concat (map encode_service_address as) @ [tlv_type_ending] \<and> data s'' = rest"
    by (rule Cons.IH) (use * Cons.prems(5,6) in simp_all)
  with *(1) show ?case by simp
qed

end

text \<open>C37: A sender that puts service address entries and the ending type in front of its data is understood: the
  connection gets the first address as its original destination, whatever pieces the bytes arrive in.
  The filter consumes the bytes up to and including the ending type; the length field of the ending entry is
  still in the stream, in front of the data.\<close>
theorem tlv_roundtrip:
  assumes "async_stream read data" "as \<noteq> []"
    and "length (concat (map encode_service_address as)) \<le> max_length"
    and "data s = concat (map encode_service_address as) @ tlv_type_ending # rest"
  shows "\<exists>s' f. process_stream read (tlv_new max_length) s loc peer = Ret (Inr (s', MdTlv (hd as) [] peer loc), f) \<and> data s' = rest"
proof -
  obtain f s' where r: "read_and_parse_tlv read (tlv_new max_length) s = Ret (TlvDone, f, s')"
    "tlv_buffer f = concat (map encode_service_address as) @ [tlv_type_ending]" "data s' = rest"
    using async_stream.parse_entries [OF assms(1), of "tlv_new max_length" "[]" as s rest] assms(2-4)
    by (auto simp: tlv_new_def tlv_type_len_def tlv_length_len_def)
  obtain a as' where "as = a # as'" using assms(2) by (cases as) auto
  with r(2) have "extract_original_destination f = Some (hd as)"
    using extract_first [of f a] by simp
  with r(1,3) show ?thesis by (simp add: process_stream_def)
qed

theorem tlv_roundtrip_witness:
  "\<exists>s' f. process_stream cursor_read (tlv_new 256)
      (encode_service_address \<lparr>sa_ip = V4 0xC0A80164, sa_port = 8080\<rparr> @ tlv_type_ending # [0, 0, 0, 0, 0x47])
      \<lparr>sa_ip = V4 0, sa_port = 80\<rparr> \<lparr>sa_ip = V4 0x0A000001, sa_port = 12345\<rparr> =
    Ret (Inr (s', MdTlv \<lparr>sa_ip = V4 0xC0A80164, sa_port = 8080\<rparr> [] \<lparr>sa_ip = V4 0x0A000001, sa_port = 12345\<rparr> \<lparr>sa_ip = V4 0, sa_port = 80\<rparr>), f) \<and>
    s' = [0, 0, 0, 0, 0x47]"
  using tlv_roundtrip [OF cursor.async_stream_axioms, of "[\<lparr>sa_ip = V4 0xC0A80164, sa_port = 8080\<rparr>]" 256
      "encode_service_address \<lparr>sa_ip = V4 0xC0A80164, sa_port = 8080\<rparr> @ tlv_type_ending # [0, 0, 0, 0, 0x47]" "[0, 0, 0, 0, 0x47]"]
  by (simp add: length_encode_service_address encode_content_def)

end
