(* ===== verification/Proxy_Protocol.thy ===== *)
theory Proxy_Protocol
  imports Tlv_Filter Ip_Text "HOL-Library.AList"
begin

text \<open>
  The PROXY protocol (\<open>transport/proxy_protocol.rs\<close>): reading the header of a downstream connection and writing one
  on an upstream connection.  The crate \<open>ppp\<close> is a parameter: its parser, the two protocol prefixes and the builder
  of version 2 headers, with what its documentation says of version 1 as \<open>ppp_laws\<close>.  The bytes are read
  through the wrapper of \<open>utils/rewindable_stream.rs\<close>, so that a connection without a header can be passed on untouched.
\<close>

section \<open>The crate ppp and the configuration\<close>

record 'ip ppp_ips =
  source_address :: 'ip
  destination_address :: 'ip
  source_port :: u16
  destination_port :: u16

datatype v1_addresses = V1Tcp4 "32 word ppp_ips" | V1Tcp6 "128 word ppp_ips" | V1Unknown

datatype v2_addresses = V2IPv4 "32 word ppp_ips" | V2IPv6 "128 word ppp_ips" | V2Unix | V2Unspecified

record v2_header =
  v2_addresses :: v2_addresses
  v2_protocol :: proxy_transport
  v2_tlvs :: "(unit + u8 \<times> u8 list) list"

datatype header_result = ParsedV1 "unit + v1_addresses" | ParsedV2 "unit + v2_header"

record 'b ppp_ops =
  ppp_v1_prefix :: "u8 list"
  ppp_v2_prefix :: "u8 list"
  ppp_parse :: "u8 list \<Rightarrow> header_result"
  ppp_with_addresses :: "socket_addr \<Rightarrow> socket_addr \<Rightarrow> 'b"
  ppp_write_tlv :: "'b \<Rightarrow> u8 \<Rightarrow> u8 list \<Rightarrow> unit + 'b"
  ppp_build :: "'b \<Rightarrow> unit + u8 list"

datatype proxy_protocol_version = ProxyV1 | ProxyV2

datatype pass_tlv_match_type = IncludeAll | Include

record pass_through_tlvs =
  match_type :: pass_tlv_match_type
  tlv_types :: "tlv_type list"

text \<open>The configuration of a listener, without the prefix of its metrics.\<close>
record downstream_proxy_protocol_config =
  allow_requests_without_proxy_protocol :: bool
  disallowed_versions :: "proxy_protocol_version list"
  cfg_pass_through_tlvs :: "pass_through_tlvs option"

text \<open>\<open>String::into_bytes\<close>.\<close>
definition into_bytes :: "str \<Rightarrow> u8 list" where
  "into_bytes = map (\<lambda>c. word_of_nat (of_char c))"

definition should_pass_through :: "pass_through_tlvs \<Rightarrow> tlv_type \<Rightarrow> bool" where
  "should_pass_through cfg ty = (case match_type cfg of IncludeAll \<Rightarrow> True | Include \<Rightarrow> ty \<in> set (tlv_types cfg))"

section \<open>Reading\<close>

definition v1_prefix_len :: nat where "v1_prefix_len = 5"
definition v1_max_length :: nat where "v1_max_length = 107"
definition v1_terminator :: "u8 list" where "v1_terminator = [13, 10]"
definition v2_prefix_len :: nat where "v2_prefix_len = 12"
definition v2_minimum_len :: nat where "v2_minimum_len = 16"
definition v2_length_index :: nat where "v2_length_index = 14"
definition read_buffer_len :: nat where "read_buffer_len = 512"

lemmas proxy_consts = v1_prefix_len_def v1_max_length_def v1_terminator_def v2_prefix_len_def v2_minimum_len_def
  v2_length_index_def read_buffer_len_def

datatype detected_header = DetectedV1 | DetectedV2 "u8 list option" | DetectedNone

datatype policy_action = Proceed | Reject | TransparentPassthrough

datatype proxy_error =
    InitialBytes | V1HeaderBytes | TerminatorNotFound | AdditionalBytes | V2ExtendedBytes | V2HeaderBytes
  | Disallowed | V1ParseFailed | V2ParseFailed | UnixNotSupported

definition should_reject :: "downstream_proxy_protocol_config \<Rightarrow> proxy_protocol_version \<Rightarrow> bool" where
  "should_reject config v \<longleftrightarrow> v \<in> set (disallowed_versions config) \<and> \<not> allow_requests_without_proxy_protocol config"

definition should_allow_transparent_passthrough :: "downstream_proxy_protocol_config \<Rightarrow> proxy_protocol_version \<Rightarrow> bool" where
  "should_allow_transparent_passthrough config v \<longleftrightarrow>
     v \<in> set (disallowed_versions config) \<and> allow_requests_without_proxy_protocol config"

definition version_policy :: "downstream_proxy_protocol_config \<Rightarrow> proxy_protocol_version \<Rightarrow> policy_action" where
  "version_policy config v =
     (if should_reject config v then Reject
      else if should_allow_transparent_passthrough config v then TransparentPassthrough
      else Proceed)"

definition apply_policy :: "downstream_proxy_protocol_config \<Rightarrow> detected_header \<Rightarrow> policy_action" where
  "apply_policy config detected =
     (case detected of
        DetectedV1 \<Rightarrow> version_policy config ProxyV1
      | DetectedV2 _ \<Rightarrow> version_policy config ProxyV2
      | DetectedNone \<Rightarrow> (if allow_requests_without_proxy_protocol config then TransparentPassthrough else Reject))"

text \<open>Filling a part of a buffer.\<close>
definition fill_at :: "u8 list \<Rightarrow> nat \<Rightarrow> u8 list \<Rightarrow> u8 list" where
  "fill_at buffer i bytes = take i buffer @ bytes @ drop (i + length bytes) buffer"

text \<open>The bytes of a version 1 header after its prefix, one at a time (\<open>read_u8\<close> is \<open>read_exact\<close> of one byte).\<close>
function v1_loop :: "'s read_exact \<Rightarrow> nat \<Rightarrow> u8 list \<Rightarrow> 's \<Rightarrow> (proxy_error + bool \<times> u8 list) \<times> 's" where
  "v1_loop read_exact i buffer s =
     (if i < v1_max_length
      then case read_exact 1 s of
             (Some bs, s') \<Rightarrow>
               let buffer' = fill_at buffer i bs in
               if [buffer' ! (i - 1), buffer' ! i] = v1_terminator then (Inr (True, buffer'), s')
               else v1_loop read_exact (i + 1) buffer' s'
           | (None, s') \<Rightarrow> (Inl V1HeaderBytes, s')
      else (Inr (False, buffer), s))"
  by pat_completeness auto

termination
  by (relation "measure (\<lambda>(_, i, _, _). v1_max_length - i)") auto

declare v1_loop.simps [simp del]

text \<open>\<open>&mut dynamic_buffer[a..b]\<close> panics when the vector is shorter than \<open>b\<close>.\<close>
definition read_header_bytes ::
  "('b, 'x) ppp_ops_scheme \<Rightarrow> 's read_exact \<Rightarrow> u8 list \<Rightarrow> 's \<Rightarrow> ((proxy_error + detected_header) \<times> u8 list \<times> 's) outcome" where
  "read_header_bytes P read_exact buffer s =
     (case read_exact v1_prefix_len s of
        (None, s1) \<Rightarrow> Ret (Inl InitialBytes, buffer, s1)
      | (Some bs, s1) \<Rightarrow>
          let buffer1 = fill_at buffer 0 bs in
          if take v1_prefix_len buffer1 = ppp_v1_prefix P then
            (case v1_loop read_exact v1_prefix_len buffer1 s1 of
               (Inl e, s2) \<Rightarrow> Ret (Inl e, buffer1, s2)
             | (Inr (end_found, buffer2), s2) \<Rightarrow>
                 Ret (if \<not> end_found then Inl TerminatorNotFound else Inr DetectedV1, buffer2, s2))
          else
            (case read_exact (v2_minimum_len - v1_prefix_len) s1 of
               (None, s2) \<Rightarrow> Ret (Inl AdditionalBytes, buffer1, s2)
             | (Some bs2, s2) \<Rightarrow>
                 let buffer2 = fill_at buffer1 v1_prefix_len bs2 in
                 if take v2_prefix_len buffer2 = ppp_v2_prefix P then
                   let len = unat (from_be_bytes [buffer2 ! v2_length_index, buffer2 ! (v2_length_index + 1)] :: u16);
                       full_length = v2_minimum_len + len in
                   if full_length > read_buffer_len then
                     let dynamic_buffer = take v2_minimum_len buffer2 in
                     if full_length > length dynamic_buffer then Panic
                     else case read_exact (full_length - v2_minimum_len) s2 of
                            (None, s3) \<Rightarrow> Ret (Inl V2ExtendedBytes, buffer2, s3)
                          | (Some bs3, s3) \<Rightarrow> Ret (Inr (DetectedV2 (Some (fill_at dynamic_buffer v2_minimum_len bs3))), buffer2, s3)
                   else
                     (case read_exact (full_length - v2_minimum_len) s2 of
                        (None, s3) \<Rightarrow> Ret (Inl V2HeaderBytes, buffer2, s3)
                      | (Some bs3, s3) \<Rightarrow> Ret (Inr (DetectedV2 None), fill_at buffer2 v2_minimum_len bs3, s3))
                 else Ret (Inr DetectedNone, buffer2, s2)))"

definition ips_v4 :: "32 word ppp_ips \<Rightarrow> socket_addr \<times> socket_addr" where
  "ips_v4 a = (\<lparr>sa_ip = V4 (source_address a), sa_port = source_port a\<rparr>,
               \<lparr>sa_ip = V4 (destination_address a), sa_port = destination_port a\<rparr>)"

definition ips_v6 :: "128 word ppp_ips \<Rightarrow> socket_addr \<times> socket_addr" where
  "ips_v6 a = (\<lparr>sa_ip = V6 (source_address a), sa_port = source_port a\<rparr>,
               \<lparr>sa_ip = V6 (destination_address a), sa_port = destination_port a\<rparr>)"

definition collect_tlvs :: "pass_through_tlvs option \<Rightarrow> (unit + u8 \<times> u8 list) list \<Rightarrow> (tlv_type \<times> u8 list) list" where
  "collect_tlvs pass_through tlvs =
     (case pass_through of
        None \<Rightarrow> []
      | Some cfg \<Rightarrow>
          foldl (\<lambda>tlv_data tlv. case tlv of
                   Inl _ \<Rightarrow> tlv_data
                 | Inr (kind, value) \<Rightarrow>
                     if should_pass_through cfg (tlv_type_of_u8 kind) then AList.update (tlv_type_of_u8 kind) value tlv_data
                     else tlv_data) [] tlvs)"

definition extract_metadata ::
  "downstream_proxy_protocol_config \<Rightarrow> header_result \<Rightarrow> socket_addr \<Rightarrow> socket_addr \<Rightarrow> proxy_error + downstream_connection_metadata" where
  "extract_metadata config parsed peer loc =
     (case parsed of
        ParsedV1 (Inr (V1Tcp4 ip)) \<Rightarrow> (case ips_v4 ip of (src, dst) \<Rightarrow> Inr (MdProxyProtocol src dst ProtoStream [] peer loc))
      | ParsedV1 (Inr (V1Tcp6 ip)) \<Rightarrow> (case ips_v6 ip of (src, dst) \<Rightarrow> Inr (MdProxyProtocol src dst ProtoStream [] peer loc))
      | ParsedV1 (Inr V1Unknown) \<Rightarrow> Inr (MdSocket peer loc None)
      | ParsedV1 (Inl _) \<Rightarrow> Inl V1ParseFailed
      | ParsedV2 (Inr header) \<Rightarrow>
          (let tlv_data = collect_tlvs (cfg_pass_through_tlvs config) (v2_tlvs header) in
           case v2_addresses header of
             V2IPv4 ip \<Rightarrow> (case ips_v4 ip of (src, dst) \<Rightarrow> Inr (MdProxyProtocol src dst (v2_protocol header) tlv_data peer loc))
           | V2IPv6 ip \<Rightarrow> (case ips_v6 ip of (src, dst) \<Rightarrow> Inr (MdProxyProtocol src dst (v2_protocol header) tlv_data peer loc))
           | V2Unix \<Rightarrow> Inl UnixNotSupported
           | V2Unspecified \<Rightarrow> Inr (MdSocket peer loc None))
      | ParsedV2 (Inl _) \<Rightarrow> Inl V2ParseFailed)"

text \<open>The stream handed on: the one given, or the wrapper that replays what was read.\<close>
datatype 's proxied_stream = Unwrapped 's | Rewound "'s rewindable"

definition try_read_proxy_header ::
  "('b, 'x) ppp_ops_scheme \<Rightarrow> 's rewindable read_exact \<Rightarrow> downstream_proxy_protocol_config \<Rightarrow> 's \<Rightarrow> socket_addr \<Rightarrow> socket_addr
     \<Rightarrow> (proxy_error + downstream_connection_metadata \<times> 's proxied_stream) outcome" where
  "try_read_proxy_header P read_exact config inner loc peer =
     mapP (\<lambda>(header, buffer, stream).
       case header of
         Inl e \<Rightarrow> Inl e
       | Inr maybe_header \<Rightarrow>
           (case apply_policy config maybe_header of
              Reject \<Rightarrow> Inl Disallowed
            | TransparentPassthrough \<Rightarrow> Inr (MdSocket peer loc None, Rewound (into_rewound_stream stream))
            | Proceed \<Rightarrow>
                let buffered_data = (case maybe_header of DetectedV2 (Some extra) \<Rightarrow> extra | _ \<Rightarrow> buffer) in
                (case extract_metadata config (ppp_parse P buffered_data) peer loc of
                   Inl e \<Rightarrow> Inl e
                 | Inr metadata \<Rightarrow> Inr (metadata, Unwrapped (into_stream stream)))))
     (read_header_bytes P read_exact (replicate read_buffer_len 0) (rewindable_new inner))"

section \<open>Writing\<close>

record proxy_protocol_configurator =
  pp_version :: proxy_protocol_version
  pp_pass_through_tlvs :: "pass_through_tlvs option"
  pp_added_tlvs :: "(tlv_type \<times> u8 list) list"

datatype build_error = MixedAddresses | AddTlvFailed | PassThroughTlvFailed | BuildFailed

definition v1_text :: "str \<Rightarrow> str \<Rightarrow> str \<Rightarrow> u16 \<Rightarrow> u16 \<Rightarrow> str" where
  "v1_text family src dst src_port dst_port =
     ''PROXY '' @ family @ '' '' @ src @ '' '' @ dst @ '' '' @ show_radix 10 (unat src_port) @ '' '' @ show_radix 10 (unat dst_port)
     @ [CHR 13, CHR 10]"

definition build_v1_header :: "downstream_connection_metadata \<Rightarrow> build_error + u8 list" where
  "build_v1_header md =
     (let peer = peer_address md; loc = local_address md in
      case (sa_ip peer, sa_ip loc) of
        (V4 src, V4 dst) \<Rightarrow> Inr (into_bytes (v1_text ''TCP4'' (show_v4 src) (show_v4 dst) (sa_port peer) (sa_port loc)))
      | (V6 src, V6 dst) \<Rightarrow> Inr (into_bytes (v1_text ''TCP6'' (show_v6 src) (show_v6 dst) (sa_port peer) (sa_port loc)))
      | _ \<Rightarrow> Inl MixedAddresses)"

fun write_tlvs :: "('b, 'x) ppp_ops_scheme \<Rightarrow> build_error \<Rightarrow> (tlv_type \<times> u8 list) list \<Rightarrow> 'b \<Rightarrow> build_error + 'b" where
  "write_tlvs P err [] builder = Inr builder"
| "write_tlvs P err ((ty, value) # entries) builder =
     (case ppp_write_tlv P builder (u8_of_tlv_type ty) value of
        Inl _ \<Rightarrow> Inl err
      | Inr builder' \<Rightarrow> write_tlvs P err entries builder')"

definition passed_tlvs :: "pass_through_tlvs option \<Rightarrow> downstream_connection_metadata \<Rightarrow> (tlv_type \<times> u8 list) list" where
  "passed_tlvs pass_through md =
     (case (md, pass_through) of
        (MdProxyProtocol _ _ _ tlv_data _ _, Some cfg) \<Rightarrow> filter (\<lambda>(ty, _). should_pass_through cfg ty) tlv_data
      | _ \<Rightarrow> [])"

definition build_v2_header ::
  "('b, 'x) ppp_ops_scheme \<Rightarrow> proxy_protocol_configurator \<Rightarrow> downstream_connection_metadata \<Rightarrow> build_error + u8 list" where
  "build_v2_header P c md =
     (case write_tlvs P AddTlvFailed (pp_added_tlvs c) (ppp_with_addresses P (peer_address md) (local_address md)) of
        Inl e \<Rightarrow> Inl e
      | Inr builder \<Rightarrow>
          (case write_tlvs P PassThroughTlvFailed (passed_tlvs (pp_pass_through_tlvs c) md) builder of
             Inl e \<Rightarrow> Inl e
           | Inr builder' \<Rightarrow> (case ppp_build P builder' of Inl _ \<Rightarrow> Inl BuildFailed | Inr bytes \<Rightarrow> Inr bytes)))"

definition build_proxy_header ::
  "('b, 'x) ppp_ops_scheme \<Rightarrow> proxy_protocol_configurator \<Rightarrow> downstream_connection_metadata \<Rightarrow> build_error + u8 list" where
  "build_proxy_header P c md = (case pp_version c of ProxyV1 \<Rightarrow> build_v1_header md | ProxyV2 \<Rightarrow> build_v2_header P c md)"

section \<open>Reading through the recording wrapper\<close>

text \<open>The line of two addresses in the specification of version 1 of the protocol, which the code does not share: the
  signature, the family, the address and then the port of the source and of the destination, separated by single spaces and ended by CRLF.\<close>
definition proxy_v1_line :: "str \<Rightarrow> str \<times> u16 \<Rightarrow> str \<times> u16 \<Rightarrow> str" where
  "proxy_v1_line family source destination =
     join_with '' '' [''PROXY'', family, fst source, fst destination,
       show_radix 10 (unat (snd source)), show_radix 10 (unat (snd destination))] @ [CHR 13, CHR 10]"

text \<open>What \<open>ppp\<close> documents of version 1: the prefix, and that the parser reads the line the specification
  gives for two addresses, whatever follows it in the buffer.\<close>
definition ppp_laws :: "('b, 'x) ppp_ops_scheme \<Rightarrow> socket_addr \<Rightarrow> socket_addr \<Rightarrow> bool" where
  "ppp_laws P source destination \<longleftrightarrow> ppp_v1_prefix P = into_bytes ''PROXY'' \<and>
     (\<forall>tail. case (sa_ip source, sa_ip destination) of
        (V4 src, V4 dst) \<Rightarrow>
          ppp_parse P (into_bytes (proxy_v1_line ''TCP4'' (show_v4 src, sa_port source) (show_v4 dst, sa_port destination)) @ tail) =
            ParsedV1 (Inr (V1Tcp4 \<lparr>source_address = src, destination_address = dst,
                                     source_port = sa_port source, destination_port = sa_port destination\<rparr>))
      | (V6 src, V6 dst) \<Rightarrow>
          ppp_parse P (into_bytes (proxy_v1_line ''TCP6'' (show_v6 src, sa_port source) (show_v6 dst, sa_port destination)) @ tail) =
            ParsedV1 (Inr (V1Tcp6 \<lparr>source_address = src, destination_address = dst,
                                     source_port = sa_port source, destination_port = sa_port destination\<rparr>))
      | _ \<Rightarrow> True)"

lemma v1_text_is_line: "v1_text family src dst p q = proxy_v1_line family (src, p) (dst, q)"
  by (simp add: v1_text_def proxy_v1_line_def)

text \<open>The wrapper is recording, and what it recorded with what is to come is the whole of the connection's data.\<close>
definition recorded :: "('s \<Rightarrow> u8 list) \<Rightarrow> u8 list \<Rightarrow> 's rewindable \<Rightarrow> bool" where
  "recorded data all s \<longleftrightarrow> (\<exists>inner buffer. s = HeadBufferingReadOnlyMode inner buffer \<and> buffer @ data inner = all)"

lemma recorded_new: "recorded data (data s) (rewindable_new s)"
  by (simp add: recorded_def rewindable_new_def)

lemma recorded_into_stream: "recorded data all s \<Longrightarrow> data (into_stream s) = rewindable_data data s"
  by (auto simp: recorded_def)

lemma recorded_rewound: "recorded data all s \<Longrightarrow> rewindable_data data (into_rewound_stream s) = all"
  by (auto simp: recorded_def)

lemma length_into_bytes [simp]: "length (into_bytes s) = length s"
  by (simp add: into_bytes_def)

lemma into_bytes_append [simp]: "into_bytes (s @ t) = into_bytes s @ into_bytes t"
  by (simp add: into_bytes_def)

lemma into_bytes_no_cr:
  assumes "\<And>c. c \<in> set s \<Longrightarrow> 32 \<le> (of_char c :: nat) \<and> (of_char c :: nat) < 127"
  shows "13 \<notin> set (into_bytes s)"
proof
  assume "13 \<in> set (into_bytes s)"
  then obtain c where c: "c \<in> set s" "(13 :: u8) = word_of_nat (of_char c)"
    by (auto simp: into_bytes_def)
  have "unat (word_of_nat (of_char c) :: u8) = of_char c"
    using assms [OF c(1)] by (simp add: unat_of_nat)
  with c(2) [symmetric] assms [OF c(1)] show False by simp
qed

lemma fill_at_props:
  assumes "i + length bs \<le> length buffer"
  shows "length (fill_at buffer i bs) = length buffer" "take (i + length bs) (fill_at buffer i bs) = take i buffer @ bs"
  using assms by (simp_all add: fill_at_def)

context rewindable_stream
begin

lemma recorded_read_exact:
  assumes "read_exact_laws (rewindable_read inner_read) read_exact" "recorded inner_data all s"
    and "n \<le> length (rewindable_data inner_data s)"
  obtains s' where "read_exact n s = (Some (take n (rewindable_data inner_data s)), s')"
    "rewindable_data inner_data s' = drop n (rewindable_data inner_data s)" "recorded inner_data all s'"
proof -
  obtain s' where r: "read_exact n s = (Some (take n (rewindable_data inner_data s)), s')"
    "rewindable_data inner_data s' = drop n (rewindable_data inner_data s)"
    "reads (rewindable_read inner_read) s (take n (rewindable_data inner_data s)) s'"
    by (rule outer.read_exact_available [OF assms(1,3)])
  obtain i b where s: "s = HeadBufferingReadOnlyMode i b" "b @ inner_data i = all"
    using assms(2) by (auto simp: recorded_def)
  define bs where "bs = take n (rewindable_data inner_data s)"
  obtain i' where i': "s' = HeadBufferingReadOnlyMode i' (b @ bs)" "reads inner_read i bs i'"
    using rewindable_reads [OF r(3) s(1)] unfolding bs_def by (elim exE conjE)
  have "b @ bs @ inner_data i' = all"
    using inner.reads_data [OF i'(2)] s(2) by simp
  then have "recorded inner_data all s'"
    using i'(1) by (simp add: recorded_def)
  with r(1,2) show thesis by (rule that)
qed

lemma v1_loop_header:
  assumes rx: "read_exact_laws (rewindable_read inner_read) read_exact"
    and h: "h = body @ v1_terminator" "13 \<notin> set body" "length h \<le> v1_max_length"
  shows "\<lbrakk>recorded inner_data all s; rewindable_data inner_data s = drop i h @ rest; 0 < i; i < length h;
      take i buffer = take i h; length h \<le> length buffer\<rbrakk> \<Longrightarrow>
    \<exists>buffer' s'. v1_loop read_exact i buffer s = (Inr (True, buffer'), s') \<and> take (length h) buffer' = h \<and>
      rewindable_data inner_data s' = rest \<and> recorded inner_data all s'"
proof (induction "length h - i" arbitrary: i buffer s rule: less_induct)
  case less
  have d: "drop i h = h ! i # drop (Suc i) h" using less.prems(4) by (rule Cons_nth_drop_Suc [symmetric])
  obtain s1 where r: "read_exact 1 s = (Some [h ! i], s1)" "rewindable_data inner_data s1 = drop (Suc i) h @ rest"
      "recorded inner_data all s1"
    using recorded_read_exact [OF rx less.prems(1), of 1] less.prems(2) d by auto
  define b where "b = fill_at buffer i [h ! i]"
  have b: "length b = length buffer" "take (Suc i) b = take (Suc i) h"
    using fill_at_props [of i "[h ! i]" buffer] less.prems(4-6) by (simp_all add: b_def take_Suc_conv_app_nth)
  have nth: "b ! j = h ! j" if "j \<le> i" for j
    using arg_cong [OF b(2), of "\<lambda>xs. xs ! j"] that by simp
  have i107: "i < v1_max_length" using less.prems(4) h(3) by simp
  have term_iff: "[b ! (i - 1), b ! i] = v1_terminator \<longleftrightarrow> i = length body + 1"
  proof
    assume "[b ! (i - 1), b ! i] = v1_terminator"
    then have "h ! (i - 1) = 13" using nth by (simp add: v1_terminator_def)
    moreover have "h ! j \<noteq> 13" if "j < length body" for j
    proof
      assume "h ! j = 13"
      then have "body ! j = 13" using that h(1) by (simp add: nth_append)
      with nth_mem [OF that] h(2) show False by simp
    qed
    ultimately have "\<not> i - 1 < length body" by blast
    then show "i = length body + 1" using less.prems(3,4) h(1) by (simp add: v1_terminator_def)
  next
    assume "i = length body + 1"
    then show "[b ! (i - 1), b ! i] = v1_terminator" using nth h(1) by (simp add: nth_append v1_terminator_def)
  qed
  have loop: "v1_loop read_exact i buffer s =
      (if i = length body + 1 then (Inr (True, b), s1) else v1_loop read_exact (Suc i) b s1)"
    using r(1) i107 unfolding term_iff [symmetric]
    by (simp add: v1_loop.simps [of read_exact i buffer s] b_def [symmetric] Let_def)
  show ?case
  proof (cases "i = length body + 1")
    case True
    then have "Suc i = length h" using h(1) by (simp add: v1_terminator_def)
    with loop True r(2,3) b show ?thesis by simp
  next
    case False
    have step: "v1_loop read_exact i buffer s = v1_loop read_exact (Suc i) b s1"
      using False loop by simp
    have "Suc i < length h" using False less.prems(4) h(1) by (simp add: v1_terminator_def)
    with less.hyps [of "Suc i" s1 b] r b less.prems(6) step show ?thesis by simp
  qed
qed

lemma read_header_v1:
  assumes "read_exact_laws (rewindable_read inner_read) read_exact" and pre: "ppp_v1_prefix P = into_bytes ''PROXY''"
    and h: "h = body @ v1_terminator" "13 \<notin> set body" "length h \<le> v1_max_length" "take 5 h = into_bytes ''PROXY''"
    and data: "inner_data inner = h @ rest"
  shows "\<exists>buffer s. read_header_bytes P read_exact (replicate read_buffer_len 0) (rewindable_new inner) = Ret (Inr DetectedV1, h @ buffer, s) \<and>
    inner_data (into_stream s) = rest"
proof -
  have "length (take 5 h) = 5" unfolding h(4) by simp
  then have len: "5 \<le> length h" "length h \<noteq> 5"
    using h(1,4) by (auto simp: v1_terminator_def into_bytes_def)
  obtain s1 where r: "read_exact 5 (rewindable_new inner) = (Some (take 5 h), s1)"
    "rewindable_data inner_data s1 = drop 5 h @ rest" "recorded inner_data (inner_data inner) s1"
    using recorded_read_exact [OF assms(1) recorded_new, of 5 inner] data len by (auto simp: rewindable_new_def)
  define b where "b = fill_at (replicate read_buffer_len 0) 0 (take 5 h)"
  have b: "length b = 512" "take 5 b = take 5 h"
    using fill_at_props [of 0 "take 5 h" "replicate read_buffer_len 0"] len by (simp_all add: b_def read_buffer_len_def min_absorb2)
  have b5: "take 5 b = ppp_v1_prefix P"
    using b(2) pre h(4) by simp
  obtain b' s' where v: "v1_loop read_exact 5 b s1 = (Inr (True, b'), s')" "take (length h) b' = h"
      "rewindable_data inner_data s' = rest" "recorded inner_data (inner_data inner) s'"
    using v1_loop_header [OF assms(1) h(1-3) r(3,2), of b] len b h(3) by (auto simp: v1_max_length_def)
  have "b' = h @ drop (length h) b'"
    using append_take_drop_id [of "length h" b'] v(2) by simp
  moreover have "read_header_bytes P read_exact (replicate read_buffer_len 0) (rewindable_new inner) = Ret (Inr DetectedV1, b', s')"
    using r(1) v(1) b5 by (simp add: read_header_bytes_def v1_prefix_len_def b_def [symmetric])
  ultimately show ?thesis
    using v(3) recorded_into_stream [OF v(4)] by metis
qed

end

section \<open>A header written is a header read\<close>

lemma v1_text_props:
  assumes "family \<in> {''TCP4'', ''TCP6''}" "set src \<subseteq> address_chars" "set dst \<subseteq> address_chars" "length src \<le> 39" "length dst \<le> 39"
  shows "\<exists>body. into_bytes (v1_text family src dst p q) = body @ v1_terminator \<and> 13 \<notin> set body \<and>
      length (into_bytes (v1_text family src dst p q)) \<le> v1_max_length"
    "take 5 (into_bytes (v1_text family src dst p q)) = into_bytes ''PROXY''"
proof -
  have port: "length (show_radix 10 (unat r)) \<le> 5" for r :: u16
  proof -
    have "unat r < 2 ^ LENGTH(16)" by (rule unsigned_less)
    then show ?thesis using length_show_radix [of 10 "unat r" 4] by simp
  qed
  let ?body = "''PROXY '' @ family @ '' '' @ src @ '' '' @ dst @ '' '' @ show_radix 10 (unat p) @ '' '' @ show_radix 10 (unat q)"
  have split: "into_bytes (v1_text family src dst p q) = into_bytes ?body @ v1_terminator"
    by (simp add: v1_text_def v1_terminator_def) (simp add: into_bytes_def)
  have vis: "32 \<le> (of_char c :: nat) \<and> (of_char c :: nat) < 127" if "c \<in> set ?body" for c
  proof -
    have "c \<in> set (''PROXY '' @ family) \<or> c \<in> address_chars"
      using that assms(2,3) show_radix_address [of 10 "unat p"] show_radix_address [of 10 "unat q"] by auto
    then show ?thesis
    proof
      assume "c \<in> set (''PROXY '' @ family)"
      then show ?thesis using assms(1) by auto
    qed (rule address_char_visible)
  qed
  have "length ?body \<le> 105"
    using port [of p] port [of q] assms(1,4,5) by auto
  then have "length (into_bytes (v1_text family src dst p q)) \<le> v1_max_length"
    unfolding split by (simp add: v1_terminator_def v1_max_length_def)
  with split into_bytes_no_cr [OF vis] show "\<exists>body. into_bytes (v1_text family src dst p q) = body @ v1_terminator \<and> 13 \<notin> set body \<and>
      length (into_bytes (v1_text family src dst p q)) \<le> v1_max_length" by blast
  show "take 5 (into_bytes (v1_text family src dst p q)) = into_bytes ''PROXY''"
    by (simp add: v1_text_def into_bytes_def)
qed

context rewindable_stream
begin

lemma try_read_v1:
  assumes "read_exact_laws (rewindable_read inner_read) read_exact" "ppp_v1_prefix P = into_bytes ''PROXY''" "ProxyV1 \<notin> set (disallowed_versions config)"
    and "family \<in> {''TCP4'', ''TCP6''}" "set src \<subseteq> address_chars" "set dst \<subseteq> address_chars" "length src \<le> 39" "length dst \<le> 39"
    and data: "inner_data inner = into_bytes (v1_text family src dst p q) @ rest"
    and parsed: "\<And>tail. extract_metadata config (ppp_parse P (into_bytes (v1_text family src dst p q) @ tail)) peer loc = Inr metadata"
  shows "\<exists>s'. try_read_proxy_header P read_exact config inner loc peer = Ret (Inr (metadata, Unwrapped s')) \<and> inner_data s' = rest"
proof -
  obtain body where body: "into_bytes (v1_text family src dst p q) = body @ v1_terminator" "13 \<notin> set body"
    "length (into_bytes (v1_text family src dst p q)) \<le> v1_max_length"
    using v1_text_props(1) [OF assms(4-8)] by blast
  obtain buffer s where "read_header_bytes P read_exact (replicate read_buffer_len 0) (rewindable_new inner) =
      Ret (Inr DetectedV1, into_bytes (v1_text family src dst p q) @ buffer, s)" "inner_data (into_stream s) = rest"
    using read_header_v1 [OF assms(1,2) body v1_text_props(2) [OF assms(4-8)] data] by blast
  then show ?thesis
    using assms(3) parsed
    by (simp add: try_read_proxy_header_def apply_policy_def version_policy_def should_reject_def
        should_allow_transparent_passthrough_def)
qed

lemma no_header_passes_through:
  assumes rx: "read_exact_laws (rewindable_read inner_read) read_exact" and "allow_requests_without_proxy_protocol config"
    and "16 \<le> length (inner_data inner)" "take 5 (inner_data inner) \<noteq> ppp_v1_prefix P" "take 12 (inner_data inner) \<noteq> ppp_v2_prefix P"
  shows "\<exists>r. try_read_proxy_header P read_exact config inner loc peer = Ret (Inr (MdSocket peer loc None, Rewound r)) \<and>
    rewindable_data inner_data r = inner_data inner"
proof -
  let ?d = "inner_data inner" and ?b0 = "replicate read_buffer_len (0 :: u8)"
  obtain s1 where r1: "read_exact 5 (rewindable_new inner) = (Some (take 5 ?d), s1)"
    "rewindable_data inner_data s1 = drop 5 ?d" "recorded inner_data ?d s1"
    using recorded_read_exact [OF rx recorded_new, of 5 inner] assms(3) by (auto simp: rewindable_new_def)
  obtain s2 where r2: "read_exact 11 s1 = (Some (take 11 (drop 5 ?d)), s2)" "recorded inner_data ?d s2"
  proof -
    have "11 \<le> length (rewindable_data inner_data s1)" using r1(2) assms(3) by simp
    from recorded_read_exact [OF rx r1(3) this] show thesis unfolding r1(2) using that by blast
  qed
  define b1 where "b1 = fill_at ?b0 0 (take 5 ?d)"
  define b2 where "b2 = fill_at b1 5 (take 11 (drop 5 ?d))"
  have b1: "length b1 = 512" "take 5 b1 = take 5 ?d"
    using fill_at_props [of 0 "take 5 ?d" ?b0] assms(3) by (simp_all add: b1_def read_buffer_len_def min_absorb2)
  have b16: "take 16 b2 = take 5 ?d @ take 11 (drop 5 ?d)"
    using fill_at_props(2) [of 5 "take 11 (drop 5 ?d)" b1] b1 assms(3) by (simp add: b2_def min_absorb2)
  then have b16': "take 16 b2 = take 16 ?d"
    using take_add [of 5 11 ?d] by simp
  have b12: "take 12 b2 = take 12 ?d"
    using arg_cong [OF b16', of "take 12"] by (simp add: min_absorb1)
  have "read_header_bytes P read_exact ?b0 (rewindable_new inner) = Ret (Inr DetectedNone, b2, s2)"
    using r1(1) r2(1) b1(2) b12 assms(4,5)
    by (simp add: read_header_bytes_def v1_prefix_len_def v2_minimum_len_def v2_prefix_len_def b1_def [symmetric] b2_def [symmetric] Let_def)
  then show ?thesis
    using assms(2) recorded_rewound [OF r2(2)] by (simp add: try_read_proxy_header_def apply_policy_def)
qed

end

text \<open>A version 2 header that does not fit the fixed buffer: the vector the rest should be read into has a
  capacity but no length, and taking the slice panics.\<close>
lemma long_v2_header_panics:
  assumes "read_exact 5 s = (Some b1, s1)" "read_exact 11 s1 = (Some b2, s2)" "length b1 = 5" "length b2 = 11"
    and "b1 \<noteq> ppp_v1_prefix P" "take 12 (b1 @ b2) = ppp_v2_prefix P"
    and "unat (from_be_bytes [b2 ! 9, b2 ! 10] :: u16) > 496"
  shows "read_header_bytes P read_exact (replicate read_buffer_len 0) s = Panic"
proof -
  define c1 where "c1 = fill_at (replicate read_buffer_len 0) 0 b1"
  define c2 where "c2 = fill_at c1 5 b2"
  have c1: "take 5 c1 = b1" "length c1 = 512"
    using fill_at_props [of 0 b1 "replicate read_buffer_len 0"] assms(3) by (simp_all add: c1_def read_buffer_len_def)
  have c16: "take 16 c2 = b1 @ b2"
    using fill_at_props(2) [of 5 b2 c1] c1 assms(4) by (simp add: c2_def)
  have nth: "c2 ! j = (b1 @ b2) ! j" if "j < 16" for j
    using arg_cong [OF c16, of "\<lambda>xs. xs ! j"] that by simp
  have "take 12 c2 = ppp_v2_prefix P"
    using arg_cong [OF c16, of "take 12"] assms(6) by (simp add: min_absorb1)
  moreover have "c2 ! 14 = b2 ! 9" "c2 ! 15 = b2 ! 10"
    using nth [of 14] nth [of 15] assms(3) by (simp_all add: nth_append)
  moreover have "length (take 16 c2) = 16" using assms(3,4) c16 by simp
  ultimately show ?thesis
    using assms(1,2,5,7) c1(1)
    by (simp add: read_header_bytes_def v1_prefix_len_def v2_minimum_len_def v2_prefix_len_def v2_length_index_def
        read_buffer_len_def c1_def [unfolded read_buffer_len_def, symmetric] c2_def [symmetric] Let_def)
qed

lemma socket_addr_eqI: "sa_ip a = ip \<Longrightarrow> sa_port a = port \<Longrightarrow> \<lparr>sa_ip = ip, sa_port = port\<rparr> = a"
  by (cases a) simp

text \<open>C38: The version 1 header written for a connection is read back by the next proxy: it recovers the
  source and destination addresses, and its stream continues with exactly the bytes after the header, whatever
  pieces they arrive in.  The parser of that proxy is only assumed to read the line the protocol's specification gives for the two
  addresses.  An address is an IP address and a port: the flow information and the scope of an IPv6 socket address are not
  part of the header, and of the model.\<close>
theorem proxy_v1_roundtrip:
  assumes "async_stream read data" "read_exact_laws (rewindable_read read) read_exact"
    and "ppp_laws P (peer_address md) (local_address md)"
    and "ProxyV1 \<notin> set (disallowed_versions config)"
    and "build_v1_header md = Inr header" "data s = header @ rest"
  shows "\<exists>s'. try_read_proxy_header P read_exact config s loc peer =
      Ret (Inr (MdProxyProtocol (peer_address md) (local_address md) ProtoStream [] peer loc, Unwrapped s')) \<and> data s' = rest"
proof -
  have stream: "rewindable_stream read data" using assms(1) by (rule rewindable_stream.intro)
  have prefix: "ppp_v1_prefix P = into_bytes ''PROXY''" using assms(3) by (simp add: ppp_laws_def)
  note reader = rewindable_stream.try_read_v1 [OF stream assms(2) prefix assms(4)]
  note lens = le_trans [OF length_show_v4, of 39]
  consider (v4) a b where "sa_ip (peer_address md) = V4 a" "sa_ip (local_address md) = V4 b"
    | (v6) a b where "sa_ip (peer_address md) = V6 a" "sa_ip (local_address md) = V6 b"
    using assms(5) by (auto simp: build_v1_header_def Let_def split: ip_addr.splits)
  then show ?thesis
  proof cases
    case v4
    then have "header = into_bytes (v1_text ''TCP4'' (show_v4 a) (show_v4 b) (sa_port (peer_address md)) (sa_port (local_address md)))"
      using assms(5) by (simp add: build_v1_header_def)
    then have data: "data s = into_bytes (v1_text ''TCP4'' (show_v4 a) (show_v4 b) (sa_port (peer_address md)) (sa_port (local_address md))) @ rest"
      using assms(6) by simp
    have "extract_metadata config (ppp_parse P (into_bytes (v1_text ''TCP4'' (show_v4 a) (show_v4 b)
        (sa_port (peer_address md)) (sa_port (local_address md))) @ tail)) peer loc =
      Inr (MdProxyProtocol (peer_address md) (local_address md) ProtoStream [] peer loc)" for tail
      using assms(3) v4 by (simp add: ppp_laws_def v1_text_is_line extract_metadata_def ips_v4_def socket_addr_eqI)
    from reader [OF _ _ _ _ _ data this] show ?thesis
      by (simp add: show_v4_chars lens)
  next
    case v6
    then have "header = into_bytes (v1_text ''TCP6'' (show_v6 a) (show_v6 b) (sa_port (peer_address md)) (sa_port (local_address md)))"
      using assms(5) by (simp add: build_v1_header_def)
    then have data: "data s = into_bytes (v1_text ''TCP6'' (show_v6 a) (show_v6 b) (sa_port (peer_address md)) (sa_port (local_address md))) @ rest"
      using assms(6) by simp
    have "extract_metadata config (ppp_parse P (into_bytes (v1_text ''TCP6'' (show_v6 a) (show_v6 b)
        (sa_port (peer_address md)) (sa_port (local_address md))) @ tail)) peer loc =
      Inr (MdProxyProtocol (peer_address md) (local_address md) ProtoStream [] peer loc)" for tail
      using assms(3) v6 by (simp add: ppp_laws_def v1_text_is_line extract_metadata_def ips_v6_def socket_addr_eqI)
    from reader [OF _ _ _ _ _ data this] show ?thesis
      by (simp add: show_v6_chars length_show_v6)
  qed
qed

definition example_ppp :: "unit ppp_ops" where
  "example_ppp =
     \<lparr>ppp_v1_prefix = into_bytes ''PROXY'', ppp_v2_prefix = [13, 10, 13, 10, 0, 13, 10, 81, 85, 73, 84, 10],
      ppp_parse = (\<lambda>bytes. let line = into_bytes ''PROXY TCP4 10.0.0.1 10.0.0.2 80 443'' @ [13, 10] in
        if take (length line) bytes = line
        then ParsedV1 (Inr (V1Tcp4 \<lparr>source_address = 0x0A000001, destination_address = 0x0A000002, source_port = 80, destination_port = 443\<rparr>))
        else ParsedV1 (Inl ())),
      ppp_with_addresses = (\<lambda>_ _. ()), ppp_write_tlv = (\<lambda>_ _ _. Inr ()), ppp_build = (\<lambda>_. Inl ())\<rparr>"

definition example_md :: downstream_connection_metadata where
  "example_md = MdSocket \<lparr>sa_ip = V4 0x0A000001, sa_port = 80\<rparr> \<lparr>sa_ip = V4 0x0A000002, sa_port = 443\<rparr> None"

lemma show_decimal:
  "n < 10 \<Longrightarrow> show_radix 10 n = [digit_char n]" "10 \<le> n \<Longrightarrow> show_radix 10 n = show_radix 10 (n div 10) @ [digit_char (n mod 10)]"
  by (subst show_radix.simps, simp)+

lemma digit_chars: "map digit_char [0, 1, 2, 3, 4, 5, 6, 7, 8, 9] = ''0123456789''"
  by code_simp

lemma example_addresses: "show_v4 0x0A000001 = ''10.0.0.1''" "show_v4 0x0A000002 = ''10.0.0.2''"
  by (simp_all add: show_v4_def v4_octets_def show_decimal digit_chars [simplified])

lemma example_line:
  "into_bytes (v1_text ''TCP4'' (show_v4 0x0A000001) (show_v4 0x0A000002) 80 443) = into_bytes ''PROXY TCP4 10.0.0.1 10.0.0.2 80 443'' @ [13, 10]"
  by (simp add: v1_text_def example_addresses show_decimal digit_chars [simplified]) (simp add: into_bytes_def)

theorem proxy_v1_roundtrip_witness:
  "\<exists>s'. try_read_proxy_header example_ppp (read_exact_loop (rewindable_read cursor_read) [])
      \<lparr>allow_requests_without_proxy_protocol = False, disallowed_versions = [ProxyV2], cfg_pass_through_tlvs = None\<rparr>
      (into_bytes ''PROXY TCP4 10.0.0.1 10.0.0.2 80 443'' @ [13, 10] @ into_bytes ''GET'')
      \<lparr>sa_ip = V4 1, sa_port = 1\<rparr> \<lparr>sa_ip = V4 2, sa_port = 2\<rparr> =
    Ret (Inr (MdProxyProtocol \<lparr>sa_ip = V4 0x0A000001, sa_port = 80\<rparr> \<lparr>sa_ip = V4 0x0A000002, sa_port = 443\<rparr> ProtoStream []
      \<lparr>sa_ip = V4 2, sa_port = 2\<rparr> \<lparr>sa_ip = V4 1, sa_port = 1\<rparr>, Unwrapped s')) \<and> s' = into_bytes ''GET''"
proof -
  let ?h = "into_bytes ''PROXY TCP4 10.0.0.1 10.0.0.2 80 443'' @ [13, 10]"
  have h: "build_v1_header example_md = Inr ?h"
    by (simp add: build_v1_header_def example_md_def example_line)
  have "ppp_laws example_ppp (peer_address example_md) (local_address example_md)"
    by (simp add: ppp_laws_def example_md_def example_line [unfolded v1_text_is_line]) (simp add: example_ppp_def Let_def)
  from proxy_v1_roundtrip [OF cursor.async_stream_axioms rewindable_cursor.outer.read_exact_loop_laws this _ h,
      where config = "\<lparr>allow_requests_without_proxy_protocol = False, disallowed_versions = [ProxyV2], cfg_pass_through_tlvs = None\<rparr>"
        and s = "?h @ into_bytes ''GET''" and rest = "into_bytes ''GET''"]
  show ?thesis by (simp add: example_md_def)
qed

end
