(* ===== verification/Xds_Client.thy ===== *)
theory Xds_Client
  imports Ip_Text "HOL-Library.AList"
begin

text \<open>
  The client of the delta xDS protocol (\<open>orion-xds/src/xds/client.rs\<close>, \<open>model.rs\<close>, \<open>request.rs\<close>): subscriptions,
  decoding and acknowledging of responses, the resource versions reported on a new connection, and the waiting times
  between connections.  A hash map is a list of entries with distinct keys, a hash set a list of distinct elements; both are
  updated in place or at the end, so that the list is one of the iteration orders of the source's tables.
  Parameters (\<open>xds_env\<close>): the decoders of the five kinds of resources (prost and the conversions from Envoy's
  messages), the text of errors, the node of the bootstrap configuration and the default node.  The
  consumer of the updates is an arbitrary function from the batch to its reply; durations are seconds.
\<close>

section \<open>Resources\<close>

datatype type_url = TuListener | TuCluster | TuRouteConfiguration | TuClusterLoadAssignment | TuSecret

datatype xds_error =
    XdsGrpcStatus | XdsUnknownResourceType str | XdsDecode | XdsMissingResource | XdsInternalProcessingError
  | XdsBuilderFailed str | XdsConversionError | XdsTransport | XdsSubscriptionFailure

fun type_url_to_string :: "type_url \<Rightarrow> str" where
  "type_url_to_string TuListener = ''type.googleapis.com/envoy.config.listener.v3.Listener''"
| "type_url_to_string TuCluster = ''type.googleapis.com/envoy.config.cluster.v3.Cluster''"
| "type_url_to_string TuRouteConfiguration = ''type.googleapis.com/envoy.config.route.v3.RouteConfiguration''"
| "type_url_to_string TuClusterLoadAssignment = ''type.googleapis.com/envoy.config.endpoint.v3.ClusterLoadAssignment''"
| "type_url_to_string TuSecret = ''type.googleapis.com/envoy.extensions.transport_sockets.tls.v3.Secret''"

definition type_url_try_from :: "str \<Rightarrow> xds_error + type_url" where
  "type_url_try_from s =
     (if s = ''type.googleapis.com/envoy.config.listener.v3.Listener'' then Inr TuListener
      else if s = ''type.googleapis.com/envoy.config.cluster.v3.Cluster'' then Inr TuCluster
      else if s = ''type.googleapis.com/envoy.config.route.v3.RouteConfiguration'' then Inr TuRouteConfiguration
      else if s = ''type.googleapis.com/envoy.config.endpoint.v3.ClusterLoadAssignment'' then Inr TuClusterLoadAssignment
      else if s = ''type.googleapis.com/envoy.extensions.transport_sockets.tls.v3.Secret'' then Inr TuSecret
      else Inl (XdsUnknownResourceType s))"

record xds_resource =
  res_name :: str
  res_version :: str
  res_value :: "u8 list option"

record delta_response =
  resp_type_url :: str
  resp_resources :: "xds_resource list"
  resp_removed_resources :: "str list"
  resp_nonce :: str

datatype ('l, 'c, 'r, 'e, 's) xds_payload =
    PayloadListener str 'l | PayloadCluster str 'c | PayloadEndpoints str 'e
  | PayloadRouteConfiguration str 'r | PayloadSecret str 's

datatype 'p xds_update = XdsUpdate str 'p str | XdsRemove str type_url

fun xds_update_id :: "'p xds_update \<Rightarrow> str" where
  "xds_update_id (XdsUpdate ident _ _) = ident"
| "xds_update_id (XdsRemove ident _) = ident"

record rejected_config =
  rc_name :: str
  rc_reason :: str

definition rejected_to_string :: "rejected_config \<Rightarrow> str" where
  "rejected_to_string r = rc_name r @ '': '' @ rc_reason r"

record ('l, 'c, 'r, 'e, 's, 'n) xds_env =
  decode_listener :: "u8 list \<Rightarrow> xds_error + 'l"
  decode_cluster :: "u8 list \<Rightarrow> xds_error + 'c"
  decode_route :: "u8 list \<Rightarrow> xds_error + 'r"
  decode_endpoints :: "u8 list \<Rightarrow> xds_error + 'e"
  decode_secret :: "u8 list \<Rightarrow> xds_error + 's"
  debug_error :: "xds_error \<Rightarrow> str"
  env_node :: 'n
  default_node :: 'n

definition payload_try_from ::
  "('l, 'c, 'r, 'e, 's, 'n, 'x) xds_env_scheme \<Rightarrow> xds_resource \<Rightarrow> type_url \<Rightarrow> xds_error + ('l, 'c, 'r, 'e, 's) xds_payload" where
  "payload_try_from E resource ty =
     (let resource_id = res_name resource in
      case res_value resource of
        None \<Rightarrow> Inl XdsMissingResource
      | Some value \<Rightarrow>
          (case ty of
             TuListener \<Rightarrow> map_sum id (PayloadListener resource_id) (decode_listener E value)
           | TuCluster \<Rightarrow> map_sum id (PayloadCluster resource_id) (decode_cluster E value)
           | TuRouteConfiguration \<Rightarrow> map_sum id (PayloadRouteConfiguration resource_id) (decode_route E value)
           | TuClusterLoadAssignment \<Rightarrow> map_sum id (PayloadEndpoints resource_id) (decode_endpoints E value)
           | TuSecret \<Rightarrow> map_sum id (PayloadSecret resource_id) (decode_secret E value)))"

section \<open>Requests\<close>

record status =
  st_code :: int
  st_message :: str

text \<open>\<open>tonic::Code::Unknown\<close> and \<open>InvalidArgument\<close> are the gRPC codes 2 and 3.\<close>
definition unspecified_error :: "str \<Rightarrow> status" where
  "unspecified_error message = \<lparr>st_code = 2, st_message = message\<rparr>"

definition invalid_argument :: "str \<Rightarrow> status" where
  "invalid_argument message = \<lparr>st_code = 3, st_message = message\<rparr>"

record 'n request_builder =
  rb_node :: "'n option"
  rb_nonce :: "str option"
  rb_type_url :: type_url
  rb_error_detail :: "status option"
  rb_subscribe :: "str list"
  rb_unsubscribe :: "str list"
  rb_initial_resource_versions :: "(str \<times> str) list"

definition for_resource :: "type_url \<Rightarrow> 'n request_builder" where
  "for_resource ty =
     \<lparr>rb_node = None, rb_nonce = None, rb_type_url = ty, rb_error_detail = None, rb_subscribe = [], rb_unsubscribe = [],
      rb_initial_resource_versions = []\<rparr>"

record 'n delta_request =
  dr_node :: 'n
  dr_response_nonce :: str
  dr_type_url :: str
  dr_subscribe :: "str list"
  dr_unsubscribe :: "str list"
  dr_initial_resource_versions :: "(str \<times> str) list"
  dr_error_detail :: "status option"

definition request_build :: "('l, 'c, 'r, 'e, 's, 'n, 'x) xds_env_scheme \<Rightarrow> 'n request_builder \<Rightarrow> 'n delta_request" where
  "request_build E b =
     \<lparr>dr_node = (case rb_node b of Some n \<Rightarrow> n | None \<Rightarrow> default_node E),
      dr_response_nonce = (case rb_nonce b of Some n \<Rightarrow> n | None \<Rightarrow> []),
      dr_type_url = type_url_to_string (rb_type_url b), dr_subscribe = rb_subscribe b, dr_unsubscribe = rb_unsubscribe b,
      dr_initial_resource_versions = rb_initial_resource_versions b, dr_error_detail = rb_error_detail b\<rparr>"

section \<open>Building a client\<close>

record client_builder =
  cb_initial_subscriptions :: "(type_url \<times> str list) list"
  cb_error :: "str option"

definition builder_new :: client_builder where
  "builder_new = \<lparr>cb_initial_subscriptions = [], cb_error = None\<rparr>"

text \<open>\<open>get(..).cloned().unwrap_or_default()\<close> and \<open>entry(..).or_default()\<close> of a table of lists.\<close>
definition get_or_default :: "('k \<times> 'v list) list \<Rightarrow> 'k \<Rightarrow> 'v list" where
  "get_or_default m k = (case map_of m k of Some v \<Rightarrow> v | None \<Rightarrow> [])"

definition subscribe_resource_name_by_typeurl :: "type_url option \<Rightarrow> str \<Rightarrow> type_url \<Rightarrow> client_builder \<Rightarrow> client_builder" where
  "subscribe_resource_name_by_typeurl binding resource_id ty b =
     (if binding = None \<or> binding = Some ty
      then b\<lparr>cb_initial_subscriptions := AList.update ty (List.insert resource_id (get_or_default (cb_initial_subscriptions b) ty)) (cb_initial_subscriptions b)\<rparr>
      else b\<lparr>cb_error := Some ''can only subscribe by type_url when using a compatible typed binding''\<rparr>)"

definition subscribe_resource_name :: "type_url option \<Rightarrow> str \<Rightarrow> client_builder \<Rightarrow> client_builder" where
  "subscribe_resource_name binding resource_id b =
     (case binding of
        Some ty \<Rightarrow> subscribe_resource_name_by_typeurl binding resource_id ty b
      | None \<Rightarrow> b\<lparr>cb_error := Some ''subscribe only works if typed binding provides a compatible type_url''\<rparr>)"

definition client_build :: "client_builder \<Rightarrow> xds_error + (type_url \<times> str list) list" where
  "client_build b = (case cb_error b of Some err \<Rightarrow> Inl (XdsBuilderFailed err) | None \<Rightarrow> Inr (cb_initial_subscriptions b))"

section \<open>State of the client\<close>

definition initial_backoff :: nat where "initial_backoff = 1"
definition max_backoff :: nat where "max_backoff = 20"
definition backoff_interval :: nat where "backoff_interval = 2"

record discovery_client_state =
  cl_backoff :: nat
  cl_tracked :: "(type_url \<times> (str \<times> str) list) list"
  cl_subscriptions :: "(type_url \<times> str list) list"

definition reset_backoff :: "discovery_client_state \<Rightarrow> discovery_client_state" where
  "reset_backoff st = st\<lparr>cl_backoff := initial_backoff\<rparr>"

datatype subscription_event = Subscribe type_url str | Unsubscribe type_url str

text \<open>\<open>Sender::send\<close> of a request: it fails when the outbound stream has dropped its receiver, and the client only logs that.\<close>
definition sent_requests :: "bool \<Rightarrow> 'n delta_request \<Rightarrow> 'n delta_request list" where
  "sent_requests outbound request = (if outbound then [request] else [])"

fun process_subscription_event ::
  "('l, 'c, 'r, 'e, 's, 'n, 'x) xds_env_scheme \<Rightarrow> bool \<Rightarrow> subscription_event \<Rightarrow> discovery_client_state
     \<Rightarrow> discovery_client_state \<times> 'n delta_request list" where
  "process_subscription_event E outbound (Subscribe ty resource_id) st =
     (let names = get_or_default (cl_subscriptions st) ty;
          is_new = resource_id \<notin> set names;
          st' = st\<lparr>cl_subscriptions := AList.update ty (if is_new then names @ [resource_id] else names) (cl_subscriptions st)\<rparr>
      in (st', if is_new
               then sent_requests outbound (request_build E ((for_resource ty)\<lparr>rb_node := Some (env_node E), rb_subscribe := [resource_id]\<rparr>))
               else []))"
| "process_subscription_event E outbound (Unsubscribe ty resource_id) st =
     (let names = get_or_default (cl_subscriptions st) ty;
          was_subscribed = resource_id \<in> set names;
          st' = st\<lparr>cl_subscriptions := AList.update ty (removeAll resource_id names) (cl_subscriptions st)\<rparr>
      in (st', if was_subscribed
               then sent_requests outbound (request_build E ((for_resource ty)\<lparr>rb_node := Some (env_node E), rb_unsubscribe := [resource_id]\<rparr>))
               else []))"

definition build_initial_discovery_requests ::
  "('l, 'c, 'r, 'e, 's, 'n, 'x) xds_env_scheme \<Rightarrow> type_url option \<Rightarrow> discovery_client_state \<Rightarrow> 'n delta_request list" where
  "build_initial_discovery_requests E binding st =
     (let resource_types = (case binding of
              Some ty \<Rightarrow> [ty]
            | None \<Rightarrow> [TuSecret, TuCluster, TuClusterLoadAssignment, TuListener, TuRouteConfiguration])
      in map (\<lambda>ty. request_build E ((for_resource ty)\<lparr>rb_node := Some (env_node E),
                      rb_initial_resource_versions := get_or_default (cl_tracked st) ty,
                      rb_subscribe := get_or_default (cl_subscriptions st) ty\<rparr>)) resource_types)"

fun remove_tracked :: "type_url \<Rightarrow> str list \<Rightarrow> discovery_client_state \<Rightarrow> discovery_client_state" where
  "remove_tracked ty [] st = st"
| "remove_tracked ty (resource_id # ids) st =
     remove_tracked ty ids
       (case map_of (cl_tracked st) ty of
          Some resources \<Rightarrow> st\<lparr>cl_tracked := AList.update ty (AList.delete resource_id resources) (cl_tracked st)\<rparr>
        | None \<Rightarrow> st)"

definition process_resource_ids_for_removal ::
  "discovery_client_state \<Rightarrow> delta_response \<Rightarrow> type_url \<Rightarrow> discovery_client_state \<times> str list" where
  "process_resource_ids_for_removal st response ty =
     (remove_tracked ty (resp_removed_resources response) st, resp_removed_resources response)"

text \<open>The updates decoded and the errors, in the order of the resources.\<close>
fun decode_resources ::
  "('l, 'c, 'r, 'e, 's, 'n, 'x) xds_env_scheme \<Rightarrow> type_url \<Rightarrow> xds_resource list
     \<Rightarrow> ('l, 'c, 'r, 'e, 's) xds_payload xds_update list \<times> rejected_config list" where
  "decode_resources E ty [] = ([], [])"
| "decode_resources E ty (resource # rs) =
     (case decode_resources E ty rs of
        (updates, errors) \<Rightarrow>
          (case payload_try_from E resource ty of
             Inl err \<Rightarrow>
               (updates,
                \<lparr>rc_name = res_name resource,
                 rc_reason = ''problem decoding config update for '' @ res_name resource @ '' : error '' @ debug_error E err\<rparr> # errors)
           | Inr value \<Rightarrow> (XdsUpdate (res_name resource) value (res_version resource) # updates, errors)))"

definition decode_response ::
  "('l, 'c, 'r, 'e, 's, 'n, 'x) xds_env_scheme \<Rightarrow> delta_response \<Rightarrow> type_url
     \<Rightarrow> rejected_config list + ('l, 'c, 'r, 'e, 's) xds_payload xds_update list" where
  "decode_response E response ty =
     (case decode_resources E ty (resp_resources response) of
        (decoded_updates, decoding_errors) \<Rightarrow> if decoding_errors = [] then Inr decoded_updates else Inl decoding_errors)"

fun extract_versions :: "(str \<times> str) list \<Rightarrow> 'p xds_update list \<Rightarrow> (str \<times> str) list" where
  "extract_versions versions [] = versions"
| "extract_versions versions (XdsUpdate ident _ version # us) = extract_versions (AList.update ident version versions) us"
| "extract_versions versions (XdsRemove _ _ # us) = extract_versions versions us"

definition extract_update_versions :: "'p xds_update list \<Rightarrow> (str \<times> str) list" where
  "extract_update_versions updates = extract_versions [] updates"

text \<open>What becomes of a batch of updates: the channel to the consumer is closed, the consumer replies with
  what it rejected, it drops the reply channel, or it does not reply in time.\<close>
datatype consumer_reply = ConsumerGone | Acked "rejected_config list" | AckDropped | AckTimeout

definition join_messages :: "str list \<Rightarrow> str" where
  "join_messages = join_with ''; ''"

definition track_versions :: "type_url \<Rightarrow> (str \<times> str) list \<Rightarrow> discovery_client_state \<Rightarrow> discovery_client_state" where
  "track_versions ty versions st =
     st\<lparr>cl_tracked := AList.update ty (foldl (\<lambda>m (k, v). AList.update k v m) (get_or_default (cl_tracked st) ty) versions) (cl_tracked st)\<rparr>"

definition process_discovery_response ::
  "('l, 'c, 'r, 'e, 's, 'n, 'x) xds_env_scheme \<Rightarrow> (('l, 'c, 'r, 'e, 's) xds_payload xds_update list \<Rightarrow> consumer_reply)
     \<Rightarrow> bool \<Rightarrow> delta_response \<Rightarrow> discovery_client_state \<Rightarrow> (xds_error + unit) \<times> 'n delta_request list \<times> discovery_client_state" where
  "process_discovery_response E consumer outbound response st =
     (case type_url_try_from (resp_type_url response) of
        Inl e \<Rightarrow> (Inl e, [], st)
      | Inr ty \<Rightarrow>
          (let nonce = resp_nonce response;
               reply = (\<lambda>err. sent_requests outbound (request_build E ((for_resource ty)\<lparr>rb_nonce := Some nonce, rb_error_detail := err\<rparr>)))
           in case process_resource_ids_for_removal st response ty of
             (st1, for_removal) \<Rightarrow>
               (case decode_response E response ty of
                  Inr decoded_updates \<Rightarrow>
                    (let pending_update_versions = extract_update_versions decoded_updates;
                         removal_notifications = map (\<lambda>resource_id. XdsRemove resource_id ty) for_removal;
                         batched_updates = decoded_updates @ removal_notifications
                     in case consumer batched_updates of
                          ConsumerGone \<Rightarrow> (Inl XdsInternalProcessingError, [], st1)
                        | Acked rejected_configs \<Rightarrow>
                            (if rejected_configs = [] then (Inr (), reply None, track_versions ty pending_update_versions st1)
                             else (Inr (), reply (Some (invalid_argument (join_messages (map rejected_to_string rejected_configs)))), st1))
                        | AckDropped \<Rightarrow> (Inr (), [], st1)
                        | AckTimeout \<Rightarrow>
                            (Inr (), reply (Some (unspecified_error (''timed out trying to apply resource updates for ['' @
                                join_messages (map fst pending_update_versions) @ '']''))), st1))
                | Inl decoding_errors \<Rightarrow>
                    (Inr (), reply (Some (invalid_argument (join_messages (map rejected_to_string decoding_errors)))), st1))))"

text \<open>How a connection ends: the wait before the next one.\<close>
definition persistently_connect :: "xds_error + unit \<Rightarrow> discovery_client_state \<Rightarrow> discovery_client_state" where
  "persistently_connect result st =
     (case result of
        Inl XdsGrpcStatus \<Rightarrow> st\<lparr>cl_backoff := min max_backoff (cl_backoff st * 2)\<rparr>
      | Inl _ \<Rightarrow> (let backoff = min max_backoff (cl_backoff st * 2) in st\<lparr>cl_backoff := backoff + backoff_interval\<rparr>)
      | Inr () \<Rightarrow> st)"

section \<open>The life of the client\<close>

text \<open>What the consumer of the updates accepts: every resource of the response can be decoded, and the batch of the
  updates and removals is not rejected, in time.\<close>
definition accepted ::
  "('l, 'c, 'r, 'e, 's, 'n, 'x) xds_env_scheme \<Rightarrow> (('l, 'c, 'r, 'e, 's) xds_payload xds_update list \<Rightarrow> consumer_reply)
     \<Rightarrow> delta_response \<Rightarrow> bool" where
  "accepted E consumer resp \<longleftrightarrow>
     (case type_url_try_from (resp_type_url resp) of
        Inl _ \<Rightarrow> False
      | Inr ty \<Rightarrow>
          (\<forall>r \<in> set (resp_resources resp). \<not> isl (payload_try_from E r ty)) \<and>
          consumer (map (\<lambda>r. XdsUpdate (res_name r) (projr (payload_try_from E r ty)) (res_version r)) (resp_resources resp) @
            map (\<lambda>i. XdsRemove i ty) (resp_removed_resources resp)) = Acked [])"

text \<open>A response that was processed: whether the consumer accepted it, whether the outbound stream still took requests, and the
  requests it caused there.\<close>
record 'n xds_event =
  ev_response :: delta_response
  ev_accepted :: bool
  ev_outbound :: bool
  ev_requests :: "'n delta_request list"

text \<open>With the state: whether a stream is open, whether its outbound half still takes requests, the requests handed to it, and the
  responses processed, the newest first.  A step is one round of the loop of a connection, the loss of the outbound half, or the end of
  the connection.  The rule \<open>stream_ended\<close> is the arm \<open>else\<close> of the source's \<open>select!\<close>; the pattern of the arm before it
  always matches, so the source never takes it and the relation allows more than the code does.\<close>
record 'n xds_world =
  xw_state :: discovery_client_state
  xw_connected :: bool
  xw_outbound :: bool
  xw_sent :: "'n delta_request list"
  xw_history :: "'n xds_event list"

definition worker_start :: "(type_url \<times> str list) list \<Rightarrow> 'n xds_world" where
  "worker_start initial_subscriptions =
     \<lparr>xw_state = \<lparr>cl_backoff = initial_backoff, cl_tracked = [], cl_subscriptions = initial_subscriptions\<rparr>,
      xw_connected = False, xw_outbound = False, xw_sent = [], xw_history = []\<rparr>"

inductive xds_step ::
  "('l, 'c, 'r, 'e, 's, 'n, 'x) xds_env_scheme \<Rightarrow> type_url option \<Rightarrow> 'n xds_world \<Rightarrow> 'n xds_world \<Rightarrow> bool" for E binding where
  established: "\<not> xw_connected w \<Longrightarrow>
    xds_step E binding w (w\<lparr>xw_state := reset_backoff (xw_state w), xw_connected := True, xw_outbound := True,
      xw_sent := xw_sent w @ build_initial_discovery_requests E binding (xw_state w)\<rparr>)"
| refused: "\<not> xw_connected w \<Longrightarrow>
    xds_step E binding w (w\<lparr>xw_state := persistently_connect (Inl XdsGrpcStatus) (xw_state w)\<rparr>)"
| outbound_lost: "xw_connected w \<Longrightarrow> xds_step E binding w (w\<lparr>xw_outbound := False\<rparr>)"
| subscription: "xw_connected w \<Longrightarrow> process_subscription_event E (xw_outbound w) event (xw_state w) = (st', reqs) \<Longrightarrow>
    xds_step E binding w (w\<lparr>xw_state := st', xw_sent := xw_sent w @ reqs\<rparr>)"
| response: "xw_connected w \<Longrightarrow> process_discovery_response E consumer (xw_outbound w) resp (xw_state w) = (Inr (), reqs, st') \<Longrightarrow>
    xds_step E binding w (w\<lparr>xw_state := st', xw_sent := xw_sent w @ reqs,
      xw_history := \<lparr>ev_response = resp, ev_accepted = accepted E consumer resp, ev_outbound = xw_outbound w, ev_requests = reqs\<rparr> # xw_history w\<rparr>)"
| failed_response: "xw_connected w \<Longrightarrow> process_discovery_response E consumer (xw_outbound w) resp (xw_state w) = (Inl e, reqs, st') \<Longrightarrow>
    xds_step E binding w (w\<lparr>xw_state := persistently_connect (Inl e) st', xw_connected := False,
      xw_sent := xw_sent w @ reqs,
      xw_history := \<lparr>ev_response = resp, ev_accepted = accepted E consumer resp, ev_outbound = xw_outbound w, ev_requests = reqs\<rparr> # xw_history w\<rparr>)"
| stream_error: "xw_connected w \<Longrightarrow>
    xds_step E binding w (w\<lparr>xw_state := persistently_connect (Inl XdsGrpcStatus) (xw_state w), xw_connected := False\<rparr>)"
| stream_empty: "xw_connected w \<Longrightarrow>
    xds_step E binding w (w\<lparr>xw_state := persistently_connect (Inl (XdsUnknownResourceType ''empty payload received'')) (xw_state w),
      xw_connected := False\<rparr>)"
| stream_ended: "xw_connected w \<Longrightarrow>
    xds_step E binding w (w\<lparr>xw_state := persistently_connect (Inr ()) (xw_state w), xw_connected := False\<rparr>)"

section \<open>What a reconnecting client reports\<close>

text \<open>The server's view: a response is acknowledged by a request with its nonce and no error.\<close>
definition acked :: "delta_response \<Rightarrow> 'n delta_request list \<Rightarrow> bool" where
  "acked resp reqs \<longleftrightarrow> (\<exists>r \<in> set reqs. dr_response_nonce r = resp_nonce resp \<and> dr_error_detail r = None)"

text \<open>The version of a resource in the newest response that speaks of it: one that counts and carries the
  resource, or one that removes it.\<close>
fun newest_version :: "('n xds_event \<Rightarrow> bool) \<Rightarrow> type_url \<Rightarrow> str \<Rightarrow> 'n xds_event list \<Rightarrow> str option" where
  "newest_version counts ty i [] = None"
| "newest_version counts ty i (ev # older) =
     (let resp = ev_response ev in
      if type_url_try_from (resp_type_url resp) \<noteq> Inr ty then newest_version counts ty i older
      else case (if counts ev then map_of (rev (map (\<lambda>r. (res_name r, res_version r)) (resp_resources resp))) i else None) of
             Some v \<Rightarrow> Some v
           | None \<Rightarrow> if i \<in> set (resp_removed_resources resp) then None else newest_version counts ty i older)"

lemma newest_version_cong:
  "\<forall>ev \<in> set evs. counts ev = counts' ev \<Longrightarrow> newest_version counts ty i evs = newest_version counts' ty i evs"
  by (induction evs) (simp_all add: Let_def split: option.splits)

lemma type_url_roundtrip: "type_url_try_from (type_url_to_string ty) = Inr ty"
  by (cases ty) (simp_all add: type_url_try_from_def)

lemma get_or_default_update: "get_or_default (AList.update k v m) k' = (if k' = k then v else get_or_default m k')"
  by (simp add: get_or_default_def update_conv)

lemma map_of_get_remove:
  "map_of (get_or_default (cl_tracked (remove_tracked ty ids st)) ty') i =
     (if ty' = ty \<and> i \<in> set ids then None else map_of (get_or_default (cl_tracked st) ty') i)"
proof (induction ty ids st rule: remove_tracked.induct)
  case (2 ty resource_id ids st)
  have one: "map_of (get_or_default (cl_tracked (case map_of (cl_tracked st) ty of
        Some resources \<Rightarrow> st\<lparr>cl_tracked := AList.update ty (AList.delete resource_id resources) (cl_tracked st)\<rparr> | None \<Rightarrow> st)) ty') i =
      (if ty' = ty \<and> i = resource_id then None else map_of (get_or_default (cl_tracked st) ty') i)"
    by (cases "map_of (cl_tracked st) ty") (auto simp: get_or_default_def update_conv delete_conv)
  show ?case using 2 one by (auto split: if_splits)
qed simp

lemma map_of_foldl_update:
  "map_of (foldl (\<lambda>m (k, v). AList.update k v m) m vs) i = (case map_of (rev vs) i of Some v \<Rightarrow> Some v | None \<Rightarrow> map_of m i)"
  by (induction vs arbitrary: m) (auto simp: map_add_def update_conv split: option.splits)

fun update_entries :: "'p xds_update list \<Rightarrow> (str \<times> str) list" where
  "update_entries [] = []"
| "update_entries (XdsUpdate ident _ version # us) = (ident, version) # update_entries us"
| "update_entries (XdsRemove _ _ # us) = update_entries us"

lemma extract_versions_foldl: "extract_versions m us = foldl (\<lambda>m (k, v). AList.update k v m) m (update_entries us)"
  by (induction m us rule: extract_versions.induct) simp_all

lemma decode_resources_entries:
  "decode_resources E ty rs = (updates, []) \<Longrightarrow> update_entries updates = map (\<lambda>r. (res_name r, res_version r)) rs"
  by (induction rs arbitrary: updates) (auto split: prod.splits sum.splits)

lemma distinct_foldl_update: "distinct (map fst m) \<Longrightarrow> distinct (map fst (foldl (\<lambda>m (k, v). AList.update k v m) m vs))"
  by (induction vs arbitrary: m) (auto simp: distinct_update)

lemma map_of_rev_distinct: "distinct (map fst xs) \<Longrightarrow> map_of (rev xs) i = map_of xs i"
proof (induction xs)
  case (Cons x xs)
  then have "map_of xs (fst x) = None" by (simp add: map_of_eq_None_iff)
  with Cons show ?case by (cases x) (auto simp: map_add_def split: option.splits)
qed simp

lemma map_of_pending:
  assumes "decode_response E resp ty = Inr updates"
  shows "map_of (rev (extract_update_versions updates)) i = map_of (rev (map (\<lambda>r. (res_name r, res_version r)) (resp_resources resp))) i"
proof -
  have dec: "decode_resources E ty (resp_resources resp) = (updates, [])"
    using assms by (auto simp: decode_response_def split: prod.splits if_splits)
  have "map_of (rev (extract_update_versions updates)) i = map_of (extract_update_versions updates) i"
    by (rule map_of_rev_distinct) (simp add: extract_update_versions_def extract_versions_foldl distinct_foldl_update)
  also have "\<dots> = map_of (rev (update_entries updates)) i"
    by (simp add: extract_update_versions_def extract_versions_foldl map_of_foldl_update split: option.splits)
  finally show ?thesis by (simp add: decode_resources_entries [OF dec])
qed

lemma map_of_track:
  "map_of (get_or_default (cl_tracked (track_versions ty versions st)) ty') i =
     (if ty' = ty then case map_of (rev versions) i of Some v \<Rightarrow> Some v | None \<Rightarrow> map_of (get_or_default (cl_tracked st) ty') i
      else map_of (get_or_default (cl_tracked st) ty') i)"
  by (auto simp: track_versions_def get_or_default_update map_of_foldl_update)

lemma request_build_simps [simp]:
  "dr_error_detail (request_build E b) = rb_error_detail b"
  "dr_response_nonce (request_build E b) = (case rb_nonce b of Some n \<Rightarrow> n | None \<Rightarrow> [])"
  "dr_initial_resource_versions (request_build E b) = rb_initial_resource_versions b"
  "dr_type_url (request_build E b) = type_url_to_string (rb_type_url b)"
  by (simp_all add: request_build_def)

lemma decode_resources_updates:
  "fst (decode_resources E ty rs) =
     map (\<lambda>r. XdsUpdate (res_name r) (projr (payload_try_from E r ty)) (res_version r)) (filter (\<lambda>r. \<not> isl (payload_try_from E r ty)) rs)"
  "snd (decode_resources E ty rs) = [] \<longleftrightarrow> (\<forall>r \<in> set rs. \<not> isl (payload_try_from E r ty))"
  by (induction rs) (auto split: prod.splits sum.splits)

lemma accepted_iff:
  assumes "type_url_try_from (resp_type_url resp) = Inr ty"
  shows "accepted E consumer resp \<longleftrightarrow> (\<exists>updates. decode_response E resp ty = Inr updates \<and>
    consumer (updates @ map (\<lambda>i. XdsRemove i ty) (resp_removed_resources resp)) = Acked [])"
proof -
  obtain us es where d: "decode_resources E ty (resp_resources resp) = (us, es)" by fastforce
  note upd = decode_resources_updates [where E = E and ty = ty and rs = "resp_resources resp", unfolded d]
  show ?thesis
  proof (cases "es = []")
    case True
    then have "\<forall>r \<in> set (resp_resources resp). \<not> isl (payload_try_from E r ty)" using upd(2) by simp
    with upd(1) True d show ?thesis using assms by (simp add: accepted_def decode_response_def)
  next
    case False
    then show ?thesis using upd(2) d assms by (auto simp: accepted_def decode_response_def)
  qed
qed

text \<open>One response: the tracked versions follow what the consumer accepts, and an accepted response is acknowledged when the
  outbound stream takes the request.\<close>
lemma process_discovery_response_tracks:
  assumes "process_discovery_response E consumer outbound resp st = (result, reqs, st')"
    and inv: "\<And>ty i. map_of (get_or_default (cl_tracked st) ty) i = newest_version ev_accepted ty i older"
  defines "ev \<equiv> \<lparr>ev_response = resp, ev_accepted = accepted E consumer resp, ev_outbound = outbound, ev_requests = reqs\<rparr>"
  shows "map_of (get_or_default (cl_tracked st') ty) i = newest_version ev_accepted ty i (ev # older)"
    and "acked resp reqs \<longleftrightarrow> accepted E consumer resp \<and> outbound"
proof -
  have "map_of (get_or_default (cl_tracked st') ty) i = newest_version ev_accepted ty i (ev # older) \<and>
    (acked resp reqs \<longleftrightarrow> accepted E consumer resp \<and> outbound)"
  proof (cases "type_url_try_from (resp_type_url resp)")
    case (Inl e)
    with assms(1) have "st' = st" "reqs = []" by (simp_all add: process_discovery_response_def)
    with Inl inv show ?thesis by (simp add: ev_def acked_def accepted_def)
  next
    case (Inr t)
    define st1 where "st1 = remove_tracked t (resp_removed_resources resp) st"
    have removed: "map_of (get_or_default (cl_tracked st1) ty') i =
        (if ty' = t \<and> i \<in> set (resp_removed_resources resp) then None else newest_version ev_accepted ty' i older)" for ty'
      by (simp add: st1_def map_of_get_remove inv)
    note defs = process_discovery_response_def process_resource_ids_for_removal_def st1_def Let_def acked_def sent_requests_def
    consider (ack) updates where "decode_response E resp t = Inr updates" "accepted E consumer resp" "acked resp reqs = outbound"
        "st' = track_versions t (extract_update_versions updates) st1"
      | (nack) "\<not> accepted E consumer resp" "\<not> acked resp reqs" "st' = st1"
    proof (cases "decode_response E resp t")
      case (Inl errs)
      with assms(1) Inr have "st' = st1" "\<not> acked resp reqs" by (auto simp: defs)
      then show thesis using Inl accepted_iff [OF Inr, of E consumer] by (intro nack) auto
    next
      case dec: (Inr updates)
      show thesis
      proof (cases "consumer (updates @ map (\<lambda>resource_id. XdsRemove resource_id t) (resp_removed_resources resp)) = Acked []")
        case True
        with assms(1) Inr dec have "st' = track_versions t (extract_update_versions updates) st1" "acked resp reqs = outbound"
          by (auto simp: defs)
        with dec True accepted_iff [OF Inr, of E consumer] show thesis by (intro ack) auto
      next
        case False
        with assms(1) Inr dec have "st' = st1" "\<not> acked resp reqs"
          by (auto simp: defs split: consumer_reply.splits if_splits)
        with dec False accepted_iff [OF Inr, of E consumer] show thesis by (intro nack) auto
      qed
    qed
    then show ?thesis
    proof cases
      case ack
      then show ?thesis using Inr removed [of ty] map_of_pending [OF ack(1), of i]
        by (simp add: map_of_track ev_def split: option.splits)
    next
      case nack
      then show ?thesis using Inr removed [of ty] by (simp add: ev_def)
    qed
  qed
  then show "map_of (get_or_default (cl_tracked st') ty) i = newest_version ev_accepted ty i (ev # older)"
    and "acked resp reqs \<longleftrightarrow> accepted E consumer resp \<and> outbound" by blast+
qed

lemma cl_tracked_simps [simp]:
  "cl_tracked (persistently_connect r st) = cl_tracked st" "cl_tracked (reset_backoff st) = cl_tracked st"
  by (auto simp: persistently_connect_def reset_backoff_def Let_def split: sum.splits xds_error.splits unit.splits)

lemma subscription_tracked: "process_subscription_event E outbound event st = (st', reqs) \<Longrightarrow> cl_tracked st' = cl_tracked st"
  by (cases event) (auto simp: Let_def)

definition tracks_accepted :: "'n xds_world \<Rightarrow> bool" where
  "tracks_accepted w \<longleftrightarrow>
     (\<forall>ty i. map_of (get_or_default (cl_tracked (xw_state w)) ty) i = newest_version ev_accepted ty i (xw_history w)) \<and>
     (\<forall>ev \<in> set (xw_history w). acked (ev_response ev) (ev_requests ev) \<longleftrightarrow> ev_accepted ev \<and> ev_outbound ev)"

lemma tracks_acceptedD:
  "tracks_accepted w \<Longrightarrow> map_of (get_or_default (cl_tracked (xw_state w)) ty) i = newest_version ev_accepted ty i (xw_history w)"
  by (simp add: tracks_accepted_def)

lemma xds_step_tracks:
  assumes "xds_step E binding w w'" "tracks_accepted w"
  shows "tracks_accepted w'"
  using assms(1)
proof cases
  case response
  then show ?thesis using assms(2) process_discovery_response_tracks [OF response(3) tracks_acceptedD [OF assms(2)]]
    by (simp add: tracks_accepted_def)
next
  case failed_response
  then show ?thesis using assms(2) process_discovery_response_tracks [OF failed_response(3) tracks_acceptedD [OF assms(2)]]
    by (simp add: tracks_accepted_def)
next
  case subscription
  then show ?thesis using assms(2) subscription_tracked [OF subscription(3)] by (simp add: tracks_accepted_def)
qed (use assms(2) in \<open>simp_all add: tracks_accepted_def\<close>)

lemma xds_reachable_tracks:
  assumes "(xds_step E binding)\<^sup>*\<^sup>* (worker_start subs) w"
  shows "tracks_accepted w"
  using assms
proof (induction rule: rtranclp_induct)
  case base
  then show ?case by (simp add: tracks_accepted_def worker_start_def get_or_default_def)
qed (rule xds_step_tracks)

text \<open>The wait between connections never falls below the initial one, and exceeds the maximum by at most the
  interval that is added after errors other than a gRPC status.\<close>
lemma xds_backoff_bounded:
  assumes "(xds_step E binding)\<^sup>*\<^sup>* (worker_start subs) w"
  shows "initial_backoff \<le> cl_backoff (xw_state w) \<and> cl_backoff (xw_state w) \<le> max_backoff + backoff_interval"
proof -
  define ok where "ok n \<longleftrightarrow> initial_backoff \<le> n \<and> n \<le> max_backoff + backoff_interval" for n
  have init: "ok initial_backoff"
    by (simp add: ok_def max_backoff_def initial_backoff_def)
  have upd: "ok (cl_backoff st) \<Longrightarrow> ok (cl_backoff (persistently_connect r st))" for r st
    by (auto simp: ok_def persistently_connect_def Let_def initial_backoff_def max_backoff_def backoff_interval_def
        split: sum.splits xds_error.splits unit.splits)
  have sub: "cl_backoff st' = cl_backoff st" if "process_subscription_event E outbound event st = (st', reqs)" for outbound event st st' reqs
    using that by (cases event) (auto simp: Let_def)
  have rem: "cl_backoff (remove_tracked ty ids st) = cl_backoff st" for ty ids st
    by (induction ty ids st rule: remove_tracked.induct) (auto split: option.splits)
  have resp: "cl_backoff st' = cl_backoff st" if "process_discovery_response E consumer outbound r st = (res, reqs, st')" for consumer outbound r st res reqs st'
    using that by (auto simp: process_discovery_response_def process_resource_ids_for_removal_def track_versions_def rem Let_def
        split: sum.splits consumer_reply.splits if_splits)
  have "ok (cl_backoff (xw_state w))" using assms
  proof (induction rule: rtranclp_induct)
    case base
    then show ?case by (simp add: worker_start_def init)
  next
    case (step v w)
    from step.hyps(2) show ?case
    proof cases
      case subscription
      then show ?thesis using step.IH sub [OF subscription(3)] by simp
    next
      case response
      then show ?thesis using step.IH resp [OF response(3)] by simp
    next
      case failed_response
      then show ?thesis using step.IH resp [OF failed_response(3)] by (simp add: upd)
    qed (use step.IH in \<open>simp_all add: upd init reset_backoff_def\<close>)
  qed
  then show ?thesis by (simp add: ok_def)
qed

text \<open>C39: On a new connection the client reports, for every resource type it asks for, exactly the versions its consumer has
  accepted: the version of a resource is the one in the newest accepted response with that resource, unless a later response, even
  one that is rejected, removed it.  Updates that were refused, that timed out or that could not be decoded are never reported as held.  A
  response is acknowledged on the outbound stream exactly when it was accepted and the stream still took the request; so when no
  request was lost the versions reported are the versions acknowledged.\<close>
theorem xds_reports_accepted:
  assumes "(xds_step E binding)\<^sup>*\<^sup>* (worker_start subs) w"
    and "req \<in> set (build_initial_discovery_requests E binding (xw_state w))" "dr_type_url req = type_url_to_string ty"
  shows "map_of (dr_initial_resource_versions req) i = newest_version ev_accepted ty i (xw_history w) \<and>
    (\<forall>ev \<in> set (xw_history w). acked (ev_response ev) (ev_requests ev) \<longleftrightarrow> ev_accepted ev \<and> ev_outbound ev) \<and>
    ((\<forall>ev \<in> set (xw_history w). ev_outbound ev) \<longrightarrow>
      map_of (dr_initial_resource_versions req) i = newest_version (\<lambda>ev. acked (ev_response ev) (ev_requests ev)) ty i (xw_history w))"
proof -
  obtain t where t: "dr_type_url req = type_url_to_string t" "dr_initial_resource_versions req = get_or_default (cl_tracked (xw_state w)) t"
    using assms(2) by (auto simp: build_initial_discovery_requests_def for_resource_def Let_def)
  have "t = ty"
    using arg_cong [OF trans [OF t(1) [symmetric] assms(3)], of type_url_try_from] by (simp add: type_url_roundtrip)
  with t(2) have reported: "map_of (dr_initial_resource_versions req) i = newest_version ev_accepted ty i (xw_history w)"
    using tracks_acceptedD [OF xds_reachable_tracks [OF assms(1)]] by simp
  have acks: "\<forall>ev \<in> set (xw_history w). acked (ev_response ev) (ev_requests ev) \<longleftrightarrow> ev_accepted ev \<and> ev_outbound ev"
    using xds_reachable_tracks [OF assms(1)] by (simp add: tracks_accepted_def)
  have "newest_version ev_accepted ty i (xw_history w) = newest_version (\<lambda>ev. acked (ev_response ev) (ev_requests ev)) ty i (xw_history w)"
    if "\<forall>ev \<in> set (xw_history w). ev_outbound ev"
    using acks that by (intro newest_version_cong) simp
  with reported acks show ?thesis by simp
qed

definition example_env :: "(unit, unit, unit, unit, unit, unit) xds_env" where
  "example_env =
     \<lparr>decode_listener = (\<lambda>_. Inr ()), decode_cluster = (\<lambda>_. Inr ()), decode_route = (\<lambda>_. Inr ()),
      decode_endpoints = (\<lambda>_. Inr ()), decode_secret = (\<lambda>_. Inr ()), debug_error = (\<lambda>_. []), env_node = (), default_node = ()\<rparr>"

definition example_response :: "str \<Rightarrow> delta_response" where
  "example_response name =
     \<lparr>resp_type_url = type_url_to_string TuCluster, resp_resources = [\<lparr>res_name = name, res_version = ''7'', res_value = Some []\<rparr>],
      resp_removed_resources = [], resp_nonce = ''n''\<rparr>"

definition example_ack :: "unit delta_request" where
  "example_ack = request_build example_env ((for_resource TuCluster)\<lparr>rb_nonce := Some ''n'', rb_error_detail := None\<rparr>)"

lemma example_processed:
  "process_discovery_response example_env (\<lambda>_. Acked []) outbound (example_response name)
     \<lparr>cl_backoff = 1, cl_tracked = [(TuCluster, m)], cl_subscriptions = []\<rparr> =
     (Inr (), sent_requests outbound example_ack,
      \<lparr>cl_backoff = 1, cl_tracked = [(TuCluster, AList.update name ''7'' m)], cl_subscriptions = []\<rparr>)"
  "process_discovery_response example_env (\<lambda>_. Acked []) outbound (example_response name)
     \<lparr>cl_backoff = 1, cl_tracked = [], cl_subscriptions = []\<rparr> =
     (Inr (), sent_requests outbound example_ack,
      \<lparr>cl_backoff = 1, cl_tracked = [(TuCluster, [(name, ''7'')])], cl_subscriptions = []\<rparr>)"
  by (simp_all add: process_discovery_response_def example_response_def type_url_try_from_def process_resource_ids_for_removal_def
      decode_response_def payload_try_from_def example_env_def extract_update_versions_def track_versions_def get_or_default_def
      example_ack_def Let_def)

lemma example_accepted: "accepted example_env (\<lambda>_. Acked []) (example_response name)"
  by (simp add: accepted_def example_response_def type_url_try_from_def payload_try_from_def example_env_def)

text \<open>Two accepted responses; the outbound stream is lost between them, so that the second is not acknowledged.\<close>
theorem xds_reports_accepted_witness:
  "\<exists>w req. (xds_step example_env None)\<^sup>*\<^sup>* (worker_start []) w \<and> req \<in> set (build_initial_discovery_requests example_env None (xw_state w)) \<and>
     dr_type_url req = type_url_to_string TuCluster \<and>
     map_of (dr_initial_resource_versions req) ''c1'' = Some ''7'' \<and> map_of (dr_initial_resource_versions req) ''c2'' = Some ''7'' \<and>
     newest_version (\<lambda>ev. acked (ev_response ev) (ev_requests ev)) TuCluster ''c1'' (xw_history w) = Some ''7'' \<and>
     newest_version (\<lambda>ev. acked (ev_response ev) (ev_requests ev)) TuCluster ''c2'' (xw_history w) = None"
proof -
  define e where "e b name = \<lparr>ev_response = example_response name, ev_accepted = True, ev_outbound = b, ev_requests = sent_requests b example_ack\<rparr>" for b name
  define w1 :: "unit xds_world" where
    "w1 = \<lparr>xw_state = \<lparr>cl_backoff = 1, cl_tracked = [], cl_subscriptions = []\<rparr>, xw_connected = True, xw_outbound = True,
       xw_sent = build_initial_discovery_requests example_env None (xw_state (worker_start [] :: unit xds_world)), xw_history = []\<rparr>"
  define w2 where
    "w2 = w1\<lparr>xw_state := \<lparr>cl_backoff = 1, cl_tracked = [(TuCluster, [(''c1'', ''7'')])], cl_subscriptions = []\<rparr>,
       xw_sent := xw_sent w1 @ sent_requests True example_ack, xw_history := e True ''c1'' # xw_history w1\<rparr>"
  define w3 where "w3 = w2\<lparr>xw_outbound := False\<rparr>"
  define w4 where
    "w4 = w3\<lparr>xw_state := \<lparr>cl_backoff = 1, cl_tracked = [(TuCluster, AList.update ''c2'' ''7'' [(''c1'', ''7'')])], cl_subscriptions = []\<rparr>,
       xw_sent := xw_sent w3 @ sent_requests False example_ack, xw_history := e False ''c2'' # xw_history w3\<rparr>"
  have s1: "xds_step example_env None (worker_start []) w1"
    using xds_step.established [of "worker_start []" example_env None]
    by (simp add: worker_start_def w1_def reset_backoff_def initial_backoff_def)
  have s2: "xds_step example_env None w1 w2"
    using xds_step.response [of w1 example_env "\<lambda>_. Acked []" "example_response ''c1''" _ _ None] example_processed(2) [of True "''c1''"]
    by (simp add: w1_def w2_def e_def example_accepted)
  have s3: "xds_step example_env None w2 w3"
    unfolding w3_def by (rule xds_step.outbound_lost) (simp add: w2_def w1_def)
  have s4: "xds_step example_env None w3 w4"
    using xds_step.response [of w3 example_env "\<lambda>_. Acked []" "example_response ''c2''" _ _ None] example_processed(1) [of False "''c2''"]
    by (simp add: w1_def w2_def w3_def w4_def e_def example_accepted)
  have run: "(xds_step example_env None)\<^sup>*\<^sup>* (worker_start []) w4"
    using s1 s2 s3 s4 by (meson converse_rtranclp_into_rtranclp r_into_rtranclp)
  define req where "req = build_initial_discovery_requests example_env None (xw_state w4) ! 1"
  have req: "req \<in> set (build_initial_discovery_requests example_env None (xw_state w4))" "dr_type_url req = type_url_to_string TuCluster"
    by (simp_all add: req_def build_initial_discovery_requests_def for_resource_def)
  have hist: "xw_history w4 = [e False ''c2'', e True ''c1'']"
    by (simp add: w4_def w3_def w2_def w1_def)
  have rep: "map_of (dr_initial_resource_versions req) i = newest_version ev_accepted TuCluster i (xw_history w4)" for i
    using xds_reports_accepted [OF run req] by blast
  note eval = hist e_def example_response_def Let_def
  have "map_of (dr_initial_resource_versions req) ''c1'' = Some ''7''" "map_of (dr_initial_resource_versions req) ''c2'' = Some ''7''"
    unfolding rep by (simp_all add: eval type_url_try_from_def)
  moreover have "newest_version (\<lambda>ev. acked (ev_response ev) (ev_requests ev)) TuCluster ''c1'' (xw_history w4) = Some ''7''"
    "newest_version (\<lambda>ev. acked (ev_response ev) (ev_requests ev)) TuCluster ''c2'' (xw_history w4) = None"
    by (simp_all add: eval type_url_try_from_def acked_def sent_requests_def example_ack_def)
  ultimately show ?thesis using run req by blast
qed

end
