(* ===== verification/Spec2Isabelle.thy ===== *)
theory Spec2Isabelle
  imports Health_Check Filter_Chain Http_Connection_Manager Priority_Balancer Maglev Ring_Hash Random_Least Proxy_Protocol Xds_Client
begin

text \<open>
  A verification development of the Orion proxy (Rust workspace under \<open>src/\<close>).

  Orion accepts connections on listeners, selects a filter chain, runs network and HTTP filters,
  matches a request to a route, picks an endpoint of the route's cluster with a load balancer,
  and forwards the request; active health checks and xDS updates change the endpoints and the
  configuration while it runs.
\<close>

end
